(* ===== verification/Vtel_Prelude.thy ===== *)
theory Vtel_Prelude
  imports Main "HOL-Library.Word"
begin

text \<open>
  The prelude of the development: the types every component shares (bytes, durations, Go's
  errors as values of a sum), big-endian integers as \<^verbatim>\<open>encoding/binary\<close> writes and reads them,
  \<^verbatim>\<open>io.ReadFull\<close> on a byte stream, and the lemma collections the component proofs carry:
  \<open>wire_simps\<close> for the byte encodings and \<open>res_simps\<close> for error results.
\<close>

unbundle bit_operations_syntax

type_synonym byte = "8 word"
type_synonym bytes = "byte list"

text \<open>A \<^verbatim>\<open>time.Time\<close> is read as nanoseconds, a \<^verbatim>\<open>time.Duration\<close> as a number of nanoseconds.\<close>

type_synonym time = int
type_synonym duration = int

abbreviation Millisecond :: duration where "Millisecond \<equiv> 1000000"
abbreviation Second :: duration where "Second \<equiv> 1000000000"
abbreviation Minute :: duration where "Minute \<equiv> 60000000000"

named_theorems wire_simps \<open>rewriting of encoded and decoded byte sequences\<close>
named_theorems res_simps \<open>rewriting of results that may be errors\<close>

subsection \<open>Results: the pair (value, error) of Go as a sum\<close>

text \<open>\<open>bind_res\<close> is \<^verbatim>\<open>if err != nil { return err }\<close>: go on only with a value.\<close>

definition bind_res :: "'e + 'a \<Rightarrow> ('a \<Rightarrow> 'e + 'b) \<Rightarrow> 'e + 'b" where
  "bind_res r f = (case r of Inl e \<Rightarrow> Inl e | Inr x \<Rightarrow> f x)"

lemma bind_res_simps [simp, res_simps]:
  "bind_res (Inl e) f = Inl e"
  "bind_res (Inr x) f = f x"
  by (simp_all add: bind_res_def)

lemma bind_res_Inr_iff [res_simps]:
  "bind_res r f = Inr y \<longleftrightarrow> (\<exists>x. r = Inr x \<and> f x = Inr y)"
  by (cases r) auto

lemma bind_res_Inl_iff [res_simps]:
  "bind_res r f = Inl e \<longleftrightarrow> r = Inl e \<or> (\<exists>x. r = Inr x \<and> f x = Inl e)"
  by (cases r) auto

subsection \<open>Lists\<close>

lemma list_of_length_4: "length xs = 4 \<longleftrightarrow> (\<exists>a b c d. xs = [a, b, c, d])"
  by (auto simp: length_Suc_conv eval_nat_numeral)

lemma list_of_length_2: "length xs = 2 \<longleftrightarrow> (\<exists>a b. xs = [a, b])"
  by (auto simp: length_Suc_conv eval_nat_numeral)

subsection \<open>Big-endian integers (encoding/binary)\<close>

lemma byte_bit_high [simp]: "8 \<le> n \<Longrightarrow> \<not> bit (b :: byte) n"
  using bit_imp_le_length [of b n] by auto

definition PutUint16 :: "16 word \<Rightarrow> bytes" where
  "PutUint16 v = [ucast (drop_bit 8 v), ucast v]"

definition Uint16 :: "bytes \<Rightarrow> 16 word" where
  "Uint16 b = ucast (b ! 1) OR push_bit 8 (ucast (b ! 0))"

definition PutUint32 :: "32 word \<Rightarrow> bytes" where
  "PutUint32 v = [ucast (drop_bit 24 v), ucast (drop_bit 16 v), ucast (drop_bit 8 v), ucast v]"

definition Uint32 :: "bytes \<Rightarrow> 32 word" where
  "Uint32 b = ucast (b ! 3) OR push_bit 8 (ucast (b ! 2))
     OR push_bit 16 (ucast (b ! 1)) OR push_bit 24 (ucast (b ! 0))"

lemma length_PutUint [simp, wire_simps]:
  "length (PutUint16 v) = 2" "length (PutUint32 w) = 4"
  by (simp_all add: PutUint16_def PutUint32_def)

lemma Uint16_PutUint16 [simp, wire_simps]: "Uint16 (PutUint16 v) = v"
  by (rule bit_word_eqI) (auto simp: Uint16_def PutUint16_def bit_simps)

lemma Uint32_PutUint32 [simp, wire_simps]: "Uint32 (PutUint32 v) = v"
proof (rule bit_word_eqI)
  fix n assume "n < LENGTH(32)"
  then consider "n < 8" | "8 \<le> n" "n < 16" | "16 \<le> n" "n < 24" | "24 \<le> n" "n < 32"
    by force
  then show "bit (Uint32 (PutUint32 v)) n = bit v n"
    by cases (auto simp: Uint32_def PutUint32_def bit_simps)
qed

lemma PutUint16_Uint16 [wire_simps]: "length b = 2 \<Longrightarrow> PutUint16 (Uint16 b) = b"
  by (auto simp: list_of_length_2 Uint16_def PutUint16_def bit_simps
      intro!: bit_word_eqI)

lemma PutUint32_Uint32 [wire_simps]:
  assumes "length b = 4"
  shows "PutUint32 (Uint32 b) = b"
proof -
  obtain p q r s where b: "b = [p, q, r, s]"
    using assms by (auto simp: list_of_length_4)
  show ?thesis
    by (auto simp: b Uint32_def PutUint32_def bit_simps intro!: bit_word_eqI
       )
qed

text \<open>The low byte of a Go \<^verbatim>\<open>int\<close>, as the conversion \<^verbatim>\<open>byte(n)\<close> takes it.\<close>

definition byte_of_int :: "nat \<Rightarrow> byte" where
  "byte_of_int n = word_of_nat n"

lemma unat_byte_of_int [wire_simps]: "unat (byte_of_int n) = n mod 256"
  by (simp add: byte_of_int_def unat_of_nat)

lemma unat_byte_of_int_small [simp]: "n < 256 \<Longrightarrow> unat (byte_of_int n) = n"
  by (simp add: unat_byte_of_int)

lemma byte_of_int_unat [simp]: "byte_of_int (unat b) = b"
  by (simp add: byte_of_int_def)

lemma unat_byte_less [simp]: "unat (b :: byte) < 256"
  using unsigned_less [of b] by simp

text \<open>A property of all bytes, by checking each of them.\<close>

lemma byte_all:
  assumes "list_all (\<lambda>n. P (word_of_nat n :: byte)) [0..<256]"
  shows "P b"
proof -
  have "unat b \<in> set [0..<256]" by simp
  then have "P (word_of_nat (unat b))" using assms unfolding list_all_iff by blast
  then show ?thesis by simp
qed

subsection \<open>Buffers\<close>

text \<open>\<open>copy_to n xs\<close> is a zeroed buffer of \<open>n\<close> bytes after \<^verbatim>\<open>copy(buf, xs)\<close>.\<close>

definition copy_to :: "nat \<Rightarrow> bytes \<Rightarrow> bytes" where
  "copy_to n xs = take n xs @ replicate (n - length xs) 0"

lemma length_copy_to [simp]: "length (copy_to n xs) = n"
  by (simp add: copy_to_def)

lemma copy_to_exact [simp]: "length xs = n \<Longrightarrow> copy_to n xs = xs"
  by (simp add: copy_to_def)

subsection \<open>io.ReadFull on a byte stream\<close>

datatype io_error = EOF | ErrUnexpectedEOF

text \<open>
  A reader is the bytes that are still unread. \<^verbatim>\<open>io.ReadFull\<close> fills a buffer of \<open>n\<close> bytes,
  or fails with \<^verbatim>\<open>io.EOF\<close> when nothing at all could be read and with
  \<^verbatim>\<open>io.ErrUnexpectedEOF\<close> when the stream ends in the middle.
\<close>

definition ReadFull :: "nat \<Rightarrow> bytes \<Rightarrow> io_error + (bytes \<times> bytes)" where
  "ReadFull n r =
     (if length r < n then Inl (if r = [] then EOF else ErrUnexpectedEOF)
      else Inr (take n r, drop n r))"

lemma ReadFull_append [simp, res_simps]:
  "length xs = n \<Longrightarrow> ReadFull n (xs @ r) = Inr (xs, r)"
  by (simp add: ReadFull_def)

lemma ReadFull_InrD: "ReadFull n r = Inr (xs, r') \<Longrightarrow> length xs = n \<and> r = xs @ r'"
  by (auto simp: ReadFull_def split: if_splits)

lemma ReadFull_Inr_iff: "ReadFull n r = Inr (xs, r') \<longleftrightarrow> length xs = n \<and> r = xs @ r'"
  using ReadFull_InrD [of n r xs r'] by auto

lemma ReadFull_short: "length r < n \<Longrightarrow> \<exists>e. ReadFull n r = Inl e"
  by (simp add: ReadFull_def)


subsection \<open>Signed integers\<close>

definition int32 :: "int \<Rightarrow> int" where
  "int32 i = (i + 2 ^ 31) mod 2 ^ 32 - 2 ^ 31"

text \<open>\<open>int64\<close> is the value of an expression of type \<^verbatim>\<open>int64\<close>, wrapped around; \<open>quot64\<close> its division.\<close>

definition int64 :: "int \<Rightarrow> int" where
  "int64 i = (i + 2 ^ 63) mod 2 ^ 64 - 2 ^ 63"

definition quot64 :: "int \<Rightarrow> int \<Rightarrow> int" where
  "quot64 a b = int64 (sgn a * sgn b * (\<bar>a\<bar> div \<bar>b\<bar>))"

lemma int64_small [simp]: "- (2 ^ 63) \<le> i \<Longrightarrow> i < 2 ^ 63 \<Longrightarrow> int64 i = i"
  by (simp add: int64_def)

lemma quot64_nonneg: "0 \<le> a \<Longrightarrow> a < 2 ^ 63 \<Longrightarrow> 0 < b \<Longrightarrow> quot64 a b = a div b"
proof -
  assume a: "0 \<le> a" "a < 2 ^ 63" "0 < b"
  have "0 \<le> a div b" using a by (simp add: pos_imp_zdiv_nonneg_iff)
  moreover have "a div b \<le> a" using zdiv_mono2 [of a 1 b] a by simp
  ultimately show ?thesis using a
    by (cases "a = 0") (simp_all add: quot64_def sgn_if)
qed

subsection \<open>Errors that tell whether a retry makes sense\<close>

text \<open>
  A Go error as far as the retry loops look at it: a plain message, a wrapping of another error
  (\<^verbatim>\<open>%w\<close>), or an error type with a method \<^verbatim>\<open>Permanent\<close> that returns the given answer. \<open>isPermanentError\<close>
  walks the chain as \<^verbatim>\<open>errors.As\<close> does.
\<close>

datatype go_error = PlainError string | WrappedError string go_error | ClassifiedError bool string

fun isPermanentError :: "go_error \<Rightarrow> bool" where
  "isPermanentError (PlainError _) \<longleftrightarrow> False"
| "isPermanentError (WrappedError _ e) \<longleftrightarrow> isPermanentError e"
| "isPermanentError (ClassifiedError p _) \<longleftrightarrow> p"

end
