(* ===== verification/Go_Fmt.thy ===== *)
theory Go_Fmt
  imports Vtel_Prelude "HOL-Library.Char_ord" "HOL-Library.List_Lexorder"
begin

text \<open>
  What the program uses of Go's \<^verbatim>\<open>fmt\<close> and \<^verbatim>\<open>strings\<close> packages: the verbs \<^verbatim>\<open>%d\<close>, \<^verbatim>\<open>%012d\<close> and
  \<^verbatim>\<open>%x\<close>, prefix and suffix tests, \<^verbatim>\<open>SplitN\<close> with two parts. A Go string is a list of bytes; here a
  \<^typ>\<open>string\<close>, compared byte by byte as Go does (\<open>Char_ord\<close> and \<open>List_Lexorder\<close>). The main
  facts: decimal numerals are injective and free of separators, and zero-padded numerals of
  a fixed width sort like the numbers they denote.
\<close>

subsection \<open>Decimal numerals\<close>

definition digit :: "nat \<Rightarrow> char" where
  "digit d = char_of (48 + d)"

fun dec_nat :: "nat \<Rightarrow> string" where
  "dec_nat n = (if n < 10 then [digit n] else dec_nat (n div 10) @ [digit (n mod 10)])"

declare dec_nat.simps [simp del]

text \<open>\<^verbatim>\<open>%d\<close> of a signed integer, \<^verbatim>\<open>%0wd\<close> of an unsigned one, \<^verbatim>\<open>%x\<close> of a byte slice.\<close>

definition fmt_d :: "int \<Rightarrow> string" where
  "fmt_d i = (if i < 0 then CHR ''-'' # dec_nat (nat (- i)) else dec_nat (nat i))"

definition fmt_0d :: "nat \<Rightarrow> nat \<Rightarrow> string" where
  "fmt_0d w n = (let s = dec_nat n in replicate (w - length s) CHR ''0'' @ s)"

definition hex_digit :: "nat \<Rightarrow> char" where
  "hex_digit d = (if d < 10 then char_of (48 + d) else char_of (87 + d))"

definition fmt_x :: "bytes \<Rightarrow> string" where
  "fmt_x bs = concat (map (\<lambda>b. [hex_digit (unat b div 16), hex_digit (unat b mod 16)]) bs)"

text \<open>The conversions \<^verbatim>\<open>string(b)\<close> and \<^verbatim>\<open>[]byte(s)\<close>.\<close>

definition string_of_bytes :: "bytes \<Rightarrow> string" where
  "string_of_bytes bs = map (\<lambda>b. char_of (unat b)) bs"

definition bytes_of_string :: "string \<Rightarrow> bytes" where
  "bytes_of_string s = map (\<lambda>c. word_of_nat (of_char c)) s"

lemma string_of_bytes_of_string [simp]: "string_of_bytes (bytes_of_string s) = s"
proof -
  have "char_of (unat (word_of_nat (of_char c) :: byte)) = c" for c :: char
    by (simp add: unat_of_nat)
  then show ?thesis by (simp add: string_of_bytes_def bytes_of_string_def comp_def)
qed

lemma bytes_of_string_of_bytes [simp]: "bytes_of_string (string_of_bytes b) = b"
proof -
  have "word_of_nat (of_char (char_of (unat x))) = x" for x :: byte
    by simp
  then show ?thesis by (simp add: string_of_bytes_def bytes_of_string_def comp_def)
qed

subsection \<open>strings.HasPrefix, HasSuffix, TrimSuffix, SplitN\<close>

definition HasPrefix :: "string \<Rightarrow> string \<Rightarrow> bool" where
  "HasPrefix s p \<longleftrightarrow> take (length p) s = p"

definition HasSuffix :: "string \<Rightarrow> string \<Rightarrow> bool" where
  "HasSuffix s p \<longleftrightarrow> length p \<le> length s \<and> drop (length s - length p) s = p"

definition TrimPrefix :: "string \<Rightarrow> string \<Rightarrow> string" where
  "TrimPrefix s p = (if HasPrefix s p then drop (length p) s else s)"

definition TrimSuffix :: "string \<Rightarrow> string \<Rightarrow> string" where
  "TrimSuffix s p = (if HasSuffix s p then take (length s - length p) s else s)"

text \<open>\<^verbatim>\<open>strings.SplitN(s, sep, 2)\<close> for a separator of one character: one part or two.\<close>

definition SplitN2 :: "string \<Rightarrow> char \<Rightarrow> string list" where
  "SplitN2 s c =
     (if c \<in> set s then [takeWhile (\<lambda>x. x \<noteq> c) s, tl (dropWhile (\<lambda>x. x \<noteq> c) s)] else [s])"

lemma HasPrefix_iff: "HasPrefix s p \<longleftrightarrow> (\<exists>r. s = p @ r)"
  unfolding HasPrefix_def by (metis append_eq_conv_conj)

lemma HasPrefix_append [simp]: "HasPrefix (p @ r) p"
  by (simp add: HasPrefix_def)

lemma HasSuffix_append [simp]: "HasSuffix (r @ p) p"
  by (simp add: HasSuffix_def)

lemma TrimSuffix_append [simp]: "TrimSuffix (r @ p) p = r"
  by (simp add: TrimSuffix_def)

lemma SplitN2_append [simp]:
  assumes "c \<notin> set p"
  shows "SplitN2 (p @ c # r) c = [p, r]"
proof -
  have "\<forall>x \<in> set p. x \<noteq> c" using assms by blast
  then show ?thesis by (simp add: SplitN2_def takeWhile_append2 dropWhile_append2)
qed

subsection \<open>Numerals are digits\<close>

definition is_digit :: "char \<Rightarrow> bool" where
  "is_digit c \<longleftrightarrow> 48 \<le> (of_char c :: nat) \<and> (of_char c :: nat) \<le> 57"

lemma of_char_digit: "d < 10 \<Longrightarrow> (of_char (digit d) :: nat) = 48 + d"
  by (simp add: digit_def)

lemma is_digit_digit [simp]: "d < 10 \<Longrightarrow> is_digit (digit d)"
  by (simp add: is_digit_def of_char_digit)

lemma digit_inject [simp]: "d < 10 \<Longrightarrow> e < 10 \<Longrightarrow> digit d = digit e \<longleftrightarrow> d = e"
  by (metis add_left_cancel of_char_digit)

lemma digit_less_iff: "d < 10 \<Longrightarrow> e < 10 \<Longrightarrow> digit d < digit e \<longleftrightarrow> d < e"
  by (simp add: less_char_def of_char_digit)

lemma dec_nat_digits: "\<forall>c \<in> set (dec_nat n). is_digit c"
proof (induction n rule: dec_nat.induct)
  case (1 n)
  then show ?case
    by (cases "n < 10") (auto simp: dec_nat.simps [of n])
qed

lemma dec_nat_nonempty [simp]: "dec_nat n \<noteq> []" "[] \<noteq> dec_nat n"
  by (simp_all add: dec_nat.simps)

lemma dec_nat_inject: "dec_nat m = dec_nat n \<longleftrightarrow> m = n"
proof
  show "dec_nat m = dec_nat n \<Longrightarrow> m = n"
  proof (induction m arbitrary: n rule: dec_nat.induct)
    case (1 m)
    show ?case
    proof (cases "m < 10")
      case True
      with "1.prems" show ?thesis
        by (auto simp: dec_nat.simps [of m] dec_nat.simps [of n] split: if_splits)
    next
      case False
      with "1.prems" have "\<not> n < 10"
        by (auto simp: dec_nat.simps [of m] dec_nat.simps [of n] split: if_splits)
      with False "1.prems" have "dec_nat (m div 10) = dec_nat (n div 10)" "m mod 10 = n mod 10"
        by (auto simp: dec_nat.simps [of m] dec_nat.simps [of n])
      with "1.IH" [OF False] show ?thesis by (metis div_mult_mod_eq)
    qed
  qed
qed simp

lemma fmt_d_chars: "\<forall>c \<in> set (fmt_d i). is_digit c \<or> c = CHR ''-''"
  using dec_nat_digits by (auto simp: fmt_d_def)

lemma not_digit_sep [simp]:
  "\<not> is_digit CHR ''_''" "\<not> is_digit CHR ''-''" "\<not> is_digit CHR 0x0A"
  by (simp_all add: is_digit_def)

lemma fmt_d_no_sep [simp]: "CHR ''_'' \<notin> set (fmt_d i)" "CHR 0x0A \<notin> set (fmt_d i)"
  using fmt_d_chars by force+

lemma fmt_d_inject: "fmt_d i = fmt_d j \<longleftrightarrow> i = j"
proof -
  have "CHR ''-'' # dec_nat m \<noteq> dec_nat n" for m n
    using dec_nat_digits [of n] by (metis list.set_intros(1) not_digit_sep(2))
  then show ?thesis
    by (auto simp: fmt_d_def dec_nat_inject eq_nat_nat_iff dest: sym)
qed

subsection \<open>Fixed-width numerals sort like numbers\<close>

fun fixed_dec :: "nat \<Rightarrow> nat \<Rightarrow> string" where
  "fixed_dec 0 n = []"
| "fixed_dec (Suc w) n = fixed_dec w (n div 10) @ [digit (n mod 10)]"

lemma length_fixed_dec [simp]: "length (fixed_dec w n) = w"
  by (induction w n rule: fixed_dec.induct) auto

lemma digit_0: "digit 0 = CHR ''0''"
  unfolding digit_def by code_simp

lemma fixed_dec_0: "fixed_dec w 0 = replicate w CHR ''0''"
  by (induction w) (auto simp: digit_0 replicate_append_same)

lemma length_dec_nat_le: "n < 10 ^ w \<Longrightarrow> 0 < w \<Longrightarrow> length (dec_nat n) \<le> w"
proof (induction w arbitrary: n)
  case 0
  then show ?case by simp
next
  case (Suc w)
  show ?case
  proof (cases "n < 10")
    case True
    then show ?thesis by (simp add: dec_nat.simps)
  next
    case False
    with Suc.prems have "0 < w" by (cases w) auto
    moreover have "n div 10 < 10 ^ w" using Suc.prems by (simp add: less_mult_imp_div_less)
    ultimately have "length (dec_nat (n div 10)) \<le> w" by (rule Suc.IH [rotated])
    with False show ?thesis by (simp add: dec_nat.simps [of n])
  qed
qed

lemma fmt_0d_Suc:
  assumes "10 \<le> n"
  shows "fmt_0d (Suc w) n = fmt_0d w (n div 10) @ [digit (n mod 10)]"
  using assms by (simp add: fmt_0d_def dec_nat.simps [of n] Let_def)

lemma fmt_0d_fixed: "n < 10 ^ w \<Longrightarrow> 0 < w \<Longrightarrow> fmt_0d w n = fixed_dec w n"
proof (induction w arbitrary: n)
  case 0
  then show ?case by simp
next
  case (Suc w)
  show ?case
  proof (cases "n < 10")
    case True
    then show ?thesis by (simp add: fmt_0d_def dec_nat.simps [of n] fixed_dec_0)
  next
    case False
    with Suc.prems have "0 < w" by (cases w) auto
    moreover have "n div 10 < 10 ^ w" using Suc.prems by (simp add: less_mult_imp_div_less)
    ultimately show ?thesis using Suc.IH False by (simp add: fmt_0d_Suc)
  qed
qed

lemma less_append_same_length:
  fixes xs ys :: string
  assumes "length xs = length ys" "xs < ys"
  shows "xs @ a < ys @ b"
  using assms by (auto simp: list_less_def intro: lexord_sufI)

lemma less_append_left: "(xs :: string) @ a < xs @ b \<longleftrightarrow> a < b"
  by (simp add: list_less_def lexord_same_pref_if_irrefl irrefl_def)

lemma fixed_dec_mono: "m < n \<Longrightarrow> n < 10 ^ w \<Longrightarrow> fixed_dec w m < fixed_dec w n"
proof (induction w arbitrary: m n)
  case 0
  then show ?case by simp
next
  case (Suc w)
  show ?case
  proof (cases "m div 10 = n div 10")
    case True
    then have "m mod 10 < n mod 10"
      using Suc.prems(1) by (metis div_mult_mod_eq nat_add_left_cancel_less)
    with True show ?thesis by (simp add: less_append_left digit_less_iff)
  next
    case False
    then have "m div 10 < n div 10" using Suc.prems(1) by (simp add: div_le_mono le_neq_implies_less)
    moreover have "n div 10 < 10 ^ w" using Suc.prems(2) by (simp add: less_mult_imp_div_less)
    ultimately show ?thesis using Suc.IH by (simp add: less_append_same_length)
  qed
qed

lemma fmt_0d_less_iff:
  assumes "m < 10 ^ w" "n < 10 ^ w" "0 < w"
  shows "fmt_0d w m @ s < fmt_0d w n @ t \<longleftrightarrow> m < n \<or> m = n \<and> s < t"
proof -
  have "fixed_dec w m @ s < fixed_dec w n @ t" if "m < n"
    using that fixed_dec_mono assms less_append_same_length by (metis length_fixed_dec)
  moreover have "\<not> fixed_dec w m @ s < fixed_dec w n @ t" if "n < m"
    using that fixed_dec_mono assms less_append_same_length
    by (metis length_fixed_dec order_less_not_sym)
  ultimately show ?thesis
    using assms by (cases m n rule: linorder_cases) (auto simp: fmt_0d_fixed less_append_left)
qed

end
