(* ===== verification/Frame.thy ===== *)
theory Frame
  imports Go_Fmt
begin

text \<open>
  The wire format of \<^verbatim>\<open>protocol/frame.go\<close>: frames with their 13-byte header and the payload of
  a CONNECT frame. \<open>Frame_Marshal\<close> and \<open>ReadFrame\<close> are shown to be inverse to each other for
  payloads below the 24-bit length field, which gives the frame stream its decoding law
  (the locale \<open>stream_codec\<close>, interpreted on the two functions); \<open>ConnectPayload_Marshal\<close>
  and \<open>ParseConnectPayload\<close> are shown to round-trip on the three address kinds.
\<close>

subsection \<open>Constants and data\<close>

definition Version :: byte where "Version = 1"
definition HeaderSize :: nat where "HeaderSize = 13"

definition TypeConnect :: byte where "TypeConnect = 0x01"
definition TypeConnectACK :: byte where "TypeConnectACK = 0x02"
definition TypeData :: byte where "TypeData = 0x03"
definition TypeClose :: byte where "TypeClose = 0x04"
definition TypeKeepalive :: byte where "TypeKeepalive = 0x05"
definition TypeReset :: byte where "TypeReset = 0x06"

lemmas frame_type_defs =
  TypeConnect_def TypeConnectACK_def TypeData_def TypeClose_def TypeKeepalive_def TypeReset_def

record frame =
  FType :: byte
  ConnID :: "32 word"
  SeqNum :: "32 word"
  Payload :: bytes

record connect_payload =
  AddrType :: byte
  Addr :: bytes
  Port :: "16 word"

datatype frame_error =
    ReadErr io_error
  | UnsupportedVersion byte

datatype connect_error =
    ConnectTooShort
  | IPv4TooShort
  | DomainTooShort
  | IPv6TooShort
  | UnknownAddrType byte

subsection \<open>CONNECT payloads\<close>

definition ConnectPayload_Marshal :: "connect_payload \<Rightarrow> bytes" where
  "ConnectPayload_Marshal cp =
     (if AddrType cp = 0x01 then [AddrType cp] @ copy_to 4 (Addr cp) @ PutUint16 (Port cp)
      else if AddrType cp = 0x03 then
        [AddrType cp, byte_of_int (length (Addr cp))] @ Addr cp @ PutUint16 (Port cp)
      else if AddrType cp = 0x04 then [AddrType cp] @ copy_to 16 (Addr cp) @ PutUint16 (Port cp)
      else [])"

text \<open>\<open>slice lo hi xs\<close> is Go's \<^verbatim>\<open>xs[lo:hi]\<close> for bounds the code has checked.\<close>

definition slice :: "nat \<Rightarrow> nat \<Rightarrow> 'a list \<Rightarrow> 'a list" where
  "slice lo hi xs = take (hi - lo) (drop lo xs)"

definition ParseConnectPayload :: "bytes \<Rightarrow> connect_error + connect_payload" where
  "ParseConnectPayload data =
     (if length data < 1 then Inl ConnectTooShort
      else let t = data ! 0 in
        if t = 0x01 then
          (if length data < 7 then Inl IPv4TooShort
           else Inr \<lparr>AddrType = t, Addr = slice 1 5 data, Port = Uint16 (slice 5 7 data)\<rparr>)
        else if t = 0x03 then
          (if length data < 2 then Inl DomainTooShort
           else let dlen = unat (data ! 1) in
             if length data < 2 + dlen + 2 then Inl DomainTooShort
             else Inr \<lparr>AddrType = t, Addr = slice 2 (2 + dlen) data,
                       Port = Uint16 (slice (2 + dlen) (2 + dlen + 2) data)\<rparr>)
        else if t = 0x04 then
          (if length data < 19 then Inl IPv6TooShort
           else Inr \<lparr>AddrType = t, Addr = slice 1 17 data, Port = Uint16 (slice 17 19 data)\<rparr>)
        else Inl (UnknownAddrType t))"

text \<open>
  \<^verbatim>\<open>ConnectPayload.String\<close>, with \<open>None\<close> where an address that is too short makes it panic. An IPv6
  address is printed as one run of 32 hexadecimal digits in brackets.
\<close>

definition ConnectPayload_String :: "connect_payload \<Rightarrow> string option" where
  "ConnectPayload_String cp =
     (let a = Addr cp; port = fmt_d (int (unat (Port cp))); d = (\<lambda>i. fmt_d (int (unat (a ! i))))
      in if AddrType cp = 0x01 then
           (if length a < 4 then None
            else Some (d 0 @ ''.'' @ d 1 @ ''.'' @ d 2 @ ''.'' @ d 3 @ '':'' @ port))
         else if AddrType cp = 0x03 then Some (string_of_bytes a @ '':'' @ port)
         else if AddrType cp = 0x04 then Some (''['' @ fmt_x a @ '']:'' @ port)
         else Some ''unknown'')"

text \<open>The payloads a SOCKS5 request can produce: an address of the length its kind demands.\<close>

definition wf_connect :: "connect_payload \<Rightarrow> bool" where
  "wf_connect cp \<longleftrightarrow>
     AddrType cp = 0x01 \<and> length (Addr cp) = 4
   \<or> AddrType cp = 0x03 \<and> length (Addr cp) < 256
   \<or> AddrType cp = 0x04 \<and> length (Addr cp) = 16"

subsection \<open>Frames\<close>

definition put_len24 :: "nat \<Rightarrow> bytes" where
  "put_len24 plen =
     [byte_of_int (drop_bit 16 plen), byte_of_int (drop_bit 8 plen), byte_of_int plen]"

definition get_len24 :: "byte \<Rightarrow> byte \<Rightarrow> byte \<Rightarrow> nat" where
  "get_len24 a b c = push_bit 16 (unat a) OR push_bit 8 (unat b) OR unat c"

definition Frame_Marshal :: "frame \<Rightarrow> bytes" where
  "Frame_Marshal f =
     [Version, FType f] @ PutUint32 (ConnID f) @ PutUint32 (SeqNum f)
     @ put_len24 (length (Payload f)) @ Payload f"

definition ReadFrame :: "bytes \<Rightarrow> frame_error + (frame \<times> bytes)" where
  "ReadFrame r =
     (case ReadFull HeaderSize r of
        Inl e \<Rightarrow> Inl (ReadErr e)
      | Inr (hdr, r1) \<Rightarrow>
          if hdr ! 0 \<noteq> Version then Inl (UnsupportedVersion (hdr ! 0))
          else
            let f = \<lparr>FType = hdr ! 1, ConnID = Uint32 (slice 2 6 hdr),
                     SeqNum = Uint32 (slice 6 10 hdr), Payload = []\<rparr>;
                plen = get_len24 (hdr ! 10) (hdr ! 11) (hdr ! 12)
            in if plen > 0 then
                 (case ReadFull plen r1 of
                    Inl e \<Rightarrow> Inl (ReadErr e)
                  | Inr (p, r2) \<Rightarrow> Inr (f\<lparr>Payload := p\<rparr>, r2))
               else Inr (f, r1))"

text \<open>A frame fits when its payload length is representable in the three length bytes.\<close>

definition fits :: "frame \<Rightarrow> bool" where
  "fits f \<longleftrightarrow> length (Payload f) < 2 ^ 24"

subsection \<open>The 24-bit length\<close>

lemma bit_byte_of_int [wire_simps]: "bit (byte_of_int n) k \<longleftrightarrow> k < 8 \<and> bit n k"
  by (simp add: byte_of_int_def bit_simps)

lemma bit_unat_byte [wire_simps]: "bit (unat (b :: byte)) k \<longleftrightarrow> bit b k"
  by (simp add: bit_simps)

lemma bit_get_len24:
  "bit (get_len24 a b c) k \<longleftrightarrow>
     16 \<le> k \<and> bit a (k - 16) \<or> 8 \<le> k \<and> bit b (k - 8) \<or> bit c k"
  by (simp add: get_len24_def bit_or_iff bit_push_bit_iff_nat bit_unat_byte)

lemma get_put_len24: "put_len24 n = [a, b, c] \<Longrightarrow> get_len24 a b c = n mod 2 ^ 24"
proof (rule bit_eqI)
  fix k :: nat
  assume "put_len24 n = [a, b, c]"
  then have abc: "a = byte_of_int (drop_bit 16 n)" "b = byte_of_int (drop_bit 8 n)"
    "c = byte_of_int n"
    by (simp_all add: put_len24_def)
  consider "k < 8" | "8 \<le> k" "k < 16" | "16 \<le> k" "k < 24" | "24 \<le> k" by linarith
  then have "bit (get_len24 a b c) k = bit (take_bit 24 n) k"
    by cases (auto simp: abc bit_get_len24 bit_byte_of_int bit_drop_bit_eq bit_take_bit_iff)
  then show "bit (get_len24 a b c) k = bit (n mod 2 ^ 24) k"
    by (simp only: take_bit_eq_mod)
qed

lemma get_len24_less: "get_len24 a b c < 2 ^ 24"
proof -
  have "take_bit 24 (get_len24 a b c) = get_len24 a b c"
    by (rule bit_eqI) (auto simp: bit_take_bit_iff bit_get_len24 dest: bit_imp_le_length)
  then show ?thesis by (metis take_bit_nat_less_exp)
qed

lemma put_get_len24: "put_len24 (get_len24 a b c) = [a, b, c]"
  by (auto simp: put_len24_def bit_byte_of_int bit_drop_bit_eq bit_get_len24
      intro!: bit_word_eqI)

lemma length_put_len24 [simp, wire_simps]: "length (put_len24 n) = 3"
  by (simp add: put_len24_def)

subsection \<open>Marshalling and reading one frame\<close>

definition frame_header :: "frame \<Rightarrow> bytes" where
  "frame_header f =
     [Version, FType f] @ PutUint32 (ConnID f) @ PutUint32 (SeqNum f)
     @ put_len24 (length (Payload f))"

lemma Frame_Marshal_header: "Frame_Marshal f = frame_header f @ Payload f"
  by (simp add: Frame_Marshal_def frame_header_def)

lemma length_frame_header [simp]: "length (frame_header f) = HeaderSize"
  by (simp add: frame_header_def HeaderSize_def)

lemma length_Frame_Marshal [simp]: "length (Frame_Marshal f) = HeaderSize + length (Payload f)"
  by (simp add: Frame_Marshal_header)

lemma Frame_Marshal_nonempty [simp]: "Frame_Marshal f \<noteq> []"
  by (simp add: Frame_Marshal_def)

lemma PutUint32_nth:
  "PutUint32 w = [PutUint32 w ! 0, PutUint32 w ! 1, PutUint32 w ! 2, PutUint32 w ! 3]"
  by (simp add: PutUint32_def)

lemma header_fields:
  "frame_header f ! 0 = Version"
  "frame_header f ! 1 = FType f"
  "slice 2 6 (frame_header f) = PutUint32 (ConnID f)"
  "slice 6 10 (frame_header f) = PutUint32 (SeqNum f)"
  "get_len24 (frame_header f ! 10) (frame_header f ! 11) (frame_header f ! 12)
     = length (Payload f) mod 2 ^ 24"
proof -
  obtain a b c where l: "put_len24 (length (Payload f)) = [a, b, c]"
    by (simp add: put_len24_def)
  have h: "frame_header f = [Version, FType f, PutUint32 (ConnID f) ! 0,
      PutUint32 (ConnID f) ! 1, PutUint32 (ConnID f) ! 2, PutUint32 (ConnID f) ! 3,
      PutUint32 (SeqNum f) ! 0, PutUint32 (SeqNum f) ! 1, PutUint32 (SeqNum f) ! 2,
      PutUint32 (SeqNum f) ! 3, a, b, c]"
    by (subst frame_header_def, subst (1 2) PutUint32_nth) (simp add: l)
  show "frame_header f ! 0 = Version" "frame_header f ! 1 = FType f"
    "slice 2 6 (frame_header f) = PutUint32 (ConnID f)"
    "slice 6 10 (frame_header f) = PutUint32 (SeqNum f)"
    by (simp_all add: h slice_def PutUint32_def)
  show "get_len24 (frame_header f ! 10) (frame_header f ! 11) (frame_header f ! 12)
     = length (Payload f) mod 2 ^ 24"
    by (simp add: h get_put_len24 [OF l])
qed

lemma ReadFrame_Marshal_append:
  assumes "fits f"
  shows "ReadFrame (Frame_Marshal f @ r) = Inr (f, r)"
proof -
  have len: "length (Payload f) mod 2 ^ 24 = length (Payload f)"
    using assms by (simp add: fits_def)
  have "ReadFull HeaderSize (frame_header f @ Payload f @ r) = Inr (frame_header f, Payload f @ r)"
    by simp
  then show ?thesis
    by (cases "Payload f = []")
       (simp_all add: ReadFrame_def Frame_Marshal_header header_fields [simplified]
          len [simplified] Let_def)
qed

lemma header_of_bytes:
  assumes "length hdr = HeaderSize" "hdr ! 0 = Version"
    and "length p = get_len24 (hdr ! 10) (hdr ! 11) (hdr ! 12)"
  shows "frame_header \<lparr>FType = hdr ! 1, ConnID = Uint32 (slice 2 6 hdr),
           SeqNum = Uint32 (slice 6 10 hdr), Payload = p\<rparr> = hdr"
proof -
  have "hdr = map ((!) hdr) [0..<13]"
    using assms(1) by (metis HeaderSize_def map_nth)
  then obtain h0 h1 h2 h3 h4 h5 h6 h7 h8 h9 h10 h11 h12
    where h: "hdr = [h0, h1, h2, h3, h4, h5, h6, h7, h8, h9, h10, h11, h12]"
    by (simp add: upt_rec)
  show ?thesis
    using assms by (simp add: h frame_header_def slice_def PutUint32_Uint32 put_get_len24)
qed

lemma ReadFrame_InrD:
  assumes "ReadFrame r = Inr (f, r')"
  shows "fits f \<and> r = Frame_Marshal f @ r'"
proof -
  from assms obtain hdr r1 where h: "ReadFull HeaderSize r = Inr (hdr, r1)"
    and v: "hdr ! 0 = Version"
    by (auto simp: ReadFrame_def split: sum.splits if_splits)
  from h have hl: "length hdr = HeaderSize" and r: "r = hdr @ r1"
    by (auto dest: ReadFull_InrD)
  let ?n = "get_len24 (hdr ! 10) (hdr ! 11) (hdr ! 12)"
  let ?f = "\<lambda>p. \<lparr>FType = hdr ! 1, ConnID = Uint32 (slice 2 6 hdr),
                  SeqNum = Uint32 (slice 6 10 hdr), Payload = p\<rparr>"
  have "\<exists>p. length p = ?n \<and> r1 = p @ r' \<and> f = ?f p"
    using assms h v
    by (auto simp: ReadFrame_def Let_def split: sum.splits if_splits dest!: ReadFull_InrD)
  then obtain p where p: "length p = ?n" "r1 = p @ r'" "f = ?f p" by blast
  then show ?thesis
    using header_of_bytes [OF hl v p(1)] get_len24_less [of "hdr ! 10" "hdr ! 11" "hdr ! 12"]
    by (simp add: Frame_Marshal_header r fits_def)
qed

lemma ReadFrame_Inr_iff: "ReadFrame r = Inr (f, r') \<longleftrightarrow> fits f \<and> r = Frame_Marshal f @ r'"
  using ReadFrame_InrD ReadFrame_Marshal_append by blast

subsection \<open>The loop that reads every frame of a batch\<close>

lemma bind_res_cong [fundef_cong]:
  "r = r' \<Longrightarrow> (\<And>x. r' = Inr x \<Longrightarrow> f x = g x) \<Longrightarrow> bind_res r f = bind_res r' g"
  by (cases r') auto

text \<open>
  \<open>ReadFrames\<close> is the loop \<^verbatim>\<open>for reader.Len() > 0\<close> of \<^verbatim>\<open>DecompressBatch\<close>: it stops at the first
  frame that cannot be read and then returns no frame at all.
\<close>

function ReadFrames :: "bytes \<Rightarrow> frame_error + frame list" where
  "ReadFrames r =
     (if r = [] then Inr []
      else bind_res (ReadFrame r)
             (\<lambda>(f, r'). bind_res (ReadFrames r') (\<lambda>fs. Inr (f # fs))))"
  by pat_completeness auto
termination
  by (relation "measure length") (auto simp: HeaderSize_def dest!: ReadFrame_InrD)

declare ReadFrames.simps [simp del]

text \<open>
  The law a self-delimiting encoding obeys, and what the reading loop gets from it: \<open>dec\<close>
  returns a value exactly when the stream starts with that value's encoding.
\<close>

locale stream_codec =
  fixes enc :: "'a \<Rightarrow> bytes"
    and dec :: "bytes \<Rightarrow> 'e + ('a \<times> bytes)"
    and ok :: "'a \<Rightarrow> bool"
    and loop :: "bytes \<Rightarrow> 'e + 'a list"
  assumes dec_iff: "dec r = Inr (x, r') \<longleftrightarrow> ok x \<and> r = enc x @ r'"
    and enc_nonempty: "enc x \<noteq> []"
    and loop_Nil: "loop [] = Inr []"
    and loop_step: "r \<noteq> [] \<Longrightarrow>
      loop r = bind_res (dec r) (\<lambda>(x, r'). bind_res (loop r') (\<lambda>xs. Inr (x # xs)))"
begin

lemma loop_enc: "list_all ok xs \<Longrightarrow> loop (concat (map enc xs)) = Inr xs"
proof (induction xs)
  case Nil
  show ?case by (simp add: loop_Nil)
next
  case (Cons x xs)
  then have "dec (enc x @ concat (map enc xs)) = Inr (x, concat (map enc xs))"
    by (simp add: dec_iff)
  with Cons show ?case by (simp add: loop_step enc_nonempty)
qed

lemma loop_InrD: "loop r = Inr xs \<Longrightarrow> list_all ok xs \<and> r = concat (map enc xs)"
proof (induction "length r" arbitrary: r xs rule: less_induct)
  case less
  show ?case
  proof (cases "r = []")
    case True
    with less.prems show ?thesis by (simp add: loop_Nil)
  next
    case False
    with less.prems obtain x r' ys where d: "dec r = Inr (x, r')" and l: "loop r' = Inr ys"
      and xs: "xs = x # ys"
      by (auto simp: loop_step bind_res_Inr_iff)
    from d have r: "ok x" "r = enc x @ r'" by (simp_all add: dec_iff)
    then have "length r' < length r" using enc_nonempty [of x] by simp
    from less.hyps [OF this l] r show ?thesis by (simp add: xs)
  qed
qed

lemma loop_Inr_iff: "loop r = Inr xs \<longleftrightarrow> list_all ok xs \<and> r = concat (map enc xs)"
  using loop_enc loop_InrD by blast

lemma loop_append: "loop r = Inr xs \<Longrightarrow> loop s = Inr ys \<Longrightarrow> loop (r @ s) = Inr (xs @ ys)"
  by (simp add: loop_Inr_iff)

lemma enc_prefix_free: "ok x \<Longrightarrow> ok y \<Longrightarrow> enc x @ r = enc y @ s \<Longrightarrow> x = y \<and> r = s"
  using dec_iff [of "enc x @ r" x r] dec_iff [of "enc x @ r" y s] by auto

lemma enc_list_prefix:
  "list_all ok ys \<Longrightarrow> list_all ok xs \<Longrightarrow> concat (map enc ys) @ s = concat (map enc xs) \<Longrightarrow>
     \<exists>zs. xs = ys @ zs"
proof (induction ys arbitrary: xs)
  case Nil
  show ?case by simp
next
  case (Cons y ys)
  from Cons.prems(3) obtain x xs' where xs: "xs = x # xs'"
    using enc_nonempty [of y] by (cases xs) auto
  with Cons.prems have "enc y @ concat (map enc ys) @ s = enc x @ concat (map enc xs')" by simp
  then have "y = x" "concat (map enc ys) @ s = concat (map enc xs')"
    using enc_prefix_free Cons.prems(1,2) xs by auto
  with Cons.IH [of xs'] Cons.prems xs show ?case by simp
qed

text \<open>A cut of an encoded sequence decodes exactly when it falls between two elements.\<close>

lemma loop_take_iff:
  assumes "list_all ok xs" "m \<le> length (concat (map enc xs))"
  shows "loop (take m (concat (map enc xs))) = Inr ys \<longleftrightarrow>
    (\<exists>zs. xs = ys @ zs \<and> m = length (concat (map enc ys)))"
proof
  let ?r = "concat (map enc xs)"
  assume "loop (take m ?r) = Inr ys"
  then have ys: "list_all ok ys" "take m ?r = concat (map enc ys)"
    by (simp_all add: loop_Inr_iff)
  from ys(2) have "concat (map enc ys) @ drop m ?r = ?r"
    by (metis append_take_drop_id)
  with enc_list_prefix [OF ys(1) assms(1)] obtain zs where "xs = ys @ zs" by blast
  moreover have "m = length (concat (map enc ys))"
    using assms(2) by (simp flip: ys(2))
  ultimately show "\<exists>zs. xs = ys @ zs \<and> m = length (concat (map enc ys))" by blast
next
  assume "\<exists>zs. xs = ys @ zs \<and> m = length (concat (map enc ys))"
  with assms(1) show "loop (take m (concat (map enc xs))) = Inr ys"
    by (auto simp: loop_Inr_iff)
qed

end

interpretation frames: stream_codec Frame_Marshal ReadFrame fits ReadFrames
proof unfold_locales
  show "ReadFrames [] = Inr []" by (simp add: ReadFrames.simps)
qed (simp_all add: ReadFrame_Inr_iff ReadFrames.simps)

subsection \<open>CONNECT payloads round-trip\<close>

lemma Parse_Marshal_append:
  assumes "wf_connect cp"
  shows "ParseConnectPayload (ConnectPayload_Marshal cp @ rest) = Inr cp"
  using assms unfolding wf_connect_def
proof (elim disjE conjE)
  assume t: "AddrType cp = 0x01" and l: "length (Addr cp) = 4"
  have "drop 4 (Addr cp @ PutUint16 (Port cp) @ rest) = PutUint16 (Port cp) @ rest"
    using l by simp
  with t l show ?thesis
    by (simp add: ParseConnectPayload_def ConnectPayload_Marshal_def slice_def Let_def
        drop_Cons')
next
  assume t: "AddrType cp = 0x03" and l: "length (Addr cp) < 256"
  with l show ?thesis
    by (simp add: ParseConnectPayload_def ConnectPayload_Marshal_def slice_def Let_def)
next
  assume t: "AddrType cp = 0x04" and l: "length (Addr cp) = 16"
  with l show ?thesis
    by (simp add: ParseConnectPayload_def ConnectPayload_Marshal_def slice_def Let_def
        drop_Cons')
qed

lemma length_slice: "hi \<le> length xs \<Longrightarrow> length (slice lo hi xs) = hi - lo"
  by (simp add: slice_def)

lemma drop_slice: "lo \<le> hi \<Longrightarrow> drop lo xs = slice lo hi xs @ drop hi xs"
  by (metis append_take_drop_id drop_drop le_add_diff_inverse2 slice_def)

lemma take_one_nth: "0 < length xs \<Longrightarrow> take 1 xs = [xs ! 0]"
  by (cases xs) simp_all

lemma take_two_nth: "2 \<le> length xs \<Longrightarrow> take 2 xs = [xs ! 0, xs ! 1]"
  by (cases xs; cases "tl xs") (simp_all add: numeral_2_eq_2)

lemma Parse_InrD:
  assumes "ParseConnectPayload data = Inr cp"
  shows "wf_connect cp \<and> (\<exists>rest. data = ConnectPayload_Marshal cp @ rest)"
proof -
  have ne: "0 < length data" using assms by (auto simp: ParseConnectPayload_def split: if_splits)
  consider (v4) "data ! 0 = 0x01" | (dom) "data ! 0 = 0x03" | (v6) "data ! 0 = 0x04"
    using assms unfolding ParseConnectPayload_def Let_def by (auto split: if_split_asm)
  then show ?thesis
  proof cases
    case v4
    with assms ne have l: "7 \<le> length data"
      and cp: "cp = \<lparr>AddrType = 1, Addr = slice 1 5 data, Port = Uint16 (slice 5 7 data)\<rparr>"
      by (auto simp: ParseConnectPayload_def Let_def split: if_splits)
    have "data = [data ! 0] @ slice 1 5 data @ slice 5 7 data @ drop 7 data"
      using take_one_nth [OF ne] drop_slice [of 1 5 data] drop_slice [of 5 7 data]
        append_take_drop_id [of 1 data] by simp
    with v4 l show ?thesis
      by (auto simp: cp wf_connect_def ConnectPayload_Marshal_def length_slice PutUint16_Uint16)
  next
    case dom
    let ?n = "unat (data ! 1)"
    from dom assms ne have l: "2 + ?n + 2 \<le> length data"
      and cp: "cp = \<lparr>AddrType = 3, Addr = slice 2 (2 + ?n) data,
                     Port = Uint16 (slice (2 + ?n) (2 + ?n + 2) data)\<rparr>"
      by (auto simp: ParseConnectPayload_def Let_def split: if_splits)
    have "data = [data ! 0, data ! 1] @ slice 2 (2 + ?n) data
        @ slice (2 + ?n) (2 + ?n + 2) data @ drop (2 + ?n + 2) data"
      using take_two_nth [of data] l drop_slice [of 2 "2 + ?n" data]
        drop_slice [of "2 + ?n" "2 + ?n + 2" data] append_take_drop_id [of 2 data] by simp
    with dom l show ?thesis
      by (auto simp: cp wf_connect_def ConnectPayload_Marshal_def length_slice PutUint16_Uint16)
  next
    case v6
    with assms ne have l: "19 \<le> length data"
      and cp: "cp = \<lparr>AddrType = 4, Addr = slice 1 17 data, Port = Uint16 (slice 17 19 data)\<rparr>"
      by (auto simp: ParseConnectPayload_def Let_def split: if_splits)
    have "data = [data ! 0] @ slice 1 17 data @ slice 17 19 data @ drop 19 data"
      using take_one_nth [OF ne] drop_slice [of 1 17 data] drop_slice [of 17 19 data]
        append_take_drop_id [of 1 data] by simp
    with v6 l show ?thesis
      by (auto simp: cp wf_connect_def ConnectPayload_Marshal_def length_slice PutUint16_Uint16)
  qed
qed

subsection \<open>Properties\<close>

text \<open>
  C19. Reading and writing frames are inverse: \<^verbatim>\<open>ReadFrame\<close> returns a frame and leaves a rest of the
  stream exactly when the stream is that frame's marshalled form followed by the rest and the
  payload fits the 24-bit length field. So every frame below 16 MiB survives the wire, and a
  stream never decodes to a frame other than the one that was written.
\<close>

theorem frame_wire_exact:
  "ReadFrame r = Inr (f, r') \<longleftrightarrow> length (Payload f) < 2 ^ 24 \<and> r = Frame_Marshal f @ r'"
  by (simp add: ReadFrame_Inr_iff fits_def)

text \<open>
  A payload of 16 MiB or more is written with its length reduced modulo 2^24: the reader gets
  a frame with a shortened payload and then takes the remainder of the payload for the next
  frame. (The callers never get there: the relay reads at most 128 KiB.)
\<close>

lemma oversize_frame_truncated:
  "ReadFrame (Frame_Marshal f @ r) =
     Inr (f\<lparr>Payload := take (length (Payload f) mod 2 ^ 24) (Payload f)\<rparr>,
          drop (length (Payload f) mod 2 ^ 24) (Payload f) @ r)"
proof -
  let ?n = "length (Payload f) mod 2 ^ 24"
  let ?g = "f\<lparr>Payload := take ?n (Payload f)\<rparr>"
  have n: "?n \<le> length (Payload f)" by simp
  have "put_len24 ?n = put_len24 (length (Payload f))"
    using get_put_len24 put_get_len24 by (metis put_len24_def)
  then have "frame_header ?g = frame_header f"
    using n by (simp add: frame_header_def)
  then have "Frame_Marshal f @ r = Frame_Marshal ?g @ drop ?n (Payload f) @ r"
    by (simp add: Frame_Marshal_header)
  moreover have "fits ?g" by (simp add: fits_def)
  ultimately show ?thesis by (simp only: ReadFrame_Marshal_append)
qed

text \<open>
  A CONNECT payload parses exactly when the data starts with the marshalled form of a
  well-formed address (4 bytes for IPv4, fewer than 256 for a domain, 16 for IPv6), and it
  parses to that address; everything else is an error.
\<close>

lemma connect_payload_exact:
  "ParseConnectPayload data = Inr cp \<longleftrightarrow>
     wf_connect cp \<and> (\<exists>rest. data = ConnectPayload_Marshal cp @ rest)"
  using Parse_InrD Parse_Marshal_append by auto

end
