(* ===== verification/Mux.thy ===== *)
theory Mux
  imports Frame "HOL-Library.AList"
begin

text \<open>
  \<^verbatim>\<open>tunnel/mux.go\<close>: the connections multiplexed over one link. A \<^verbatim>\<open>Conn\<close> keeps the outgoing
  sequence counter, the reassembly state of the incoming direction (next expected number and
  the out-of-order buffer), the channel the relay reads from and the priority latch. The maps
  of the code are association lists with distinct keys, so that \<^verbatim>\<open>len\<close> and iteration compute.
  The lemmas show that reassembly delivers exactly the contiguous prefix of what has arrived,
  that the sender numbers its frames 0, 1, 2, ..., and what the relay may and may not write.
\<close>

subsection \<open>Connections\<close>

definition maxRecvPending :: nat where "maxRecvPending = 256"
definition dataChCap :: nat where "dataChCap = 512"
definition StreamPriorityBytes :: nat where "StreamPriorityBytes = 512 * 1024"

type_synonym conn_id = "32 word"

record conn =
  ID :: conn_id
  DataCh :: "bytes list"
  closed :: bool
  lastUsed :: time
  sendSeq :: "32 word"
  recvExpected :: "32 word"
  recvPending :: "(32 word \<times> bytes) list"
  prioritySent :: "64 word"
  priorityDemoted :: bool

definition newConn :: "time \<Rightarrow> conn_id \<Rightarrow> conn" where
  "newConn now i =
     \<lparr>ID = i, DataCh = [], closed = False, lastUsed = now, sendSeq = 0, recvExpected = 0,
      recvPending = [], prioritySent = 0, priorityDemoted = False\<rparr>"

definition frameTypeName :: "byte \<Rightarrow> string" where
  "frameTypeName t =
     (if t = TypeClose then ''CLOSE'' else if t = TypeReset then ''RESET'' else ''0x'' @ fmt_x [t])"

definition nextSendSeq :: "conn \<Rightarrow> 32 word \<times> conn" where
  "nextSendSeq c = (let s = sendSeq c + 1 in (s - 1, c\<lparr>sendSeq := s\<rparr>))"

definition classifyDataUrgency :: "conn \<Rightarrow> nat \<Rightarrow> bool \<times> conn" where
  "classifyDataUrgency c n =
     (if priorityDemoted c then (False, c)
      else let newTotal = prioritySent c + of_nat n;
               c' = c\<lparr>prioritySent := newTotal\<rparr>
           in (True, if unat newTotal > StreamPriorityBytes then c'\<lparr>priorityDemoted := True\<rparr> else c'))"

definition MarkUsed :: "time \<Rightarrow> conn \<Rightarrow> conn" where
  "MarkUsed now c = c\<lparr>lastUsed := now\<rparr>"

definition Conn_Close :: "conn \<Rightarrow> conn" where
  "Conn_Close c = (if \<not> closed c then c\<lparr>closed := True\<rparr> else c)"

definition IsClosed :: "conn \<Rightarrow> bool" where
  "IsClosed c \<longleftrightarrow> closed c"

subsection \<open>Ordered delivery\<close>

text \<open>
  The inner loop of \<^verbatim>\<open>deliverOrdered\<close>: take buffered payloads out for as long as the next
  expected number is among them.
\<close>

function drain :: "32 word \<Rightarrow> (32 word \<times> bytes) list \<Rightarrow>
    bytes list \<times> 32 word \<times> (32 word \<times> bytes) list" where
  "drain e p =
     (case map_of p e of
        None \<Rightarrow> ([], e, p)
      | Some d \<Rightarrow> (let (ds, e', p') = drain (e + 1) (AList.delete e p) in (d # ds, e', p')))"
  by pat_completeness auto
termination
proof (relation "measure (\<lambda>(e, p). length p)")
  fix e :: "32 word" and p :: "(32 word \<times> bytes) list" and d
  assume "map_of p e = Some d"
  then have "(e, d) \<in> set p" by (rule map_of_SomeD)
  then show "((e + 1, AList.delete e p), (e, p)) \<in> measure (\<lambda>(e, p). length p)"
    by (auto simp: AList.delete_eq intro: length_filter_less)
qed simp

declare drain.simps [simp del]

text \<open>
  The part of \<^verbatim>\<open>deliverOrdered\<close> under \<^verbatim>\<open>recvMu\<close>: the connection afterwards and the payloads to
  hand to \<^verbatim>\<open>DataCh\<close>, in order.
\<close>

definition deliverOrdered :: "conn \<Rightarrow> 32 word \<Rightarrow> bytes \<Rightarrow> conn \<times> bytes list" where
  "deliverOrdered c seq payload =
     (if seq < recvExpected c then (c, [])
      else if seq \<noteq> recvExpected c then
        (if length (recvPending c) < maxRecvPending
         then c\<lparr>recvPending := AList.update seq payload (recvPending c)\<rparr> else c, [])
      else let (ds, e, p) = drain (recvExpected c + 1) (recvPending c)
           in (c\<lparr>recvExpected := e, recvPending := p\<rparr>, payload # ds))"

text \<open>
  The rest of it hands each payload to the channel in a \<^verbatim>\<open>select\<close> with three branches; which
  branch runs is the scheduler's choice among the ready ones.
\<close>

datatype select_branch = SelSend | SelTimeout | SelClosed

definition select_ready :: "conn \<Rightarrow> select_branch \<Rightarrow> bool" where
  "select_ready c b =
     (case b of
        SelSend \<Rightarrow> length (DataCh c) < dataChCap
      | SelTimeout \<Rightarrow> True
      | SelClosed \<Rightarrow> closed c)"

definition push_select :: "select_branch \<Rightarrow> conn \<Rightarrow> bytes \<Rightarrow> bytes list \<Rightarrow> conn \<times> bytes list" where
  "push_select b c d ds =
     (case b of
        SelSend \<Rightarrow> (c\<lparr>DataCh := DataCh c @ [d]\<rparr>, ds)
      | SelTimeout \<Rightarrow> (Conn_Close c, [])
      | SelClosed \<Rightarrow> (c, []))"

subsection \<open>The multiplexer\<close>

text \<open>
  The callbacks \<^verbatim>\<open>onConnect\<close> and \<^verbatim>\<open>onConnectACK\<close> are nil on the side that does not use them. What
  \<^verbatim>\<open>HandleFrame\<close> makes its caller do is an action; \<open>Push\<close> is the delivery of payloads to the
  channel of a connection.
\<close>

record mux =
  conns :: "(conn_id \<times> conn) list"
  has_onConnect :: bool
  has_onConnectACK :: bool

datatype mux_action =
    NoAction
  | BadConnectPayload connect_error
  | OnConnect conn_id connect_payload
  | OnConnectACK conn_id
  | Push conn_id "bytes list"

definition NewMux :: mux where
  "NewMux = \<lparr>conns = [], has_onConnect = False, has_onConnectACK = False\<rparr>"

definition GetConn :: "mux \<Rightarrow> conn_id \<Rightarrow> conn option" where
  "GetConn m i = map_of (conns m) i"

definition put_conn :: "conn_id \<Rightarrow> conn \<Rightarrow> mux \<Rightarrow> mux" where
  "put_conn i c m = m\<lparr>conns := AList.update i c (conns m)\<rparr>"

text \<open>
  \<^verbatim>\<open>NewConn\<close> draws identifiers until one is free; the draws are an argument, and \<open>None\<close> says
  that none of them was free (the code would go on drawing).
\<close>

fun NewConn :: "time \<Rightarrow> conn_id list \<Rightarrow> mux \<Rightarrow> (conn \<times> mux) option" where
  "NewConn now [] m = None"
| "NewConn now (i # draws) m =
     (if map_of (conns m) i \<noteq> None then NewConn now draws m
      else let c = newConn now i in Some (c, put_conn i c m))"

definition RegisterConn :: "time \<Rightarrow> conn_id \<Rightarrow> mux \<Rightarrow> conn \<times> mux" where
  "RegisterConn now i m = (let c = newConn now i in (c, put_conn i c m))"

text \<open>
  \<^verbatim>\<open>RemoveConn\<close> closes the connection object and forgets it; the second component is the closed
  object, which the relay goroutines still hold.
\<close>

definition RemoveConn :: "conn_id \<Rightarrow> mux \<Rightarrow> mux \<times> conn option" where
  "RemoveConn i m =
     (case map_of (conns m) i of
        None \<Rightarrow> (m, None)
      | Some c \<Rightarrow> (m\<lparr>conns := AList.delete i (conns m)\<rparr>, Some (Conn_Close c)))"

definition HandleFrame :: "time \<Rightarrow> mux \<Rightarrow> frame \<Rightarrow> mux \<times> mux_action" where
  "HandleFrame now m f =
     (if FType f = TypeConnect then
        (if has_onConnect m then
           (case ParseConnectPayload (Payload f) of
              Inl e \<Rightarrow> (m, BadConnectPayload e)
            | Inr cp \<Rightarrow> (m, OnConnect (ConnID f) cp))
         else (m, NoAction))
      else if FType f = TypeConnectACK then
        (if has_onConnectACK m then (m, OnConnectACK (ConnID f)) else (m, NoAction))
      else if FType f = TypeData then
        (case GetConn m (ConnID f) of
           None \<Rightarrow> (m, NoAction)
         | Some c \<Rightarrow>
             (let (c', ds) = deliverOrdered (MarkUsed now c) (SeqNum f) (Payload f)
              in (put_conn (ConnID f) c' m, Push (ConnID f) ds)))
      else if FType f = TypeClose \<or> FType f = TypeReset then
        (case GetConn m (ConnID f) of
           None \<Rightarrow> (m, NoAction)
         | Some c \<Rightarrow> (put_conn (ConnID f) (Conn_Close c) m, NoAction))
      else (m, NoAction))"

subsection \<open>Sending\<close>

text \<open>
  The callback \<^verbatim>\<open>sendFrame\<close> is \<^verbatim>\<open>Batcher.Add\<close>: it takes the state of the batcher, the frame and
  its urgency, and says whether the frame was admitted.
\<close>

type_synonym 'b send_frame = "'b \<Rightarrow> frame \<Rightarrow> bool \<Rightarrow> bool \<times> 'b"

definition SendData :: "'b send_frame \<Rightarrow> mux \<Rightarrow> 'b \<Rightarrow> conn_id \<Rightarrow> bytes \<Rightarrow> bool \<times> mux \<times> 'b" where
  "SendData sendFrame m b i data =
     (let (seq, urgent, m') =
        (case GetConn m i of
           None \<Rightarrow> (0, False, m)
         | Some c \<Rightarrow>
             (let (s, c1) = nextSendSeq c;
                  (u, c2) = classifyDataUrgency c1 (length data)
              in (s, u, put_conn i c2 m)));
          (ok, b') = sendFrame b \<lparr>FType = TypeData, ConnID = i, SeqNum = seq, Payload = data\<rparr> urgent
      in (ok, m', b'))"

definition SendClose :: "'b send_frame \<Rightarrow> 'b \<Rightarrow> conn_id \<Rightarrow> bool \<times> 'b" where
  "SendClose sendFrame b i =
     sendFrame b \<lparr>FType = TypeClose, ConnID = i, SeqNum = 0, Payload = []\<rparr> True"

definition SendReset :: "'b send_frame \<Rightarrow> 'b \<Rightarrow> conn_id \<Rightarrow> bool \<times> 'b" where
  "SendReset sendFrame b i =
     sendFrame b \<lparr>FType = TypeReset, ConnID = i, SeqNum = 0, Payload = []\<rparr> True"

definition idleLimit :: duration where "idleLimit = 5 * Minute"

text \<open>\<open>gc\<close> returns the connections it closed beside the multiplexer that is left.\<close>

definition gc :: "time \<Rightarrow> mux \<Rightarrow> mux \<times> conn list" where
  "gc now m =
     (m\<lparr>conns := filter (\<lambda>(i, c). \<not> now - lastUsed c > idleLimit) (conns m)\<rparr>,
      map (\<lambda>(i, c). Conn_Close c) (filter (\<lambda>(i, c). now - lastUsed c > idleLimit) (conns m)))"

definition CloseAllNotify :: "'b send_frame \<Rightarrow> mux \<Rightarrow> 'b \<Rightarrow> 'b" where
  "CloseAllNotify sendFrame m b = fold (\<lambda>i b. snd (SendClose sendFrame b i)) (map fst (conns m)) b"

text \<open>
  The goroutine of \<^verbatim>\<open>Relay\<close> that reads the local socket, over the results of its reads (bytes
  and whether an error came with them). It ends by taking the connection down.
\<close>

datatype relay_end = RelayBackpressure | RelayReadError | RelayMoreReads

fun relay_up :: "'b send_frame \<Rightarrow> time \<Rightarrow> conn_id \<Rightarrow> (bytes \<times> bool) list \<Rightarrow> mux \<Rightarrow> 'b \<Rightarrow>
    relay_end \<times> mux \<times> 'b" where
  "relay_up sendFrame now i [] m b = (RelayMoreReads, m, b)"
| "relay_up sendFrame now i ((data, err) # reads) m b =
     (let (ok, m1, b1) = (if data \<noteq> [] then SendData sendFrame m b i data else (True, m, b))
      in if \<not> ok then
           (let (_, b2) = SendReset sendFrame b1 i
            in (RelayBackpressure, fst (RemoveConn i m1), b2))
         else
           (let m2 = (if data \<noteq> [] then
                        (case GetConn m1 i of None \<Rightarrow> m1 | Some c \<Rightarrow> put_conn i (MarkUsed now c) m1)
                      else m1)
            in if err then
                 (let (_, b2) = SendClose sendFrame b1 i
                  in (RelayReadError, fst (RemoveConn i m2), b2))
               else relay_up sendFrame now i reads m2 b1))"

subsection \<open>Reassembly delivers the contiguous prefix of what arrived\<close>

text \<open>
  The peer's stream is \<open>s :: nat \<Rightarrow> bytes\<close>, frame number \<open>n\<close> carrying \<open>s n\<close>, for \<open>n\<close> below a bound
  \<open>N\<close> within the 32-bit range. The abstract state of the receiving side is the set of the
  frame numbers it has kept; \<open>in_sync\<close> relates it to the connection: everything below the
  expected number has arrived, the expected one has not, and the buffer holds the rest.
\<close>

definition holds :: "(nat \<Rightarrow> bytes) \<Rightarrow> nat set \<Rightarrow> (32 word \<times> bytes) list \<Rightarrow> bool" where
  "holds s S p \<longleftrightarrow>
     distinct (map fst p) \<and>
     (\<forall>q. map_of p q = (if unat q \<in> S then Some (s (unat q)) else None))"

definition in_sync :: "(nat \<Rightarrow> bytes) \<Rightarrow> nat \<Rightarrow> nat set \<Rightarrow> conn \<Rightarrow> bool" where
  "in_sync s N R c \<longleftrightarrow>
     N < 2 ^ 32 \<and> R \<subseteq> {..<N} \<and> {..<unat (recvExpected c)} \<subseteq> R \<and> unat (recvExpected c) \<notin> R \<and>
     holds s (R - {..<unat (recvExpected c)}) (recvPending c)"

lemma unat_Suc_word32: "unat (e :: 32 word) < N \<Longrightarrow> N < 2 ^ 32 \<Longrightarrow> unat (e + 1) = Suc (unat e)"
  by (simp add: unat_word_ariths)

lemma ivl_head: "(a :: nat) < b \<Longrightarrow> {a..<b} = insert a {Suc a..<b}"
  by auto

lemma cut_below:
  fixes k :: nat
  assumes "k \<notin> R" "Suc k \<le> e"
  shows "R - {..<k} - {Suc k..<e} = insert k R - {..<e}"
proof (rule set_eqI)
  fix x
  show "x \<in> R - {..<k} - {Suc k..<e} \<longleftrightarrow> x \<in> insert k R - {..<e}"
    using assms by (cases x k rule: linorder_cases) auto
qed

lemma holds_delete: "holds s S p \<Longrightarrow> holds s (S - {unat e}) (AList.delete e p)"
  by (auto simp: holds_def distinct_delete delete_conv' dest: word_unat_eq_iff [THEN iffD2])

lemma holds_update:
  "holds s S p \<Longrightarrow> d = s (unat q) \<Longrightarrow> holds s (insert (unat q) S) (AList.update q d p)"
  by (auto simp: holds_def distinct_update update_conv' dest: word_unat_eq_iff [THEN iffD2])

lemma drain_holds:
  assumes "holds s S p" "S \<subseteq> {..<N}" "N < 2 ^ 32"
  shows "\<exists>e' p'. drain e p = (map s [unat e..<unat e'], e', p') \<and> unat e \<le> unat e' \<and>
    {unat e..<unat e'} \<subseteq> S \<and> unat e' \<notin> S \<and> holds s (S - {unat e..<unat e'}) p'"
  using assms
proof (induction e p arbitrary: S rule: drain.induct)
  case (1 e p)
  show ?case
  proof (cases "unat e \<in> S")
    case False
    then have "map_of p e = None" using "1.prems"(1) by (simp add: holds_def)
    with False "1.prems"(1) show ?thesis by (auto simp: drain.simps [of e p])
  next
    case True
    then have m: "map_of p e = Some (s (unat e))" using "1.prems"(1) by (simp add: holds_def)
    have Suc_e: "unat (e + 1) = Suc (unat e)"
      using True "1.prems"(2,3) by (intro unat_Suc_word32) auto
    have "S - {unat e} \<subseteq> {..<N}" using "1.prems"(2) by auto
    from "1.IH" [OF m holds_delete [OF "1.prems"(1)] this "1.prems"(3)]
    obtain e' p' where d: "drain (e + 1) (AList.delete e p) = (map s [Suc (unat e)..<unat e'], e', p')"
      and le: "Suc (unat e) \<le> unat e'" and sub: "{Suc (unat e)..<unat e'} \<subseteq> S - {unat e}"
      and gap: "unat e' \<notin> S - {unat e}"
      and h: "holds s (S - {unat e} - {Suc (unat e)..<unat e'}) p'"
      unfolding Suc_e by blast
    have cut: "S - {unat e} - {Suc (unat e)..<unat e'} = S - {unat e..<unat e'}"
      using le by auto
    have "drain e p = (map s [unat e..<unat e'], e', p')"
      using le by (simp add: drain.simps [of e p] m d upt_conv_Cons)
    moreover have "{unat e..<unat e'} \<subseteq> S"
      using sub True le by (subst ivl_head) auto
    moreover have "unat e' \<notin> S" using gap le by auto
    ultimately show ?thesis using le h cut by auto
  qed
qed

lemma deliver_kept:
  assumes sync: "in_sync s N R c" and n: "n < N"
    and room: "n \<le> unat (recvExpected c) \<or> length (recvPending c) < maxRecvPending"
    and d: "deliverOrdered c (of_nat n) (s n) = (c', ds)"
  shows "in_sync s N (insert n R) c' \<and> unat (recvExpected c) \<le> unat (recvExpected c') \<and>
    ds = map s [unat (recvExpected c)..<unat (recvExpected c')]"
proof -
  let ?k = "unat (recvExpected c)"
  have N: "N < 2 ^ 32" and R: "R \<subseteq> {..<N}" and below: "{..<?k} \<subseteq> R" and kR: "?k \<notin> R"
    and h: "holds s (R - {..<?k}) (recvPending c)"
    using sync by (auto simp: in_sync_def)
  have un: "unat (of_nat n :: 32 word) = n" using n N by (simp add: unat_of_nat)
  consider "n < ?k" | "?k < n" | "n = ?k" by linarith
  then show ?thesis
  proof cases
    case 1
    then have "deliverOrdered c (of_nat n) (s n) = (c, [])"
      by (simp add: deliverOrdered_def word_less_nat_alt un)
    moreover have "insert n R = R" using 1 below by auto
    ultimately show ?thesis using d sync by simp
  next
    case 2
    then have ne: "\<not> of_nat n < recvExpected c" "of_nat n \<noteq> recvExpected c"
      using un by (auto simp: word_less_nat_alt)
    have c': "c' = c\<lparr>recvPending := AList.update (of_nat n) (s n) (recvPending c)\<rparr>" and "ds = []"
      using d ne room 2 by (auto simp: deliverOrdered_def)
    moreover have "insert n R - {..<?k} = insert n (R - {..<?k})" using 2 by auto
    ultimately show ?thesis
      using holds_update [OF h, of "s n" "of_nat n"] N R below kR n 2 un
      by (simp add: in_sync_def subset_insertI2)
  next
    case 3
    then have eq: "of_nat n = recvExpected c" using un by (metis unat_eq_nat_uint word_unat_eq_iff)
    have Suc_k: "unat (recvExpected c + 1) = Suc ?k"
      using n N 3 by (intro unat_Suc_word32) auto
    have "R - {..<?k} \<subseteq> {..<N}" using R by auto
    from drain_holds [OF h this N, of "recvExpected c + 1"]
    obtain e p where dr: "drain (recvExpected c + 1) (recvPending c) = (map s [Suc ?k..<unat e], e, p)"
      and le: "Suc ?k \<le> unat e" and sub: "{Suc ?k..<unat e} \<subseteq> R - {..<?k}"
      and gap: "unat e \<notin> R - {..<?k}" and hp: "holds s (R - {..<?k} - {Suc ?k..<unat e}) p"
      unfolding Suc_k by blast
    have c': "c' = c\<lparr>recvExpected := e, recvPending := p\<rparr>" and ds: "ds = s n # map s [Suc ?k..<unat e]"
      using d by (auto simp: deliverOrdered_def eq dr)
    have "R - {..<?k} - {Suc ?k..<unat e} = insert n R - {..<unat e}"
      using cut_below [OF kR le] 3 by simp
    moreover have "{..<unat e} \<subseteq> insert n R"
    proof
      fix i assume "i \<in> {..<unat e}"
      then show "i \<in> insert n R" using below sub 3
        by (cases i ?k rule: linorder_cases) (auto simp: subset_iff)
    qed
    moreover have "unat e \<notin> insert n R" using gap le 3 by auto
    ultimately have "in_sync s N (insert n R) c'"
      using hp N R n by (simp add: in_sync_def c')
    moreover have "ds = map s [?k..<unat e]" using le 3 by (simp add: ds upt_rec [of ?k])
    ultimately show ?thesis using le by (simp add: c')
  qed
qed

lemma deliver_dropped:
  assumes "in_sync s N R c" "n < N"
    and "\<not> (n \<le> unat (recvExpected c) \<or> length (recvPending c) < maxRecvPending)"
  shows "deliverOrdered c (of_nat n) (s n) = (c, [])"
proof -
  have "unat (of_nat n :: 32 word) = n"
    using assms by (simp add: in_sync_def unat_of_nat)
  with assms(3) show ?thesis by (auto simp: deliverOrdered_def word_less_nat_alt)
qed

lemma deliver_safe:
  assumes "in_sync s N R c" "n < N" "deliverOrdered c (of_nat n) (s n) = (c', ds)"
  shows "\<exists>R'. (R' = R \<or> R' = insert n R) \<and> in_sync s N R' c' \<and>
    unat (recvExpected c) \<le> unat (recvExpected c') \<and>
    ds = map s [unat (recvExpected c)..<unat (recvExpected c')]"
  using deliver_kept [OF assms(1,2) _ assms(3)] deliver_dropped [OF assms(1,2)] assms
  by (cases "n \<le> unat (recvExpected c) \<or> length (recvPending c) < maxRecvPending") auto

text \<open>Frames handled one after the other, with what they delivered.\<close>

fun recv_run :: "conn \<Rightarrow> (32 word \<times> bytes) list \<Rightarrow> conn \<times> bytes list" where
  "recv_run c [] = (c, [])"
| "recv_run c ((q, d) # fs) =
     (let (c1, ds) = deliverOrdered c q d; (c2, ds') = recv_run c1 fs in (c2, ds @ ds'))"

definition frames_of :: "(nat \<Rightarrow> bytes) \<Rightarrow> nat list \<Rightarrow> (32 word \<times> bytes) list" where
  "frames_of s is = map (\<lambda>n. (of_nat n, s n)) is"

text \<open>The first frame number that has not arrived.\<close>

definition first_missing :: "nat set \<Rightarrow> nat" where
  "first_missing R = (LEAST n. n \<notin> R)"

text \<open>No frame overtakes the first missing one by more than the size of the buffer.\<close>

fun within_window :: "nat set \<Rightarrow> nat list \<Rightarrow> bool" where
  "within_window R [] = True"
| "within_window R (n # ns) = (n \<le> first_missing R + maxRecvPending \<and> within_window (insert n R) ns)"

lemma in_sync_expected: "in_sync s N R c \<Longrightarrow> unat (recvExpected c) = first_missing R"
  unfolding first_missing_def by (rule Least_equality [symmetric]) (auto simp: in_sync_def not_le)

lemma in_sync_new: "N < 2 ^ 32 \<Longrightarrow> in_sync s N {} (newConn now i)"
  by (simp add: in_sync_def holds_def newConn_def)

lemma upt_split: "(a :: nat) \<le> b \<Longrightarrow> b \<le> c \<Longrightarrow> [a..<b] @ [b..<c] = [a..<c]"
  by (metis le_Suc_ex upt_add_eq_append)

lemma recv_run_prefix:
  assumes "in_sync s N R c" "\<forall>n \<in> set ns. n < N" "recv_run c (frames_of s ns) = (c', out)"
  shows "\<exists>R'. R' \<subseteq> R \<union> set ns \<and> in_sync s N R' c' \<and>
    unat (recvExpected c) \<le> unat (recvExpected c') \<and>
    out = map s [unat (recvExpected c)..<unat (recvExpected c')]"
  using assms
proof (induction ns arbitrary: c R out)
  case Nil
  then show ?case by (auto simp: frames_of_def)
next
  case (Cons n ns)
  obtain c1 ds where d: "deliverOrdered c (of_nat n) (s n) = (c1, ds)" by fastforce
  obtain ds' where r: "recv_run c1 (frames_of s ns) = (c', ds')" and out: "out = ds @ ds'"
    using Cons.prems(3) d by (auto simp: frames_of_def split: prod.splits)
  obtain R1 where R1: "R1 = R \<or> R1 = insert n R" "in_sync s N R1 c1"
    and le1: "unat (recvExpected c) \<le> unat (recvExpected c1)"
    and ds: "ds = map s [unat (recvExpected c)..<unat (recvExpected c1)]"
    using deliver_safe [OF Cons.prems(1) _ d] Cons.prems(2) by auto
  obtain R2 where R2: "R2 \<subseteq> R1 \<union> set ns" "in_sync s N R2 c'"
    and le2: "unat (recvExpected c1) \<le> unat (recvExpected c')"
    and ds': "ds' = map s [unat (recvExpected c1)..<unat (recvExpected c')]"
    using Cons.IH [OF R1(2) _ r] Cons.prems(2) by auto
  have "out = map s [unat (recvExpected c)..<unat (recvExpected c')]"
    by (simp add: out ds ds' upt_split [OF le1 le2] flip: map_append)
  then show ?case using R1(1) R2 le1 le2 by (intro exI [of _ R2]) auto
qed

lemma pending_full:
  assumes "in_sync s N R c" "R \<subseteq> {..first_missing R + maxRecvPending}"
    and "maxRecvPending \<le> length (recvPending c)"
  shows "{first_missing R<..first_missing R + maxRecvPending} \<subseteq> R"
proof -
  let ?k = "unat (recvExpected c)"
  let ?S = "R - {..<?k}"
  have k: "first_missing R = ?k" using in_sync_expected [OF assms(1)] by simp
  have h: "holds s ?S (recvPending c)" and N: "N < 2 ^ 32" "R \<subseteq> {..<N}" and kR: "?k \<notin> R"
    using assms(1) by (auto simp: in_sync_def)
  have "fst ` set (recvPending c) = dom (map_of (recvPending c))"
    by (simp add: dom_map_of_conv_image_fst)
  then have "unat ` fst ` set (recvPending c) \<subseteq> ?S"
    using h by (auto simp: holds_def split: if_splits)
  moreover have "finite ?S" using N by (meson finite_Diff finite_lessThan finite_subset)
  ultimately have "card (unat ` fst ` set (recvPending c)) \<le> card ?S" by (rule card_mono [rotated])
  moreover have "card (unat ` fst ` set (recvPending c)) = length (recvPending c)"
  proof -
    have "card (unat ` fst ` set (recvPending c)) = card (set (map fst (recvPending c)))"
      by (subst card_image) (auto intro!: inj_onI simp: word_unat_eq_iff)
    also have "\<dots> = length (recvPending c)" using h distinct_card by (fastforce simp: holds_def)
    finally show ?thesis .
  qed
  moreover have sub: "?S \<subseteq> {?k<..?k + maxRecvPending}"
    using assms(2) kR by (auto simp: k not_less intro: le_neq_implies_less)
  ultimately have "?S = {?k<..?k + maxRecvPending}"
    using assms(3) by (intro card_subset_eq) (auto dest: card_mono [rotated])
  then show ?thesis using k by auto
qed

lemma first_missing_mono: "R \<subseteq> R' \<Longrightarrow> finite R' \<Longrightarrow> first_missing R \<le> first_missing R'"
proof -
  assume "R \<subseteq> R'" "finite R'"
  then obtain n where "n \<notin> R'" by (meson ex_new_if_finite infinite_UNIV_nat)
  then have "first_missing R' \<notin> R'" unfolding first_missing_def by (rule LeastI)
  with \<open>R \<subseteq> R'\<close> show ?thesis unfolding first_missing_def [of R] by (intro Least_le) auto
qed

lemma recv_run_window:
  assumes "in_sync s N R c" "\<forall>n \<in> set ns. n < N" "within_window R ns"
    and "R \<subseteq> {..first_missing R + maxRecvPending}"
    and "recv_run c (frames_of s ns) = (c', out)"
  shows "in_sync s N (R \<union> set ns) c' \<and> out = map s [first_missing R..<first_missing (R \<union> set ns)]"
  using assms
proof (induction ns arbitrary: c R out)
  case Nil
  then show ?case by (simp add: frames_of_def)
next
  case (Cons n ns)
  obtain c1 ds where d: "deliverOrdered c (of_nat n) (s n) = (c1, ds)" by fastforce
  obtain ds' where r: "recv_run c1 (frames_of s ns) = (c', ds')" and out: "out = ds @ ds'"
    using Cons.prems(5) d by (auto simp: frames_of_def split: prod.splits)
  let ?R1 = "insert n R"
  note k = in_sync_expected [OF Cons.prems(1)]
  have n: "n < N" "n \<le> first_missing R + maxRecvPending" using Cons.prems(2,3) by auto
  have fin: "finite (R \<union> set (n # ns))" using Cons.prems(1)
    by (auto simp: in_sync_def intro: finite_subset)
  have step: "in_sync s N ?R1 c1 \<and> ds = map s [first_missing R..<first_missing ?R1]"
  proof (cases "n \<le> unat (recvExpected c) \<or> length (recvPending c) < maxRecvPending")
    case True
    from deliver_kept [OF Cons.prems(1) n(1) True d] show ?thesis
      using k by (metis in_sync_expected)
  next
    case False
    with pending_full [OF Cons.prems(1,4)] n(2) k have "?R1 = R" by auto
    with deliver_dropped [OF Cons.prems(1) n(1) False] d Cons.prems(1) show ?thesis by simp
  qed
  have le1: "first_missing R \<le> first_missing ?R1"
    using fin by (intro first_missing_mono) auto
  have "?R1 \<subseteq> {..first_missing ?R1 + maxRecvPending}"
    using Cons.prems(4) n(2) le1 by auto
  with Cons.IH [of ?R1 c1 ds'] step r Cons.prems(2,3)
  have rest: "in_sync s N (?R1 \<union> set ns) c' \<and>
      ds' = map s [first_missing ?R1..<first_missing (?R1 \<union> set ns)]"
    by simp
  have "first_missing ?R1 \<le> first_missing (?R1 \<union> set ns)"
    using fin by (intro first_missing_mono) auto
  with step rest le1 show ?case by (simp add: out upt_split flip: map_append)
qed

subsection \<open>Well-formed multiplexers\<close>

text \<open>
  Identifiers are unique, every connection is stored under its own identifier, and no
  out-of-order buffer exceeds its bound or holds a number twice.
\<close>

definition conn_wf :: "conn \<Rightarrow> bool" where
  "conn_wf c \<longleftrightarrow> distinct (map fst (recvPending c)) \<and> length (recvPending c) \<le> maxRecvPending"

definition mux_wf :: "mux \<Rightarrow> bool" where
  "mux_wf m \<longleftrightarrow> distinct (map fst (conns m)) \<and> (\<forall>(i, c) \<in> set (conns m). ID c = i \<and> conn_wf c)"

lemma length_update_le: "length (AList.update k v al) \<le> Suc (length al)"
  by (induction al) auto

lemma set_update_subset: "set (AList.update k v al) \<subseteq> insert (k, v) (set al)"
  by (induction al) auto

lemma length_delete_le: "length (AList.delete k al) \<le> length al"
  by (simp add: AList.delete_eq)

lemma drain_wf:
  "drain e p = (ds, e', p') \<Longrightarrow> distinct (map fst p) \<Longrightarrow>
     distinct (map fst p') \<and> length p' \<le> length p"
proof (induction e p arbitrary: ds rule: drain.induct)
  case (1 e p)
  show ?case
  proof (cases "map_of p e")
    case None
    with "1.prems" show ?thesis by (simp add: drain.simps [of e p])
  next
    case (Some d)
    with "1.prems"(1) obtain ds1 where "drain (e + 1) (AList.delete e p) = (ds1, e', p')"
      by (auto simp: drain.simps [of e p] split: prod.splits)
    from "1.IH" [OF Some this] "1.prems"(2) length_delete_le [of e p] show ?thesis
      by (simp add: distinct_delete)
  qed
qed

lemma deliverOrdered_wf:
  assumes "conn_wf c" "deliverOrdered c q d = (c', ds)"
  shows "conn_wf c' \<and> ID c' = ID c"
proof -
  obtain ds1 e p where dr: "drain (recvExpected c + 1) (recvPending c) = (ds1, e, p)"
    by (metis prod_cases3)
  have "distinct (map fst p) \<and> length p \<le> length (recvPending c)"
    using drain_wf [OF dr] assms(1) by (simp add: conn_wf_def)
  moreover have "length (AList.update q d (recvPending c)) \<le> Suc (length (recvPending c))"
    by (rule length_update_le)
  ultimately show ?thesis
    using assms by (auto simp: deliverOrdered_def conn_wf_def dr distinct_update split: if_splits)
qed

lemma conn_wf_simps [simp]:
  "conn_wf (newConn now i)" "conn_wf (Conn_Close c) = conn_wf c" "conn_wf (MarkUsed now c) = conn_wf c"
  "ID (Conn_Close c) = ID c" "ID (MarkUsed now c) = ID c" "ID (newConn now i) = i"
  by (simp_all add: conn_wf_def newConn_def Conn_Close_def MarkUsed_def)

lemma mux_wf_put: "mux_wf m \<Longrightarrow> conn_wf c \<Longrightarrow> ID c = i \<Longrightarrow> mux_wf (put_conn i c m)"
  using set_update_subset [of i c "conns m"]
  by (auto simp: mux_wf_def put_conn_def distinct_update dest!: subsetD)

lemma mux_wf_get: "mux_wf m \<Longrightarrow> GetConn m i = Some c \<Longrightarrow> conn_wf c \<and> ID c = i"
  by (auto simp: mux_wf_def GetConn_def dest!: map_of_SomeD)

lemma HandleFrame_wf:
  assumes "mux_wf m"
  shows "mux_wf (fst (HandleFrame now m f))"
proof -
  have data: "mux_wf (put_conn (ConnID f) c' m)"
    if "GetConn m (ConnID f) = Some c" "deliverOrdered (MarkUsed now c) q d = (c', ds)" for c c' q d ds
    using that mux_wf_get [OF assms that(1)] deliverOrdered_wf [OF _ that(2)]
    by (intro mux_wf_put [OF assms]) auto
  have close: "mux_wf (put_conn (ConnID f) (Conn_Close c) m)" if "GetConn m (ConnID f) = Some c" for c
    using mux_wf_get [OF assms that] by (intro mux_wf_put [OF assms]) auto
  show ?thesis
    using assms data close by (auto simp: HandleFrame_def split: option.splits sum.splits prod.splits)
qed

lemma RegisterConn_wf: "mux_wf m \<Longrightarrow> mux_wf (snd (RegisterConn now i m))"
  by (simp add: RegisterConn_def Let_def mux_wf_put)

lemma NewConn_wf: "mux_wf m \<Longrightarrow> NewConn now draws m = Some (c, m') \<Longrightarrow> mux_wf m'"
  by (induction now draws m rule: NewConn.induct) (auto simp: Let_def mux_wf_put split: if_splits)

lemma RemoveConn_wf: "mux_wf m \<Longrightarrow> mux_wf (fst (RemoveConn i m))"
  by (auto simp: mux_wf_def RemoveConn_def AList.delete_eq distinct_map_filter split: option.splits)

lemma gc_wf: "mux_wf m \<Longrightarrow> mux_wf (fst (gc now m))"
  by (auto simp: mux_wf_def gc_def distinct_map_filter)

lemma SendData_wf: "mux_wf m \<Longrightarrow> mux_wf (fst (snd (SendData sf m b i data)))"
  using mux_wf_get [of m i]
  by (auto simp: SendData_def nextSendSeq_def classifyDataUrgency_def Let_def conn_wf_def
      split: option.splits prod.splits intro!: mux_wf_put)

subsection \<open>Frame conditions of the operations\<close>

lemma GetConn_put [simp]: "GetConn (put_conn i c m) j = (if i = j then Some c else GetConn m j)"
  by (auto simp: GetConn_def put_conn_def update_conv')

lemma HandleFrame_other:
  "j \<noteq> ConnID f \<Longrightarrow> GetConn (fst (HandleFrame now m f)) j = GetConn m j"
  by (auto simp: HandleFrame_def split: option.splits sum.splits prod.splits)

lemma GetConn_Remove [simp]:
  "mux_wf m \<Longrightarrow> GetConn (fst (RemoveConn i m)) j = (if i = j then None else GetConn m j)"
  by (auto simp: GetConn_def RemoveConn_def delete_conv' split: option.splits)

subsection \<open>The sending side numbers its frames\<close>

lemma SendData_frame:
  assumes "GetConn m i = Some c"
  shows "\<exists>u c'. sendSeq c' = sendSeq c + 1 \<and> recvExpected c' = recvExpected c \<and> recvPending c' = recvPending c \<and> SendData sf m b i data =
      (case sf b \<lparr>FType = TypeData, ConnID = i, SeqNum = sendSeq c, Payload = data\<rparr> u of
         (ok, b') \<Rightarrow> (ok, put_conn i c' m, b'))"
proof -
  obtain u c' where cl: "classifyDataUrgency (c\<lparr>sendSeq := sendSeq c + 1\<rparr>) (length data) = (u, c')"
    by fastforce
  then have "sendSeq c' = sendSeq c + 1 \<and> recvExpected c' = recvExpected c \<and> recvPending c' = recvPending c"
    by (auto simp: classifyDataUrgency_def Let_def split: if_splits)
  with cl assms show ?thesis by (auto simp: SendData_def nextSendSeq_def Let_def)
qed

text \<open>Payloads sent one after the other, with the frames that left.\<close>

fun send_all :: "mux \<Rightarrow> conn_id \<Rightarrow> bytes list \<Rightarrow> mux \<times> frame list" where
  "send_all m i [] = (m, [])"
| "send_all m i (d # ds) =
     (let (ok, m1, fs) = SendData (\<lambda>fs f u. (True, fs @ [f])) m [] i d;
          (m2, fs') = send_all m1 i ds
      in (m2, fs @ fs'))"

definition data_frame :: "conn_id \<Rightarrow> nat \<Rightarrow> bytes \<Rightarrow> frame" where
  "data_frame i n d = \<lparr>FType = TypeData, ConnID = i, SeqNum = of_nat n, Payload = d\<rparr>"

lemma send_all_enumerate:
  assumes "GetConn m i = Some c" "sendSeq c = of_nat k"
  shows "snd (send_all m i ds) = map (\<lambda>(n, d). data_frame i n d) (List.enumerate k ds)"
  using assms
proof (induction ds arbitrary: m c k)
  case Nil
  then show ?case by simp
next
  case (Cons d ds)
  let ?sf = "\<lambda>fs f (u :: bool). (True, fs @ [f])"
  obtain c' where sd: "SendData ?sf m [] i d = (True, put_conn i c' m, [data_frame i k d])"
    and c': "sendSeq c' = of_nat (Suc k)"
    using SendData_frame [OF Cons.prems(1), of ?sf "[]" d] Cons.prems(2)
    by (auto simp: data_frame_def add.commute)
  have "snd (send_all (put_conn i c' m) i ds)
      = map (\<lambda>(n, d). data_frame i n d) (List.enumerate (Suc k) ds)"
    by (rule Cons.IH) (use c' in simp_all)
  then show ?case by (auto simp: sd split: prod.splits)
qed

lemma send_all_frames:
  assumes "GetConn m i = Some c" "sendSeq c = 0"
  shows "snd (send_all m i ds) = map (\<lambda>n. data_frame i n (ds ! n)) [0..<length ds]"
  using send_all_enumerate [of m i c 0 ds] assms
  by (auto simp: enumerate_eq_zip nth_equalityI intro!: nth_equalityI)

subsection \<open>The priority latch\<close>

lemma classify_latched:
  "priorityDemoted c \<Longrightarrow> classifyDataUrgency c n = (False, c)"
  by (simp add: classifyDataUrgency_def)

text \<open>The sizes of a stream's frames, with the urgency each is given.\<close>

fun classify_run :: "conn \<Rightarrow> nat list \<Rightarrow> bool list" where
  "classify_run c [] = []"
| "classify_run c (n # ns) = (let (u, c') = classifyDataUrgency c n in u # classify_run c' ns)"

lemma classify_run_demoted: "priorityDemoted c \<Longrightarrow> classify_run c ns = replicate (length ns) False"
  by (induction ns) (simp_all add: classify_latched)

lemma classify_run_sum:
  assumes "\<not> priorityDemoted c" "unat (prioritySent c) + sum_list ns < 2 ^ 64"
    and "unat (prioritySent c) \<le> StreamPriorityBytes" "j < length ns"
  shows "classify_run c ns ! j \<longleftrightarrow> unat (prioritySent c) + sum_list (take j ns) \<le> StreamPriorityBytes"
  using assms
proof (induction ns arbitrary: c j)
  case Nil
  then show ?case by simp
next
  case (Cons n ns)
  let ?t = "prioritySent c + of_nat n"
  have t: "unat ?t = unat (prioritySent c) + n"
    using Cons.prems(2) by (simp add: unat_word_ariths unat_of_nat)
  show ?case
  proof (cases j)
    case 0
    with Cons.prems show ?thesis by (simp add: classifyDataUrgency_def Let_def)
  next
    case (Suc k)
    show ?thesis
    proof (cases "unat ?t > StreamPriorityBytes")
      case True
      with Cons.prems Suc t show ?thesis
        by (simp add: classifyDataUrgency_def Let_def classify_run_demoted)
    next
      case False
      with Cons.IH [of "c\<lparr>prioritySent := ?t\<rparr>" k] Cons.prems Suc t show ?thesis
        by (simp add: classifyDataUrgency_def Let_def add.assoc)
    qed
  qed
qed

subsection \<open>Properties\<close>

lemma first_missing_eq: "n \<notin> R \<Longrightarrow> {..<n} \<subseteq> R \<Longrightarrow> first_missing R = n"
  unfolding first_missing_def by (rule Least_equality) (auto simp: not_le)

lemma first_missing_examples:
  "first_missing {} = 0" "first_missing {1} = 0" "first_missing {0, 1} = 2"
  "first_missing {0, 1, 2} = 3"
  by (rule first_missing_eq; auto)+

text \<open>
  Whatever the order and the multiplicity in which the data frames of a stream arrive, the
  receiving connection hands on a prefix of the stream, made of frames that did arrive.
\<close>

lemma reassembly_prefix:
  assumes "N < 2 ^ 32" "\<forall>n \<in> set ns. n < N"
    and "recv_run (newConn now i) (frames_of s ns) = (c, out)"
  shows "\<exists>k. out = map s [0..<k] \<and> {..<k} \<subseteq> set ns"
proof -
  have "in_sync s N {} (newConn now i)" using assms(1) by (rule in_sync_new)
  from recv_run_prefix [OF this assms(2,3)] obtain R where "R \<subseteq> set ns" "in_sync s N R c"
    and "out = map s [0..<unat (recvExpected c)]"
    by (auto simp: newConn_def)
  then show ?thesis by (auto simp: in_sync_def)
qed

text \<open>
  C14. If no frame overtakes the first missing one by more than the 256 places of the buffer,
  nothing is lost: the receiver has handed on exactly the frames up to the first number that
  has not arrived. (Beyond the window a frame is dropped and never asked for again.)
\<close>

theorem reassembly_exact:
  assumes "N < 2 ^ 32" "\<forall>n \<in> set ns. n < N" "within_window {} ns"
  shows "snd (recv_run (newConn now i) (frames_of s ns)) = map s [0..<first_missing (set ns)]"
proof -
  obtain c out where r: "recv_run (newConn now i) (frames_of s ns) = (c, out)" by fastforce
  have "in_sync s N {} (newConn now i)" using assms(1) by (rule in_sync_new)
  from recv_run_window [OF this assms(2,3) _ r] show ?thesis
    by (simp add: r first_missing_examples)
qed

theorem reassembly_exact_witness:
  "snd (recv_run (newConn 0 7) (frames_of (\<lambda>n. [of_nat n]) [1, 0, 2, 1])) = [[0], [1], [2]]"
proof -
  have "set [1, 0, 2, 1] = {0, 1, 2 :: nat}" by auto
  moreover have "insert 2 {0, 1} = {0, 1, 2 :: nat}" by auto
  ultimately show ?thesis
    using reassembly_exact [of 3 "[1, 0, 2, 1]" 0 7 "\<lambda>n. [of_nat n]"]
    by (simp add: first_missing_examples first_missing_examples [simplified] maxRecvPending_def
        insert_commute upt_rec)
qed

text \<open>
  C7. End to end over one connection: payloads sent with \<^verbatim>\<open>SendData\<close> on a fresh connection, their
  frames arriving in any order and any number of times within the window, come out of the
  receiving connection as the payloads that went in, in order and once each.
\<close>

theorem stream_roundtrip:
  assumes "GetConn m i = Some c" "sendSeq c = 0" "length ds < 2 ^ 32"
    and "set ns = {..<length ds}" "within_window {} ns"
    and "fs = map (\<lambda>n. snd (send_all m i ds) ! n) ns"
  shows "snd (recv_run (newConn now i) (map (\<lambda>f. (SeqNum f, Payload f)) fs)) = ds"
proof -
  have "map (\<lambda>f. (SeqNum f, Payload f)) fs = frames_of (\<lambda>n. ds ! n) ns"
    using assms(4) send_all_frames [OF assms(1,2), of ds]
    by (auto simp: assms(6) frames_of_def data_frame_def)
  moreover have "first_missing (set ns) = length ds"
    by (rule first_missing_eq) (simp_all add: assms(4))
  ultimately show ?thesis
    using reassembly_exact [OF assms(3) _ assms(5), where s = "\<lambda>n. ds ! n"] assms(4)
    by (simp add: map_nth)
qed

theorem stream_roundtrip_witness:
  "snd (recv_run (newConn 0 7) (map (\<lambda>f. (SeqNum f, Payload f))
     (map (\<lambda>n. snd (send_all (snd (RegisterConn 0 7 NewMux)) 7 [[5], [6]]) ! n) [1, 0, 1])))
   = [[5], [6]]"
proof -
  let ?m = "snd (RegisterConn 0 7 NewMux)"
  have g: "GetConn ?m 7 = Some (newConn 0 7)" by (simp add: RegisterConn_def Let_def)
  have w: "within_window {} [1, 0, 1]" by (simp add: first_missing_examples maxRecvPending_def insert_commute)
  have s: "set [1, 0, 1] = {..<length [[5 :: byte], [6]]}" by auto
  show ?thesis
    by (rule stream_roundtrip [OF g _ _ s w refl]) (simp_all add: newConn_def)
qed

text \<open>
  The priority latch: the frame at position \<open>j\<close> of a stream is urgent exactly when the frames
  before it carry at most \<^verbatim>\<open>StreamPriorityBytes\<close> (512 KiB) in total; in particular, once a frame is
  normal all later ones are.
\<close>

lemma urgency_latch:
  assumes "sum_list ns < 2 ^ 64" "j < length ns"
  shows "classify_run (newConn now i) ns ! j \<longleftrightarrow> sum_list (take j ns) \<le> StreamPriorityBytes"
  using classify_run_sum [of "newConn now i" ns j] assms by (simp add: newConn_def)

text \<open>
  Every operation keeps the multiplexer well formed: identifiers stay unique, each connection
  stays under its own identifier, and no out-of-order buffer grows beyond 256 entries.
\<close>

lemma mux_wf_preserved:
  assumes "mux_wf m"
  shows "mux_wf (fst (HandleFrame now m f)) \<and> mux_wf (snd (RegisterConn now i m)) \<and>
    mux_wf (fst (RemoveConn i m)) \<and> mux_wf (fst (gc now m)) \<and>
    mux_wf (fst (snd (SendData sf m b i data))) \<and>
    (\<forall>c m'. NewConn now draws m = Some (c, m') \<longrightarrow> mux_wf m')"
  using assms by (auto intro: HandleFrame_wf RegisterConn_wf RemoveConn_wf gc_wf SendData_wf NewConn_wf)

subsection \<open>The collector's loop\<close>

text \<open>\<open>gcLoop ticks m\<close>: the multiplexer after the ticks of the minute ticker up to \<^verbatim>\<open>Stop\<close>.\<close>

fun gcLoop :: "time list \<Rightarrow> mux \<Rightarrow> mux" where
  "gcLoop [] m = m"
| "gcLoop (now # ticks) m = gcLoop ticks (fst (gc now m))"

text \<open>A connection survives exactly if it was not idle for more than five minutes at any tick.\<close>

lemma gcLoop_conns:
  "conns (gcLoop ticks m) = filter (\<lambda>(i, c). \<forall>now \<in> set ticks. now - lastUsed c \<le> idleLimit) (conns m)"
  by (induction ticks arbitrary: m) (auto simp: gc_def not_less intro!: filter_cong)

lemma gcLoop_idle_gone:
  assumes "(i, c) \<in> set (conns (gcLoop ticks m))" "t \<in> set ticks"
  shows "t \<le> lastUsed c + idleLimit"
  using assms by (fastforce simp: gcLoop_conns)

end
