(* ===== verification/Relay_Stream.thy ===== *)
theory Relay_Stream
  imports Mux
begin

text \<open>
  The receiving side of one tunnel connection as a state machine: the goroutine that handles
  frames (\<^verbatim>\<open>Mux.HandleFrame\<close> with \<^verbatim>\<open>deliverOrdered\<close>), and the loop of \<^verbatim>\<open>Mux.Relay\<close> that moves data
  from the channel to the socket. Every \<^verbatim>\<open>select\<close> is a choice among its ready branches. As long as
  the connection is open, what has been written, what waits in the channel and what is being
  delivered are together a prefix of the peer's stream. Once it is closed this is lost: a run
  is exhibited in which the socket gets a later payload without the earlier one.
\<close>

subsection \<open>States and steps\<close>

text \<open>
  \<open>ep_todo\<close> are the payloads the current call of \<^verbatim>\<open>deliverOrdered\<close> has still to hand over,
  \<open>ep_written\<close> is what \<^verbatim>\<open>netConn.Write\<close> has taken, \<open>ep_relay\<close> says that the loop still runs.
\<close>

record endpoint =
  ep_conn :: conn
  ep_todo :: "bytes list"
  ep_written :: "bytes list"
  ep_relay :: bool

definition ep_init :: "time \<Rightarrow> conn_id \<Rightarrow> endpoint" where
  "ep_init now i = \<lparr>ep_conn = newConn now i, ep_todo = [], ep_written = [], ep_relay = True\<rparr>"

text \<open>The loop's two ready branches: a payload from the channel (written, or the write fails).\<close>

definition relay_data :: "endpoint \<Rightarrow> endpoint" where
  "relay_data e =
     (case DataCh (ep_conn e) of
        [] \<Rightarrow> e
      | d # ds \<Rightarrow> e\<lparr>ep_conn := (ep_conn e)\<lparr>DataCh := ds\<rparr>, ep_written := ep_written e @ [d]\<rparr>)"

definition relay_write_error :: "endpoint \<Rightarrow> endpoint" where
  "relay_write_error e =
     (case DataCh (ep_conn e) of
        [] \<Rightarrow> e
      | d # ds \<Rightarrow> e\<lparr>ep_conn := Conn_Close ((ep_conn e)\<lparr>DataCh := ds\<rparr>), ep_relay := False\<rparr>)"

inductive ep_step :: "(nat \<Rightarrow> bytes) \<Rightarrow> nat \<Rightarrow> endpoint \<Rightarrow> endpoint \<Rightarrow> bool" for s N where
  recv_data: "\<lbrakk>ep_todo e = []; n < N;
      deliverOrdered (MarkUsed now (ep_conn e)) (of_nat n) (s n) = (c, ds)\<rbrakk> \<Longrightarrow>
    ep_step s N e (e\<lparr>ep_conn := c, ep_todo := ds\<rparr>)"
| recv_close: "ep_todo e = [] \<Longrightarrow> ep_step s N e (e\<lparr>ep_conn := Conn_Close (ep_conn e)\<rparr>)"
| push: "\<lbrakk>ep_todo e = d # ds; select_ready (ep_conn e) b; push_select b (ep_conn e) d ds = (c, ds')\<rbrakk> \<Longrightarrow>
    ep_step s N e (e\<lparr>ep_conn := c, ep_todo := ds'\<rparr>)"
| relay_write: "\<lbrakk>ep_relay e; DataCh (ep_conn e) \<noteq> []\<rbrakk> \<Longrightarrow> ep_step s N e (relay_data e)"
| relay_fail: "\<lbrakk>ep_relay e; DataCh (ep_conn e) \<noteq> []\<rbrakk> \<Longrightarrow> ep_step s N e (relay_write_error e)"
| relay_stop: "\<lbrakk>ep_relay e; closed (ep_conn e)\<rbrakk> \<Longrightarrow> ep_step s N e (e\<lparr>ep_relay := False\<rparr>)"
| local_close: "ep_step s N e (e\<lparr>ep_conn := Conn_Close (ep_conn e)\<rparr>)"

inductive ep_reach :: "(nat \<Rightarrow> bytes) \<Rightarrow> nat \<Rightarrow> endpoint \<Rightarrow> bool" for s N where
  start: "ep_reach s N (ep_init now i)"
| step: "ep_reach s N e \<Longrightarrow> ep_step s N e e' \<Longrightarrow> ep_reach s N e'"

inductive_cases ep_stepE: "ep_step s N e e'"

subsection \<open>The invariant while the connection is open\<close>

definition ep_inv :: "(nat \<Rightarrow> bytes) \<Rightarrow> nat \<Rightarrow> endpoint \<Rightarrow> bool" where
  "ep_inv s N e \<longleftrightarrow>
     length (DataCh (ep_conn e)) \<le> dataChCap \<and>
     (\<exists>R. in_sync s N R (ep_conn e)) \<and>
     (\<not> closed (ep_conn e) \<longrightarrow>
        ep_written e @ DataCh (ep_conn e) @ ep_todo e
          = map s [0..<unat (recvExpected (ep_conn e))])"

lemma in_sync_cong:
  "recvExpected c = recvExpected c' \<Longrightarrow> recvPending c = recvPending c' \<Longrightarrow>
     in_sync s N R c = in_sync s N R c'"
  by (simp add: in_sync_def)

lemma in_sync_frame [simp]:
  "in_sync s N R (c\<lparr>DataCh := ds\<rparr>) = in_sync s N R c"
  "in_sync s N R (c\<lparr>lastUsed := t\<rparr>) = in_sync s N R c"
  "in_sync s N R (c\<lparr>closed := b\<rparr>) = in_sync s N R c"
  by (simp_all add: in_sync_def)

lemma Conn_Close_simps [simp]:
  "closed (Conn_Close c)" "in_sync s N R (Conn_Close c) = in_sync s N R c"
  "DataCh (Conn_Close c) = DataCh c"
  by (simp_all add: Conn_Close_def)

lemma deliverOrdered_frame:
  "deliverOrdered c q d = (c', ds) \<Longrightarrow>
     DataCh c' = DataCh c \<and> closed c' = closed c \<and> lastUsed c' = lastUsed c \<and> sendSeq c' = sendSeq c"
  by (auto simp: deliverOrdered_def split: if_splits prod.splits)

lemma MarkUsed_simps [simp]:
  "DataCh (MarkUsed t c) = DataCh c" "closed (MarkUsed t c) = closed c"
  "recvExpected (MarkUsed t c) = recvExpected c" "in_sync s N R (MarkUsed t c) = in_sync s N R c"
  by (simp_all add: MarkUsed_def)

lemma ep_inv_recv:
  assumes "ep_inv s N e" "ep_todo e = []" "n < N"
    and d: "deliverOrdered (MarkUsed now (ep_conn e)) (of_nat n) (s n) = (c, ds)"
  shows "ep_inv s N (e\<lparr>ep_conn := c, ep_todo := ds\<rparr>)"
proof -
  obtain R where R: "in_sync s N R (MarkUsed now (ep_conn e))"
    using assms(1) by (auto simp: ep_inv_def)
  obtain R' where R': "in_sync s N R' c"
    and le: "unat (recvExpected (ep_conn e)) \<le> unat (recvExpected c)"
    and ds: "ds = map s [unat (recvExpected (ep_conn e))..<unat (recvExpected c)]"
    using deliver_safe [OF R assms(3) d] by auto
  have fr: "DataCh c = DataCh (ep_conn e)" "closed c = closed (ep_conn e)"
    using deliverOrdered_frame [OF d] by simp_all
  have "ep_written e @ DataCh c @ ds = map s [0..<unat (recvExpected c)]" if "\<not> closed c"
  proof -
    have "ep_written e @ DataCh (ep_conn e) = map s [0..<unat (recvExpected (ep_conn e))]"
      using assms(1,2) that fr by (simp add: ep_inv_def)
    then show ?thesis
      by (simp add: fr ds upt_split [OF _ le] flip: map_append append_assoc)
  qed
  then show ?thesis using assms(1) R' fr by (auto simp: ep_inv_def)
qed

lemma ep_step_inv: "ep_step s N e e' \<Longrightarrow> ep_inv s N e \<Longrightarrow> ep_inv s N e'"
proof (induction rule: ep_step.induct)
  case (recv_data e n now c ds)
  then show ?case by (intro ep_inv_recv)
next
  case (push e d ds b c ds')
  then show ?case
    by (cases b) (auto simp: ep_inv_def push_select_def select_ready_def)
qed (auto simp: ep_inv_def relay_data_def relay_write_error_def split: list.splits)

lemma ep_reach_inv: "ep_reach s N e \<Longrightarrow> N < 2 ^ 32 \<Longrightarrow> ep_inv s N e"
proof (induction rule: ep_reach.induct)
  case (start now i)
  have "in_sync s N {} (newConn now i)" using start by (rule in_sync_new)
  then show ?case by (auto simp: ep_inv_def ep_init_def) (simp_all add: newConn_def)
next
  case (step e e')
  then show ?case using ep_step_inv by blast
qed

subsection \<open>Properties\<close>

text \<open>
  C8. In every reachable state in which the connection has not been closed, what the relay has
  written to the socket, what waits in the channel and what is still being delivered make up
  exactly the payloads below the expected number: no byte is lost, repeated or reordered,
  under any interleaving of the two goroutines and any arrival order of the frames.
\<close>

theorem open_stream_intact:
  assumes "ep_reach s N e" "N < 2 ^ 32" "\<not> closed (ep_conn e)"
  shows "ep_written e @ DataCh (ep_conn e) @ ep_todo e
    = map s [0..<unat (recvExpected (ep_conn e))]"
  using ep_reach_inv [OF assms(1,2)] assms(3) by (simp add: ep_inv_def)

lemma ep_reach_recv:
  assumes "ep_reach s N e" "ep_todo e = []" "n < N"
  shows "ep_reach s N (e\<lparr>ep_conn := fst (deliverOrdered (MarkUsed now (ep_conn e)) (of_nat n) (s n)),
     ep_todo := snd (deliverOrdered (MarkUsed now (ep_conn e)) (of_nat n) (s n))\<rparr>)"
  by (rule ep_reach.step [OF assms(1)], rule ep_step.recv_data [OF assms(2,3)]) simp

theorem open_stream_intact_witness:
  "\<exists>e. ep_reach (\<lambda>n. [of_nat n]) 2 e \<and> ep_todo e = [[0]] \<and>
     ep_written e @ DataCh (ep_conn e) @ ep_todo e = map (\<lambda>n. [of_nat n]) [0..<1]"
proof -
  let ?s = "\<lambda>n :: nat. [of_nat n] :: bytes"
  let ?e = "(ep_init 0 7)\<lparr>ep_conn := (newConn 0 7)\<lparr>recvExpected := 1\<rparr>, ep_todo := [[0]]\<rparr>"
  have r: "ep_reach ?s 2 ?e"
    using ep_reach_recv [OF ep_reach.start, of 0 7 0 2 ?s 0]
    by (simp add: ep_init_def deliverOrdered_def newConn_def MarkUsed_def drain.simps)
  have "ep_written ?e @ DataCh (ep_conn ?e) @ ep_todo ?e = map ?s [0..<unat (recvExpected (ep_conn ?e))]"
    by (rule open_stream_intact [OF r]) (simp_all add: newConn_def)
  with r show ?thesis by (intro exI [of _ ?e]) (simp add: newConn_def ep_init_def)
qed

text \<open>
  C40. The guarantee ends with the connection. There is a run in which a CLOSE frame overtakes
  two data frames, the first data frame is discarded by the \<^verbatim>\<open>select\<close> on \<^verbatim>\<open>CloseCh\<close>, the second is put
  into the channel, and the relay, whose own \<^verbatim>\<open>select\<close> may still choose the channel, writes it:
  the socket receives the second payload without the first.
\<close>

theorem closed_stream_hole:
  "\<exists>e. ep_reach s 2 e \<and> ep_written e = [s 1] \<and> ep_relay e"
proof -
  let ?c0 = "(newConn 0 7)\<lparr>closed := True\<rparr>"
  let ?e1 = "(ep_init 0 7)\<lparr>ep_conn := ?c0\<rparr>"
  let ?c2 = "?c0\<lparr>recvExpected := 1\<rparr>"
  let ?e2 = "?e1\<lparr>ep_conn := ?c2, ep_todo := [s 0]\<rparr>"
  let ?e3 = "?e2\<lparr>ep_todo := []\<rparr>"
  let ?c4 = "?c0\<lparr>recvExpected := 2\<rparr>"
  let ?e4 = "?e3\<lparr>ep_conn := ?c4, ep_todo := [s 1]\<rparr>"
  let ?e5 = "?e4\<lparr>ep_conn := ?c4\<lparr>DataCh := [s 1]\<rparr>, ep_todo := []\<rparr>"
  have "ep_reach s 2 ?e1"
    using ep_reach.step [OF ep_reach.start ep_step.recv_close, of "0" "7" s 2]
    by (simp add: ep_init_def Conn_Close_def newConn_def)
  then have "ep_reach s 2 ?e2"
    using ep_reach_recv [of s 2 ?e1 0 0]
    by (simp add: ep_init_def deliverOrdered_def newConn_def MarkUsed_def drain.simps)
  moreover have "ep_step s 2 ?e2 ?e3"
    using ep_step.push [of ?e2 "s 0" "[]" SelClosed ?c2 "[]" s 2]
    by (simp add: select_ready_def push_select_def ep_init_def newConn_def)
  ultimately have "ep_reach s 2 ?e3" by (rule ep_reach.step)
  then have "ep_reach s 2 ?e4"
    using ep_reach_recv [of s 2 ?e3 1 0]
    by (simp add: ep_init_def deliverOrdered_def newConn_def MarkUsed_def drain.simps)
  moreover have "ep_step s 2 ?e4 ?e5"
    using ep_step.push [of ?e4 "s 1" "[]" SelSend "?c4\<lparr>DataCh := [s 1]\<rparr>" "[]" s 2]
    by (simp add: select_ready_def push_select_def ep_init_def newConn_def dataChCap_def)
  ultimately have "ep_reach s 2 ?e5" by (rule ep_reach.step)
  moreover have "ep_step s 2 ?e5 (relay_data ?e5)"
    by (rule ep_step.relay_write) (simp_all add: ep_init_def newConn_def)
  ultimately have "ep_reach s 2 (relay_data ?e5)" by (rule ep_reach.step)
  then show ?thesis
    by (intro exI [of _ "relay_data ?e5"]) (simp add: relay_data_def ep_init_def newConn_def)
qed

end
