(* ===== verification/Go_Crypto.thy ===== *)
theory Go_Crypto
  imports Vtel_Prelude
begin

text \<open>
  What the program uses of Go's \<^verbatim>\<open>crypto/sha256\<close>, \<^verbatim>\<open>crypto/aes\<close> and \<^verbatim>\<open>crypto/cipher\<close>: SHA-256 of
  a byte string, the AES-256 block function and Galois/counter mode with the standard 12-byte
  nonce, a 16-byte tag and no additional data. All of it is executable. What the envelope
  layer relies on is stated as the locale \<open>aead\<close>, which holds of the GCM defined here:
  opening succeeds exactly on what sealing produces under the same nonce.
\<close>

subsection \<open>SHA-256\<close>

definition sha256_H0 :: "32 word list" where
  "sha256_H0 =
    [1779033703, 3144134277, 1013904242, 2773480762, 1359893119, 2600822924, 528734635,
     1541459225]"

definition sha256_K :: "32 word list" where
  "sha256_K =
    [1116352408, 1899447441, 3049323471, 3921009573, 961987163, 1508970993, 2453635748,
     2870763221, 3624381080, 310598401, 607225278, 1426881987, 1925078388, 2162078206,
     2614888103, 3248222580, 3835390401, 4022224774, 264347078, 604807628, 770255983,
     1249150122, 1555081692, 1996064986, 2554220882, 2821834349, 2952996808, 3210313671,
     3336571891, 3584528711, 113926993, 338241895, 666307205, 773529912, 1294757372,
     1396182291, 1695183700, 1986661051, 2177026350, 2456956037, 2730485921, 2820302411,
     3259730800, 3345764771, 3516065817, 3600352804, 4094571909, 275423344, 430227734,
     506948616, 659060556, 883997877, 958139571, 1322822218, 1537002063, 1747873779,
     1955562222, 2024104815, 2227730452, 2361852424, 2428436474, 2756734187, 3204031479,
     3329325298]"

definition be64 :: "nat \<Rightarrow> bytes" where
  "be64 n = map (\<lambda>i. byte_of_int (drop_bit (8 * (7 - i)) n)) [0..<8]"

definition sha256_pad :: "bytes \<Rightarrow> bytes" where
  "sha256_pad m =
     m @ [0x80] @ replicate ((119 - length m mod 64) mod 64) 0 @ be64 (8 * length m)"

fun chunks :: "nat \<Rightarrow> 'a list \<Rightarrow> 'a list list" where
  "chunks n xs = (if xs = [] \<or> n = 0 then [] else take n xs # chunks n (drop n xs))"

declare chunks.simps [simp del]

definition sha256_ext :: "32 word list \<Rightarrow> 32 word list" where
  "sha256_ext w =
     (let n = length w;
          a = w ! (n - 15); b = w ! (n - 2);
          s0 = word_rotr 7 a XOR word_rotr 18 a XOR drop_bit 3 a;
          s1 = word_rotr 17 b XOR word_rotr 19 b XOR drop_bit 10 b
      in w @ [w ! (n - 16) + s0 + w ! (n - 7) + s1])"

definition sha256_schedule :: "bytes \<Rightarrow> 32 word list" where
  "sha256_schedule blk = (sha256_ext ^^ 48) (map Uint32 (chunks 4 blk))"

fun sha256_round :: "32 word \<times> 32 word \<Rightarrow> 32 word list \<Rightarrow> 32 word list" where
  "sha256_round (k, w) [a, b, c, d, e, f, g, h] =
     (let s1 = word_rotr 6 e XOR word_rotr 11 e XOR word_rotr 25 e;
          ch = (e AND f) XOR (NOT e AND g);
          t1 = h + s1 + ch + k + w;
          s0 = word_rotr 2 a XOR word_rotr 13 a XOR word_rotr 22 a;
          maj = (a AND b) XOR (a AND c) XOR (b AND c)
      in [t1 + (s0 + maj), a, b, c, d + t1, e, f, g])"
| "sha256_round _ st = st"

definition sha256_block :: "bytes \<Rightarrow> 32 word list \<Rightarrow> 32 word list" where
  "sha256_block blk st =
     map2 (+) st (fold sha256_round (zip sha256_K (sha256_schedule blk)) st)"

definition Sum256 :: "bytes \<Rightarrow> bytes" where
  "Sum256 m = concat (map PutUint32 (fold sha256_block (chunks 64 (sha256_pad m)) sha256_H0))"

subsection \<open>The AES-256 block function\<close>

definition aes_sbox :: "byte list" where
  "aes_sbox =
    [99, 124, 119, 123, 242, 107, 111, 197, 48, 1, 103, 43, 254, 215, 171, 118, 202, 130,
     201, 125, 250, 89, 71, 240, 173, 212, 162, 175, 156, 164, 114, 192, 183, 253, 147,
     38, 54, 63, 247, 204, 52, 165, 229, 241, 113, 216, 49, 21, 4, 199, 35, 195, 24,
     150, 5, 154, 7, 18, 128, 226, 235, 39, 178, 117, 9, 131, 44, 26, 27, 110, 90, 160,
     82, 59, 214, 179, 41, 227, 47, 132, 83, 209, 0, 237, 32, 252, 177, 91, 106, 203,
     190, 57, 74, 76, 88, 207, 208, 239, 170, 251, 67, 77, 51, 133, 69, 249, 2, 127, 80,
     60, 159, 168, 81, 163, 64, 143, 146, 157, 56, 245, 188, 182, 218, 33, 16, 255, 243,
     210, 205, 12, 19, 236, 95, 151, 68, 23, 196, 167, 126, 61, 100, 93, 25, 115, 96,
     129, 79, 220, 34, 42, 144, 136, 70, 238, 184, 20, 222, 94, 11, 219, 224, 50, 58,
     10, 73, 6, 36, 92, 194, 211, 172, 98, 145, 149, 228, 121, 231, 200, 55, 109, 141,
     213, 78, 169, 108, 86, 244, 234, 101, 122, 174, 8, 186, 120, 37, 46, 28, 166, 180,
     198, 232, 221, 116, 31, 75, 189, 139, 138, 112, 62, 181, 102, 72, 3, 246, 14, 97,
     53, 87, 185, 134, 193, 29, 158, 225, 248, 152, 17, 105, 217, 142, 148, 155, 30,
     135, 233, 206, 85, 40, 223, 140, 161, 137, 13, 191, 230, 66, 104, 65, 153, 45, 15,
     176, 84, 187, 22]"

definition sub_byte :: "byte \<Rightarrow> byte" where
  "sub_byte b = aes_sbox ! unat b"

definition xor_bytes :: "bytes \<Rightarrow> bytes \<Rightarrow> bytes" where
  "xor_bytes xs ys = map2 (XOR) xs ys"

definition xtime :: "byte \<Rightarrow> byte" where
  "xtime b = push_bit 1 b XOR (if bit b 7 then 0x1b else 0)"

definition shift_rows :: "bytes \<Rightarrow> bytes" where
  "shift_rows s = map (\<lambda>i. s ! i) [0, 5, 10, 15, 4, 9, 14, 3, 8, 13, 2, 7, 12, 1, 6, 11]"

fun mix_column :: "bytes \<Rightarrow> bytes" where
  "mix_column [a, b, c, d] =
     [xtime a XOR (xtime b XOR b) XOR c XOR d,
      a XOR xtime b XOR (xtime c XOR c) XOR d,
      a XOR b XOR xtime c XOR (xtime d XOR d),
      (xtime a XOR a) XOR b XOR c XOR xtime d]"
| "mix_column xs = xs"

definition mix_columns :: "bytes \<Rightarrow> bytes" where
  "mix_columns s = concat (map mix_column (chunks 4 s))"

text \<open>The key schedule for a 32-byte key: 60 words of four bytes, the round keys in order.\<close>

definition aes_rcon :: "nat \<Rightarrow> byte" where
  "aes_rcon i = (xtime ^^ (i - 1)) 1"

definition aes_key_step :: "nat \<Rightarrow> bytes list \<Rightarrow> bytes list" where
  "aes_key_step i ws =
     (let t = ws ! (i - 1);
          t' = (if i mod 8 = 0
                then xor_bytes (map sub_byte (rotate1 t)) [aes_rcon (i div 8), 0, 0, 0]
                else if i mod 8 = 4 then map sub_byte t else t)
      in ws @ [xor_bytes (ws ! (i - 8)) t'])"

definition aes_round_keys :: "bytes \<Rightarrow> bytes list" where
  "aes_round_keys key = map concat (chunks 4 (fold aes_key_step [8..<60] (chunks 4 key)))"

definition aes_encrypt :: "bytes \<Rightarrow> bytes \<Rightarrow> bytes" where
  "aes_encrypt key blk =
     (let rk = aes_round_keys key;
          s0 = xor_bytes blk (rk ! 0);
          s = fold (\<lambda>i s. xor_bytes (mix_columns (shift_rows (map sub_byte s))) (rk ! i))
                [1..<14] s0
      in xor_bytes (shift_rows (map sub_byte s)) (rk ! 14))"

subsection \<open>Galois/counter mode\<close>

definition gcm_inc32 :: "bytes \<Rightarrow> bytes" where
  "gcm_inc32 ctr = take 12 ctr @ PutUint32 (Uint32 (drop 12 ctr) + 1)"

text \<open>Multiplication in the field of 2^128 elements, bits in the reflected order of GCM.\<close>

definition block_bits :: "bytes \<Rightarrow> bool list" where
  "block_bits b = concat (map (\<lambda>x. map (\<lambda>i. bit x (7 - i)) [0..<8]) b)"

definition shift_right1 :: "bytes \<Rightarrow> bytes" where
  "shift_right1 v =
     map2 (\<lambda>c b. drop_bit 1 b OR (if c then 0x80 else 0)) (False # map (\<lambda>b. bit b 0) (butlast v)) v"

definition gf_mul :: "bytes \<Rightarrow> bytes \<Rightarrow> bytes" where
  "gf_mul x h =
     fst (fold (\<lambda>b (z, v).
            (if b then xor_bytes z v else z,
             if bit (last v) 0 then xor_bytes (shift_right1 v) (0xe1 # replicate 15 0)
             else shift_right1 v))
          (block_bits x) (replicate 16 0, h))"

definition pad16 :: "bytes \<Rightarrow> bytes" where
  "pad16 b = b @ replicate ((16 - length b mod 16) mod 16) 0"

definition ghash :: "bytes \<Rightarrow> bytes \<Rightarrow> bytes" where
  "ghash h c =
     fold (\<lambda>blk y. gf_mul (xor_bytes y blk) h)
       (chunks 16 (pad16 c @ be64 0 @ be64 (8 * length c))) (replicate 16 0)"

fun gcm_ctr :: "(bytes \<Rightarrow> bytes) \<Rightarrow> bytes \<Rightarrow> bytes list \<Rightarrow> bytes" where
  "gcm_ctr E ctr [] = []"
| "gcm_ctr E ctr (blk # blks) = xor_bytes blk (E ctr) @ gcm_ctr E (gcm_inc32 ctr) blks"

definition gcm_tag :: "bytes \<Rightarrow> bytes \<Rightarrow> bytes \<Rightarrow> bytes" where
  "gcm_tag key nonce c =
     copy_to 16 (xor_bytes (ghash (aes_encrypt key (replicate 16 0)) c)
                  (aes_encrypt key (nonce @ [0, 0, 0, 1])))"

definition gcm_crypt :: "bytes \<Rightarrow> bytes \<Rightarrow> bytes \<Rightarrow> bytes" where
  "gcm_crypt key nonce p =
     gcm_ctr (\<lambda>b. copy_to 16 (aes_encrypt key b)) (nonce @ [0, 0, 0, 2]) (chunks 16 p)"

definition gcm_Overhead :: nat where "gcm_Overhead = 16"

definition gcm_Seal :: "bytes \<Rightarrow> bytes \<Rightarrow> bytes \<Rightarrow> bytes" where
  "gcm_Seal key nonce p = (let c = gcm_crypt key nonce p in c @ gcm_tag key nonce c)"

definition gcm_Open :: "bytes \<Rightarrow> bytes \<Rightarrow> bytes \<Rightarrow> bytes option" where
  "gcm_Open key nonce data =
     (if length data < gcm_Overhead then None
      else let c = take (length data - gcm_Overhead) data;
               t = drop (length data - gcm_Overhead) data
           in if t = gcm_tag key nonce c then Some (gcm_crypt key nonce c) else None)"

subsection \<open>Lengths\<close>

lemma length_xor_bytes [simp]: "length (xor_bytes xs ys) = min (length xs) (length ys)"
  by (simp add: xor_bytes_def)

lemma length_sha256_round: "length (sha256_round kw st) = length st"
  by (induction kw st rule: sha256_round.induct) (simp_all add: Let_def)

lemma length_fold_sha256_round: "length (fold sha256_round kws st) = length st"
  by (induction kws arbitrary: st) (simp_all add: length_sha256_round)

lemma length_fold_sha256_block: "length (fold sha256_block blks st) = length st"
  by (induction blks arbitrary: st)
     (simp_all add: sha256_block_def length_fold_sha256_round)

lemma length_Sum256 [simp]: "length (Sum256 m) = 32"
  by (simp add: Sum256_def length_concat comp_def length_fold_sha256_block sum_list_triv
      sha256_H0_def)

lemma length_gcm_tag [simp]: "length (gcm_tag key nonce c) = 16"
  by (simp add: gcm_tag_def)

subsection \<open>Counter mode is an involution\<close>

lemma xor_bytes_cancel:
  "length xs \<le> length ks \<Longrightarrow> xor_bytes (xor_bytes xs ks) ks = xs"
proof (induction xs arbitrary: ks)
  case Nil
  show ?case by (simp add: xor_bytes_def)
next
  case (Cons x xs)
  then obtain k ks' where "ks = k # ks'" by (cases ks) auto
  with Cons show ?case by (simp add: xor_bytes_def xor.assoc)
qed

lemma chunks_Nil [simp]: "chunks n [] = []"
  by (simp add: chunks.simps)

lemma chunks_append:
  assumes "0 < n" "length xs = n"
  shows "chunks n (xs @ ys) = xs # chunks n ys"
  using assms by (subst chunks.simps) auto

lemma chunks_short: "xs \<noteq> [] \<Longrightarrow> length xs \<le> n \<Longrightarrow> chunks n xs = [xs]"
  by (cases "n = 0") (simp_all add: chunks.simps [of n xs])

lemma gcm_ctr_involution:
  assumes "\<And>b. length (E b) = 16"
  shows "gcm_ctr E ctr (chunks 16 (gcm_ctr E ctr (chunks 16 p))) = p"
proof (induction "length p" arbitrary: p ctr rule: less_induct)
  case less
  consider (empty) "p = []" | (short) "p \<noteq> []" "length p \<le> 16"
    | (long) "16 < length p" by linarith
  then show ?case
  proof cases
    case empty
    then show ?thesis by simp
  next
    case short
    then have "xor_bytes p (E ctr) \<noteq> []" by (metis assms length_0_conv length_xor_bytes min_def)
    with short show ?thesis
      by (simp add: chunks_short assms xor_bytes_cancel)
  next
    case long
    let ?h = "take 16 p" and ?t = "drop 16 p"
    have p: "chunks 16 p = ?h # chunks 16 ?t"
      using long chunks_append [of 16 ?h ?t] by simp
    have "gcm_ctr E (gcm_inc32 ctr) (chunks 16 (gcm_ctr E (gcm_inc32 ctr) (chunks 16 ?t))) = ?t"
      by (rule less.hyps) (use long in simp)
    moreover have "xor_bytes (xor_bytes ?h (E ctr)) (E ctr) = ?h"
      using long by (intro xor_bytes_cancel) (simp add: assms)
    ultimately show ?thesis using long by (simp add: p chunks_append assms)
  qed
qed

lemma gcm_crypt_involution [simp]: "gcm_crypt key nonce (gcm_crypt key nonce p) = p"
  by (simp add: gcm_crypt_def gcm_ctr_involution)

lemma length_gcm_ctr:
  assumes "\<And>b. length (E b) = 16"
  shows "length (gcm_ctr E ctr (chunks 16 p)) = length p"
proof (induction "length p" arbitrary: p ctr rule: less_induct)
  case less
  show ?case
    using less assms by (cases "p = []") (simp_all add: chunks.simps [of 16 p])
qed

lemma length_gcm_Seal [simp]: "length (gcm_Seal key nonce p) = length p + gcm_Overhead"
  by (simp add: gcm_Seal_def Let_def gcm_crypt_def length_gcm_ctr gcm_Overhead_def)

subsection \<open>The contract of an AEAD\<close>

locale aead =
  fixes seal :: "bytes \<Rightarrow> bytes \<Rightarrow> bytes"
    and opn :: "bytes \<Rightarrow> bytes \<Rightarrow> bytes option"
    and overhead :: nat
  assumes opn_iff: "opn nonce c = Some p \<longleftrightarrow> c = seal nonce p"
    and length_seal: "length (seal nonce p) = length p + overhead"
begin

lemma opn_seal: "opn nonce (seal nonce p) = Some p"
  by (simp add: opn_iff)

lemma seal_inject: "seal nonce p = seal nonce q \<longleftrightarrow> p = q"
  using opn_seal by (metis option.inject)

lemma opn_short: "length c < overhead \<Longrightarrow> opn nonce c = None"
  using opn_iff length_seal by (metis not_add_less2 option.exhaust)

end

interpretation gcm: aead "gcm_Seal key" "gcm_Open key" gcm_Overhead for key
proof unfold_locales
  fix nonce c p
  show "gcm_Open key nonce c = Some p \<longleftrightarrow> c = gcm_Seal key nonce p"
  proof
    assume o: "gcm_Open key nonce c = Some p"
    then have "take (length c - 16) c @ gcm_tag key nonce (take (length c - 16) c) = c"
      and "p = gcm_crypt key nonce (take (length c - 16) c)"
      by (auto simp: gcm_Open_def gcm_Overhead_def Let_def split: if_splits)
         (metis append_take_drop_id)
    then show "c = gcm_Seal key nonce p" by (simp add: gcm_Seal_def Let_def)
  next
    assume "c = gcm_Seal key nonce p"
    then show "gcm_Open key nonce c = Some p"
      by (simp add: gcm_Open_def gcm_Seal_def Let_def gcm_Overhead_def)
  qed
qed simp

end
