(* ===== verification/Envelope.thy ===== *)
theory Envelope
  imports Go_Crypto Go_Fmt
begin

text \<open>
  \<^verbatim>\<open>protocol/envelope.go\<close>: a compressed batch is wrapped as magic, nonce and AES-256-GCM
  ciphertext. The random nonce is an argument (\<open>None\<close>: the random source failed). Opening
  returns \<open>Inr None\<close> where the code returns \<^verbatim>\<open>ok=false\<close> with a nil error. The lemmas about the
  byte layout are proved in the context of the locale \<open>aead\<close> and used for the GCM of
  \<open>Go_Crypto\<close>.
\<close>

subsection \<open>Definitions\<close>

definition envelopeMagic :: string where "envelopeMagic = ''VTE2''"
definition keyLen :: nat where "keyLen = 32"
definition nonceLen :: nat where "nonceLen = 12"

datatype envelope_error = EmptySecret | BadKeyLength | RandFailed

definition DeriveKey :: "string \<Rightarrow> envelope_error + bytes" where
  "DeriveKey secret =
     (if secret = '''' then Inl EmptySecret else Inr (Sum256 (bytes_of_string secret)))"

text \<open>The interface value \<^verbatim>\<open>cipher.AEAD\<close> that \<^verbatim>\<open>newGCM\<close> returns.\<close>

record cipher_AEAD =
  AEAD_Seal :: "bytes \<Rightarrow> bytes \<Rightarrow> bytes"
  AEAD_Open :: "bytes \<Rightarrow> bytes \<Rightarrow> bytes option"

definition newGCM :: "bytes \<Rightarrow> envelope_error + cipher_AEAD" where
  "newGCM key =
     (if length key \<noteq> keyLen then Inl BadKeyLength
      else Inr \<lparr>AEAD_Seal = gcm_Seal key, AEAD_Open = gcm_Open key\<rparr>)"

text \<open>What follows the GCM construction in the two functions, for any AEAD.\<close>

definition seal_layout :: "(bytes \<Rightarrow> bytes \<Rightarrow> bytes) \<Rightarrow> bytes \<Rightarrow> bytes \<Rightarrow> bytes" where
  "seal_layout seal nonce plaintext =
     bytes_of_string envelopeMagic @ nonce @ seal nonce plaintext"

definition open_layout :: "(bytes \<Rightarrow> bytes \<Rightarrow> bytes option) \<Rightarrow> bytes \<Rightarrow> bytes option" where
  "open_layout opn data =
     (let pos = length envelopeMagic;
          nonce = take nonceLen (drop pos data);
          ciphertext = drop (pos + nonceLen) data
      in opn nonce ciphertext)"

definition SealEnvelope :: "bytes \<Rightarrow> bytes option \<Rightarrow> bytes \<Rightarrow> envelope_error + bytes" where
  "SealEnvelope key rnd plaintext =
     bind_res (newGCM key) (\<lambda>gcm.
       case rnd of
         None \<Rightarrow> Inl RandFailed
       | Some nonce \<Rightarrow> Inr (seal_layout (AEAD_Seal gcm) nonce plaintext))"

definition OpenEnvelope :: "bytes \<Rightarrow> bytes \<Rightarrow> envelope_error + bytes option" where
  "OpenEnvelope key data =
     (if length data < length envelopeMagic + nonceLen then Inr None
      else if take (length envelopeMagic) data \<noteq> bytes_of_string envelopeMagic then Inr None
      else bind_res (newGCM key) (\<lambda>gcm. Inr (open_layout (AEAD_Open gcm) data)))"

subsection \<open>The layout, for any AEAD\<close>

lemma length_bytes_of_string [simp]: "length (bytes_of_string s) = length s"
  by (simp add: bytes_of_string_def)

lemma length_envelopeMagic [simp]: "length envelopeMagic = 4"
  by (simp add: envelopeMagic_def)

context aead
begin

lemma open_seal_layout:
  "length nonce = nonceLen \<Longrightarrow> open_layout opn (seal_layout seal nonce p) = Some p"
  by (simp add: open_layout_def seal_layout_def Let_def opn_seal)

lemma open_layout_SomeD:
  assumes "open_layout opn data = Some p"
    and "take 4 data = bytes_of_string envelopeMagic" and "16 \<le> length data"
  shows "\<exists>nonce. length nonce = nonceLen \<and> data = seal_layout seal nonce p"
proof -
  let ?nonce = "take nonceLen (drop 4 data)"
  have "drop (4 + nonceLen) data = seal ?nonce p"
    using assms(1) by (simp add: open_layout_def Let_def opn_iff)
  moreover have "data = take 4 data @ ?nonce @ drop (4 + nonceLen) data"
    by (metis append_take_drop_id drop_drop add.commute)
  ultimately have "data = seal_layout seal ?nonce p"
    using assms(2) by (simp add: seal_layout_def)
  moreover have "length ?nonce = nonceLen"
    using assms(3) by (simp add: nonceLen_def)
  ultimately show ?thesis by blast
qed

end

subsection \<open>Sealing and opening with a key of the right length\<close>

lemma SealEnvelope_key:
  "length key = keyLen \<Longrightarrow> SealEnvelope key (Some nonce) p = Inr (seal_layout (gcm_Seal key) nonce p)"
  by (simp add: SealEnvelope_def newGCM_def)

lemma length_seal_layout:
  "length nonce = nonceLen \<Longrightarrow> length (seal_layout (gcm_Seal key) nonce p) = length p + 32"
  by (simp add: seal_layout_def nonceLen_def gcm_Overhead_def)

lemma OpenEnvelope_seal_layout:
  assumes "length key = keyLen" "length nonce = nonceLen"
  shows "OpenEnvelope key (seal_layout (gcm_Seal key) nonce p) = Inr (Some p)"
proof -
  have "take 4 (seal_layout (gcm_Seal key) nonce p) = bytes_of_string envelopeMagic"
    by (simp add: seal_layout_def)
  then show ?thesis
    using assms
    by (simp add: OpenEnvelope_def newGCM_def length_seal_layout gcm.open_seal_layout nonceLen_def)
qed

lemma OpenEnvelope_Some_iff:
  assumes "length key = keyLen"
  shows "OpenEnvelope key data = Inr (Some p) \<longleftrightarrow>
    (\<exists>nonce. length nonce = nonceLen \<and> data = seal_layout (gcm_Seal key) nonce p)"
proof
  assume "OpenEnvelope key data = Inr (Some p)"
  then show "\<exists>nonce. length nonce = nonceLen \<and> data = seal_layout (gcm_Seal key) nonce p"
    using assms by (intro gcm.open_layout_SomeD)
      (auto simp: OpenEnvelope_def newGCM_def nonceLen_def split: if_splits)
next
  assume "\<exists>nonce. length nonce = nonceLen \<and> data = seal_layout (gcm_Seal key) nonce p"
  then show "OpenEnvelope key data = Inr (Some p)"
    using OpenEnvelope_seal_layout [OF assms] by blast
qed

lemma DeriveKey_length: "DeriveKey secret = Inr key \<Longrightarrow> length key = keyLen"
  by (auto simp: DeriveKey_def keyLen_def split: if_splits)

lemma DeriveKey_nonempty: "secret \<noteq> '''' \<Longrightarrow> \<exists>key. DeriveKey secret = Inr key"
  by (simp add: DeriveKey_def)

subsection \<open>Properties\<close>

text \<open>
  Sealing and opening round-trip: for every non-empty secret the derived key seals any batch
  under any 12-byte nonce, the envelope is exactly 32 bytes longer than the batch (4 of magic, 12
  of nonce, 16 of tag), and opening it with the same key gives the batch back.
\<close>

lemma envelope_roundtrip:
  assumes "secret \<noteq> ''''" and "length nonce = nonceLen"
  shows "\<exists>key sealed. DeriveKey secret = Inr key \<and> SealEnvelope key (Some nonce) p = Inr sealed
    \<and> length sealed = length p + 32 \<and> OpenEnvelope key sealed = Inr (Some p)"
proof -
  obtain key where k: "DeriveKey secret = Inr key" using DeriveKey_nonempty [OF assms(1)] by blast
  note len = DeriveKey_length [OF k]
  show ?thesis
    using k SealEnvelope_key [OF len] length_seal_layout [OF assms(2)]
      OpenEnvelope_seal_layout [OF len assms(2)] by blast
qed

text \<open>
  C18. Opening never fails hard with a derived key, and it accepts exactly what sealing with that
  key produces: whatever is not the sealed form of some batch under some nonce (other text in the
  channel, a truncated document, a flipped bit, a foreign key) is skipped.
\<close>

theorem envelope_exact:
  assumes "DeriveKey secret = Inr key"
  shows "\<exists>r. OpenEnvelope key data = Inr r \<and>
    (\<forall>p. r = Some p \<longleftrightarrow> (\<exists>nonce. length nonce = nonceLen \<and> SealEnvelope key (Some nonce) p = Inr data))"
proof -
  note len = DeriveKey_length [OF assms]
  have "\<exists>r. OpenEnvelope key data = Inr r"
    using len by (simp add: OpenEnvelope_def newGCM_def)
  then obtain r where r: "OpenEnvelope key data = Inr r" ..
  have "r = Some p \<longleftrightarrow> (\<exists>nonce. length nonce = nonceLen \<and> SealEnvelope key (Some nonce) p = Inr data)" for p
    using OpenEnvelope_Some_iff [OF len, of data p] r SealEnvelope_key [OF len] by auto
  with r show ?thesis by blast
qed

theorem envelope_exact_witness:
  "\<exists>r. OpenEnvelope (Sum256 (bytes_of_string ''k'')) [1, 2, 3] = Inr r \<and>
    (\<forall>p. r = Some p \<longleftrightarrow> (\<exists>nonce. length nonce = nonceLen
       \<and> SealEnvelope (Sum256 (bytes_of_string ''k'')) (Some nonce) p = Inr [1, 2, 3]))"
  by (rule envelope_exact [of "''k''"]) (simp add: DeriveKey_def)

end
