(* ===== verification/Go_Float.thy ===== *)
theory Go_Float
  imports Complex_Main "HOL-Library.Log_Nat"
begin

text \<open>
  Go's \<^verbatim>\<open>float64\<close> arithmetic, as far as the timing code uses it: a finite float is the rational
  number it denotes, and every operation is the exact one followed by \<open>f64\<close>, rounding to the
  nearest multiple of the unit in the last place of a 53-bit significand, ties to even. The
  values that occur lie far inside the exponent range, so overflow and subnormal numbers are
  left out. Converting to an integer truncates (\<open>trunc\<close>). The lemma \<open>f64_error\<close> bounds every
  rounding by one part in \<open>2 ^ 53\<close> of the value.
\<close>

definition round_even :: "rat \<Rightarrow> int" where
  "round_even x =
     (let n = \<lfloor>x\<rfloor>; r = x - of_int n
      in if r < 1/2 then n else if 1/2 < r then n + 1 else if even n then n else n + 1)"

definition pow2 :: "int \<Rightarrow> rat" where
  "pow2 e = (if 0 \<le> e then 2 ^ nat e else 1 / 2 ^ nat (- e))"

text \<open>The binary exponent of a positive rational: \<open>pow2 (log2 x) \<le> x < pow2 (log2 x + 1)\<close>.\<close>

definition log2 :: "rat \<Rightarrow> int" where
  "log2 x =
     (let (a, b) = quotient_of x; e = bitlen a - bitlen b
      in if pow2 e \<le> x then e else e - 1)"

definition f64 :: "rat \<Rightarrow> rat" where
  "f64 x =
     (if x = 0 then 0
      else let u = pow2 (log2 \<bar>x\<bar> - 52) in of_int (round_even (x / u)) * u)"

definition trunc :: "rat \<Rightarrow> int" where
  "trunc x = (if 0 \<le> x then \<lfloor>x\<rfloor> else \<lceil>x\<rceil>)"

definition fadd :: "rat \<Rightarrow> rat \<Rightarrow> rat" where "fadd x y = f64 (x + y)"
definition fsub :: "rat \<Rightarrow> rat \<Rightarrow> rat" where "fsub x y = f64 (x - y)"
definition fmul :: "rat \<Rightarrow> rat \<Rightarrow> rat" where "fmul x y = f64 (x * y)"
definition fdiv :: "rat \<Rightarrow> rat \<Rightarrow> rat" where "fdiv x y = f64 (x / y)"
definition float64 :: "int \<Rightarrow> rat" where "float64 i = f64 (of_int i)"

subsection \<open>The rounding error\<close>

lemma pow2_powi: "pow2 e = 2 powi e"
  by (simp add: pow2_def power_int_def field_simps)

lemma pow2_pos [simp]: "0 < pow2 e"
  by (simp add: pow2_def)

lemma pow2_add: "pow2 (a + b) = pow2 a * pow2 b"
  by (simp add: pow2_powi power_int_add)

lemma pow2_minus: "pow2 (- a) = 1 / pow2 a"
  by (simp add: pow2_powi power_int_minus field_simps)

lemma round_even_error: "\<bar>of_int (round_even x) - x\<bar> \<le> 1/2"
proof -
  have "of_int \<lfloor>x\<rfloor> \<le> x" "x < of_int \<lfloor>x\<rfloor> + 1" by linarith+
  then show ?thesis by (simp add: round_even_def Let_def abs_le_iff)
qed

lemma bitlen_pow2:
  assumes "0 < a"
  shows "pow2 (bitlen a - 1) \<le> of_int a" "of_int a < pow2 (bitlen a)"
proof -
  have b: "2 ^ nat (bitlen a - 1) \<le> a" "a < 2 ^ nat (bitlen a)" using bitlen_bounds [OF assms] by auto
  have p: "0 < bitlen a" using assms by (simp add: bitlen_def floorlog_eq_zero_iff zero_less_iff_neq_zero)
  from b(1) have "(of_int (2 ^ nat (bitlen a - 1)) :: rat) \<le> of_int a" by (simp only: of_int_le_iff)
  with p show "pow2 (bitlen a - 1) \<le> of_int a" by (simp add: pow2_def)
  from b(2) have "(of_int a :: rat) < of_int (2 ^ nat (bitlen a))" by (simp only: of_int_less_iff)
  with p show "of_int a < pow2 (bitlen a)" by (simp add: pow2_def)
qed

lemma log2_lower:
  assumes "0 < x"
  shows "pow2 (log2 x) \<le> x"
proof -
  obtain a b where q: "quotient_of x = (a, b)" by (cases "quotient_of x") auto
  have b: "0 < b" using q quotient_of_denom_pos by blast
  have x: "x = of_int a / of_int b" using q quotient_of_div by blast
  then have a: "0 < a" using assms b by (simp add: zero_less_divide_iff)
  have "pow2 (bitlen a - bitlen b - 1) = pow2 (bitlen a - 1) / pow2 (bitlen b)"
    using pow2_add [of "bitlen a - 1" "- bitlen b"] by (simp add: pow2_minus diff_diff_eq add.commute)
  also have "\<dots> \<le> of_int a / of_int b"
    using bitlen_pow2 [OF a] bitlen_pow2 [OF b] b a
    by (intro frac_le) (auto intro: less_imp_le)
  finally have "pow2 (bitlen a - bitlen b - 1) \<le> x" by (simp only: x)
  then show ?thesis by (simp add: log2_def q Let_def)
qed

lemma f64_error: "\<bar>f64 x - x\<bar> \<le> \<bar>x\<bar> / 2 ^ 53"
proof (cases "x = 0")
  case True then show ?thesis by (simp add: f64_def)
next
  case False
  define u where "u = pow2 (log2 \<bar>x\<bar> - 52)"
  have u: "0 < u" by (simp add: u_def)
  have "pow2 (log2 \<bar>x\<bar>) = u * 2 ^ 52"
    using pow2_add [of "log2 \<bar>x\<bar> - 52" 52] by (simp add: u_def pow2_def)
  then have le: "u * 2 ^ 52 \<le> \<bar>x\<bar>" using log2_lower [of "\<bar>x\<bar>"] False by simp
  have "f64 x - x = (of_int (round_even (x / u)) - x / u) * u"
    using u False by (simp add: f64_def Let_def u_def [symmetric] algebra_simps)
  then have "\<bar>f64 x - x\<bar> \<le> 1/2 * u"
    using round_even_error [of "x / u"] u by (simp add: abs_mult mult_right_mono)
  also have "\<dots> \<le> \<bar>x\<bar> / 2 ^ 53" using le by (simp add: field_simps)
  finally show ?thesis .
qed

text \<open>For non-negative values the two bounds, in the form the timing lemmas use.\<close>

lemma f64_bounds:
  assumes "0 \<le> x"
  shows "x * (1 - 1 / 2 ^ 53) \<le> f64 x" "f64 x \<le> x * (1 + 1 / 2 ^ 53)"
proof -
  have "\<bar>f64 x - x\<bar> \<le> x * (1 / 2 ^ 53)" using f64_error [of x] assms by simp
  then show "x * (1 - 1 / 2 ^ 53) \<le> f64 x" "f64 x \<le> x * (1 + 1 / 2 ^ 53)"
    unfolding right_diff_distrib distrib_left mult_1_right by linarith+
qed

lemma f64_nonneg: "0 \<le> x \<Longrightarrow> 0 \<le> f64 x"
  using f64_bounds(1) [of x] by (rule order_trans [rotated]) simp_all

lemma trunc_bounds: "0 \<le> x \<Longrightarrow> x - 1 < of_int (trunc x) \<and> of_int (trunc x) \<le> x"
  by (simp add: trunc_def) linarith

end
