(* ===== verification/Schedule.thy ===== *)
theory Schedule
  imports Vtel_Prelude Go_Float
begin

text \<open>
  \<^verbatim>\<open>protocol/schedule.go\<close>: the jitter of the flush timers and the quiet-hours window. The random
  number of \<^verbatim>\<open>rand.Float64\<close> is an argument \<open>u\<close> in the unit interval. The time-zone database behind
  \<^verbatim>\<open>time.LoadLocation\<close> is the argument \<open>tz\<close>: for a known zone name it gives the offset from UTC in
  seconds at a given instant.
\<close>

subsection \<open>Definitions\<close>

definition jitterFraction :: rat where "jitterFraction = 15 / 100"

text \<open>
  The constant expressions \<^verbatim>\<open>1 - jitterFraction\<close> and \<^verbatim>\<open>2*jitterFraction\<close> are exact and rounded to
  \<^verbatim>\<open>float64\<close> once.
\<close>

definition jitter :: "rat \<Rightarrow> duration \<Rightarrow> duration" where
  "jitter u d =
     (if d \<le> 0 then d
      else let factor = fadd (f64 (1 - jitterFraction)) (fmul u (f64 (2 * jitterFraction)))
           in trunc (fmul (float64 d) factor))"

definition QuietHoursMultiplier :: rat where "QuietHoursMultiplier = 3"

record quiet_hours =
  StartHour :: int
  EndHour :: int
  Timezone :: string

type_synonym tz_database = "string \<Rightarrow> (time \<Rightarrow> int) option"

text \<open>\<open>Hour offset t\<close> is \<^verbatim>\<open>t.In(loc).Hour()\<close> for a location with this offset at \<open>t\<close>.\<close>

definition Hour :: "int \<Rightarrow> time \<Rightarrow> int" where
  "Hour offset t = ((t div Second + offset) mod 86400) div 3600"

definition QuietHours_Active :: "tz_database \<Rightarrow> quiet_hours option \<Rightarrow> time \<Rightarrow> bool" where
  "QuietHours_Active tz qo t =
     (case qo of
        None \<Rightarrow> False
      | Some q \<Rightarrow>
          if StartHour q = EndHour q then False
          else let offset = (if Timezone q \<noteq> '''' then
                               (case tz (Timezone q) of Some off \<Rightarrow> off t | None \<Rightarrow> 0)
                             else 0);
                   hour = Hour offset t
               in if StartHour q < EndHour q then StartHour q \<le> hour \<and> hour < EndHour q
                  else StartHour q \<le> hour \<or> hour < EndHour q)"

subsection \<open>Lemmas\<close>

lemma Hour_range: "0 \<le> Hour offset t \<and> Hour offset t \<le> 23"
proof -
  define m where "m = (t div Second + offset) mod 86400"
  have "0 \<le> m" "m \<le> 86399" by (simp_all add: m_def zle_diff1_eq [symmetric])
  then have "0 \<le> m div 3600" "m div 3600 \<le> 86399 div 3600"
    by (simp_all add: pos_imp_zdiv_nonneg_iff zdiv_mono1)
  then show ?thesis by (simp add: Hour_def m_def)
qed

text \<open>Rounding errors of three operations stay below one nanosecond for delays under 6 days.\<close>

lemma jitter_factor:
  assumes "0 \<le> u" "u \<le> 1"
  defines "f \<equiv> fadd (f64 (1 - jitterFraction)) (fmul u (f64 (2 * jitterFraction)))"
  shows "85 / 100 * (1 - 1 / 2 ^ 51) \<le> f" "f \<le> 115 / 100 * (1 + 1 / 2 ^ 50)"
proof -
  define a where "a = f64 (85 / 100)"
  define b where "b = f64 (30 / 100)"
  define c where "c = f64 (u * b)"
  have f: "f = f64 (a + c)"
    by (simp add: f_def a_def b_def c_def fadd_def fmul_def jitterFraction_def)
  have a: "85 / 100 * (1 - 1 / 2 ^ 53) \<le> a" "a \<le> 85 / 100 * (1 + 1 / 2 ^ 53)"
    unfolding a_def by (rule f64_bounds; simp)+
  have b: "0 \<le> b" "b \<le> 30 / 100 * (1 + 1 / 2 ^ 53)"
    unfolding b_def by (rule f64_nonneg, simp) (rule f64_bounds, simp)
  have "u * b \<le> b" "0 \<le> u * b" using assms(1,2) b(1) by (simp_all add: mult_left_le_one_le)
  moreover have "c \<le> (u * b) * (1 + 1 / 2 ^ 53)" "0 \<le> c"
    unfolding c_def using \<open>0 \<le> u * b\<close> by (rule f64_bounds(2), rule f64_nonneg)
  ultimately have c: "0 \<le> c" "c \<le> b * (1 + 1 / 2 ^ 53)"
    by (auto intro: order_trans [OF _ mult_right_mono])
  have "0 \<le> a + c" using a(1) c(1) by (rule_tac add_nonneg_nonneg) (auto intro: order_trans [rotated])
  note fb = f64_bounds [OF this, folded f]
  show "85 / 100 * (1 - 1 / 2 ^ 51) \<le> f" using fb(1) a(1) c(1) by (simp add: field_simps)
  show "f \<le> 115 / 100 * (1 + 1 / 2 ^ 50)" using fb(2) a(2) c(2) b(2) by (simp add: field_simps)
qed

lemma jitter_bounds:
  assumes "0 \<le> u" "u \<le> 1" "0 < d" "d < 2 ^ 49"
  shows "85 * d - 200 \<le> 100 * jitter u d" "100 * jitter u d \<le> 115 * d + 100"
proof -
  define f where "f = fadd (f64 (1 - jitterFraction)) (fmul u (f64 (2 * jitterFraction)))"
  define D where "D = (of_int d :: rat)"
  have "(of_int d :: rat) < of_int (2 ^ 49)" using assms(4) by (simp only: of_int_less_iff)
  then have D: "0 < D" "D < 2 ^ 49" using assms(3) by (simp_all add: D_def)
  define g where "g = float64 d"
  have g: "D * (1 - 1 / 2 ^ 53) \<le> g" "g \<le> D * (1 + 1 / 2 ^ 53)"
    unfolding g_def float64_def D_def [symmetric]
    using f64_bounds [OF less_imp_le [OF D(1)]] by blast+
  have f: "85 / 100 * (1 - 1 / 2 ^ 51) \<le> f" "f \<le> 115 / 100 * (1 + 1 / 2 ^ 50)"
    using jitter_factor [OF assms(1,2)] by (simp_all add: f_def)
  have nn: "0 \<le> g" "0 \<le> f"
    using g(1) f(1) D by (auto intro: order_trans [rotated])
  have gf: "0 \<le> g * f" using nn by simp
  have lo: "D * (1 - 1 / 2 ^ 53) * (85 / 100 * (1 - 1 / 2 ^ 51)) \<le> g * f"
    using g(1) f(1) nn D by (intro mult_mono) auto
  have hi: "g * f \<le> D * (1 + 1 / 2 ^ 53) * (115 / 100 * (1 + 1 / 2 ^ 50))"
    using g(2) f(2) nn D by (intro mult_mono) auto
  define h where "h = fmul g f"
  have h: "g * f * (1 - 1 / 2 ^ 53) \<le> h" "h \<le> g * f * (1 + 1 / 2 ^ 53)"
    unfolding h_def fmul_def using gf by (rule f64_bounds)+
  have "0 \<le> h" using f64_nonneg [OF gf] by (simp add: h_def fmul_def)
  note t = trunc_bounds [OF this]
  have j: "jitter u d = trunc h"
    using assms(3) by (simp add: jitter_def Let_def h_def g_def f_def)
  have "85 / 100 * D - 1 \<le> h" using lo h(1) D by (simp add: field_simps)
  then have "85 * D - 200 \<le> 100 * of_int (jitter u d)" using t j by simp
  then have "of_int (85 * d - 200) \<le> (of_int (100 * jitter u d) :: rat)" by (simp add: D_def)
  then show "85 * d - 200 \<le> 100 * jitter u d" by (simp only: of_int_le_iff)
  have "h \<le> 115 / 100 * D + 1" using hi h(2) D by (simp add: field_simps)
  then have "of_int (100 * jitter u d) \<le> (of_int (115 * d + 100) :: rat)" using t j by (simp add: D_def)
  then show "100 * jitter u d \<le> 115 * d + 100" by (simp only: of_int_le_iff)
qed

subsection \<open>Properties\<close>

text \<open>
  A jittered delay stays within 15 percent of the delay, up to two nanoseconds of rounding and
  truncation, for every positive delay below six days and every random number of the unit
  interval; a delay that is not positive is left as it is.
\<close>

lemma jitter_within_fraction:
  assumes "0 \<le> u" "u \<le> 1" "d < 2 ^ 49"
  shows "if d \<le> 0 then jitter u d = d
         else 85 * d - 200 \<le> 100 * jitter u d \<and> 100 * jitter u d \<le> 115 * d + 100"
  using jitter_bounds [OF assms(1,2) _ assms(3)] by (simp add: jitter_def)

text \<open>
  Quiet hours: a configured window covers an hour of the day exactly when the hour is reached
  from the start hour before the end hour, counting hours forward around midnight; a window of
  width zero and a missing configuration are never active.
\<close>

lemma quiet_hours_window:
  assumes "0 \<le> StartHour q" "StartHour q \<le> 23" "0 \<le> EndHour q" "EndHour q \<le> 23"
    and "tz (Timezone q) = Some off" "Timezone q \<noteq> ''''"
  shows "QuietHours_Active tz (Some q) t \<longleftrightarrow>
    (Hour (off t) t - StartHour q) mod 24 < (EndHour q - StartHour q) mod 24"
proof -
  define h where "h = Hour (off t) t"
  have h: "0 \<le> h" "h \<le> 23" using Hour_range by (auto simp: h_def)
  have m: "(x - y) mod 24 = (if y \<le> x then x - y else x - y + 24)"
    if "0 \<le> x" "x \<le> 23" "0 \<le> y" "y \<le> 23" for x y :: int
    using that by (auto simp: mod_pos_pos_trivial intro: mod_add_self2 [THEN subst] split: if_splits)
      (smt (verit) mod_add_self2 mod_pos_pos_trivial)
  show ?thesis
    using assms h unfolding h_def [symmetric]
    by (auto simp: QuietHours_Active_def Let_def h_def [symmetric] m)
qed

end
