(* ===== verification/Batch.thy ===== *)
theory Batch
  imports Frame Envelope Schedule "HOL-Library.Monad_Syntax"
begin

text \<open>
  \<^verbatim>\<open>protocol/batch.go\<close>: the batcher that collects frames and sends them as compressed, sealed
  batches. The operations take the current time and the random numbers they draw as arguments.
  The zstd encoder and decoder are parameters \<open>enc\<close> and \<open>dec\<close>, the network is a parameter
  \<open>sendFn\<close> over a state of its own. \<^verbatim>\<open>flushRaw\<close> is a partial function, since its splitting need
  not end for an arbitrary encoder. A channel of capacity one that carries signals is a boolean,
  the two tokens of the send gate are token counts, and the pool of plaintext buffers is the list
  of their capacities.
\<close>

subsection \<open>Constants\<close>

definition FlushIdleTimeout :: duration where "FlushIdleTimeout = 250 * Millisecond"
definition MaxFlushDelay :: duration where "MaxFlushDelay = 1200 * Millisecond"
definition controlCoalesceWindow :: duration where "controlCoalesceWindow = 900 * Millisecond"
definition DataFlushThreshold :: nat where "DataFlushThreshold = 32 * 1024"
definition MaxBatchSize :: nat where "MaxBatchSize = 48 * 1024 * 1024"
definition MaxCompressedSize :: nat where "MaxCompressedSize = 19 * 1024 * 1024"
definition maxSendRetries :: nat where "maxSendRetries = 5"
definition initialRetryBackoff :: duration where "initialRetryBackoff = 1 * Second"
definition maxRetryBackoff :: duration where "maxRetryBackoff = 30 * Second"
definition batchBufPoolSlots :: nat where "batchBufPoolSlots = 4"
definition batchBufCap :: nat where "batchBufCap = 4 * 1024 * 1024"
definition shutdownFlushTimeout :: duration where "shutdownFlushTimeout = 10 * Second"
definition maxQueuedAndInFlightBytes :: int where "maxQueuedAndInFlightBytes = 4 * int MaxBatchSize"
definition admitPollInterval :: duration where "admitPollInterval = 10 * Millisecond"
definition admitTimeout :: duration where "admitTimeout = 20 * Second"

datatype compression_level = SpeedFastest | SpeedDefault | SpeedBetterCompression | SpeedBestCompression

definition ParseCompressionLevel :: "string \<Rightarrow> string + compression_level" where
  "ParseCompressionLevel s =
     (if s = '''' \<or> s = ''fastest'' then Inr SpeedFastest
      else if s = ''default'' then Inr SpeedDefault
      else if s = ''better'' then Inr SpeedBetterCompression
      else if s = ''best'' then Inr SpeedBestCompression
      else Inl s)"

subsection \<open>The batcher and its buffers\<close>

record batcher =
  buf :: bytes
  hasUrgent :: bool
  hasControlFrame :: bool
  seqNum :: "64 word"
  b_key :: bytes
  urgentTok :: nat
  sharedTok :: nat
  idleTimeout :: duration
  maxFlushDelay :: duration
  dataFlushThreshold :: nat
  batchStartedAt :: "time option"
  lastQueuedAt :: "time option"
  jitteredMaxFlushDelay :: duration
  quietHours :: "quiet_hours option"
  activityCh :: bool
  flushCh :: bool
  bytesPerSec :: int
  bytesSinceMeas :: int
  lastMeasureNS :: int
  bufPoolCh :: "nat list"
  inFlightBytes :: int

definition newBatcher ::
  "bytes \<Rightarrow> quiet_hours option \<Rightarrow> duration \<Rightarrow> duration \<Rightarrow> nat \<Rightarrow> batcher" where
  "newBatcher key qh idle maxDelay threshold =
     \<lparr>buf = [], hasUrgent = False, hasControlFrame = False, seqNum = 0, b_key = key,
      urgentTok = 1, sharedTok = 1, idleTimeout = idle, maxFlushDelay = maxDelay,
      dataFlushThreshold = threshold, batchStartedAt = None, lastQueuedAt = None,
      jitteredMaxFlushDelay = 0, quietHours = qh, activityCh = False, flushCh = False,
      bytesPerSec = 0, bytesSinceMeas = 0, lastMeasureNS = 0, bufPoolCh = [], inFlightBytes = 0\<rparr>"

definition NewBatcher :: "bytes \<Rightarrow> quiet_hours option \<Rightarrow> batcher" where
  "NewBatcher key qh = newBatcher key qh FlushIdleTimeout MaxFlushDelay DataFlushThreshold"

text \<open>\<^verbatim>\<open>getBuf\<close> gives the capacity of the buffer it hands out; \<^verbatim>\<open>putBuf\<close> is given it back.\<close>

definition getBuf :: "batcher \<Rightarrow> nat \<times> batcher" where
  "getBuf b =
     (case bufPoolCh b of
        c # rest \<Rightarrow> (c, b\<lparr>bufPoolCh := rest\<rparr>)
      | [] \<Rightarrow> (batchBufCap, b))"

definition putBuf :: "nat \<Rightarrow> batcher \<Rightarrow> batcher" where
  "putBuf c b =
     (if batchBufCap < c then b
      else if length (bufPoolCh b) < batchBufPoolSlots then b\<lparr>bufPoolCh := bufPoolCh b @ [c]\<rparr>
      else b)"

text \<open>
  The send gate. \<open>None\<close>: the call blocks, since neither token it may take is there. \<open>release\<close> is
  the function that \<^verbatim>\<open>acquireSlot\<close> returns.
\<close>

datatype slot = UrgentSlot | SharedSlot

definition acquireSlot :: "bool \<Rightarrow> batcher \<Rightarrow> (slot \<times> batcher) option" where
  "acquireSlot urgent b =
     (if urgent \<and> 0 < urgentTok b then Some (UrgentSlot, b\<lparr>urgentTok := urgentTok b - 1\<rparr>)
      else if 0 < sharedTok b then Some (SharedSlot, b\<lparr>sharedTok := sharedTok b - 1\<rparr>)
      else None)"

definition release :: "slot \<Rightarrow> batcher \<Rightarrow> batcher" where
  "release s b =
     (case s of
        UrgentSlot \<Rightarrow> b\<lparr>urgentTok := urgentTok b + 1\<rparr>
      | SharedSlot \<Rightarrow> b\<lparr>sharedTok := sharedTok b + 1\<rparr>)"

subsection \<open>Adding frames\<close>

definition isControlFrame :: "byte \<Rightarrow> bool" where
  "isControlFrame t \<longleftrightarrow> t \<noteq> TypeData"

text \<open>The condition that \<^verbatim>\<open>admitBytes\<close> polls.\<close>

definition admit_ok :: "batcher \<Rightarrow> nat \<Rightarrow> bool" where
  "admit_ok b n \<longleftrightarrow> int (length (buf b)) + inFlightBytes b + int n \<le> maxQueuedAndInFlightBytes"

text \<open>
  The polling loop of \<^verbatim>\<open>admitBytes\<close> over what it observes: one state of the batcher and one reading
  of the clock for every turn. \<open>None\<close>: it is still polling after these.
\<close>

fun admitBytes :: "nat \<Rightarrow> time \<Rightarrow> (batcher \<times> time) list \<Rightarrow> bool option" where
  "admitBytes n deadline [] = None"
| "admitBytes n deadline ((b, now) # polls) =
     (if admit_ok b n then Some True
      else if deadline < now then Some False
      else admitBytes n deadline polls)"

definition triggerFlush :: "batcher \<Rightarrow> batcher" where
  "triggerFlush b = b\<lparr>flushCh := True\<rparr>"

definition triggerActivity :: "batcher \<Rightarrow> batcher" where
  "triggerActivity b = b\<lparr>activityCh := True\<rparr>"

text \<open>
  \<^verbatim>\<open>Add\<close> after admission: the section under the lock, and the signal that follows it. \<open>u\<close> is the random
  number for the jitter.
\<close>

definition add_locked :: "rat \<Rightarrow> time \<Rightarrow> frame \<Rightarrow> bool \<Rightarrow> batcher \<Rightarrow> batcher" where
  "add_locked u now f urgent b =
     (let b1 = (if length (buf b) = 0
                then b\<lparr>batchStartedAt := Some now, jitteredMaxFlushDelay := jitter u (maxFlushDelay b)\<rparr>
                else b);
          b2 = b1\<lparr>lastQueuedAt := Some now, buf := buf b1 @ Frame_Marshal f\<rparr>;
          b3 = (if urgent then b2\<lparr>hasUrgent := True\<rparr> else b2)
      in if isControlFrame (FType f) then b3\<lparr>hasControlFrame := True\<rparr> else b3)"

definition should_flush :: "frame \<Rightarrow> batcher \<Rightarrow> bool" where
  "should_flush f b \<longleftrightarrow>
     MaxBatchSize \<le> length (buf b)
   \<or> FType f = TypeData \<and> 0 < dataFlushThreshold b \<and> dataFlushThreshold b \<le> length (buf b)"

definition add_signal :: "bool \<Rightarrow> batcher \<Rightarrow> batcher" where
  "add_signal flush b = (if flush then triggerFlush b else triggerActivity b)"

definition Add ::
  "(batcher \<times> time) list \<Rightarrow> time \<Rightarrow> rat \<Rightarrow> time \<Rightarrow> frame \<Rightarrow> bool \<Rightarrow> batcher \<Rightarrow> (bool \<times> batcher) option" where
  "Add polls start u now f urgent b =
     (case admitBytes (length (Frame_Marshal f)) (start + admitTimeout) polls of
        None \<Rightarrow> None
      | Some False \<Rightarrow> Some (False, b)
      | Some True \<Rightarrow>
          let b' = add_locked u now f urgent b
          in Some (True, add_signal (should_flush f b') b'))"

subsection \<open>Timers and throughput\<close>

definition batchState :: "batcher \<Rightarrow> (time option \<times> time option \<times> duration) option" where
  "batchState b =
     (if length (buf b) = 0 then None
      else Some (batchStartedAt b, lastQueuedAt b, jitteredMaxFlushDelay b))"

definition baseAdaptiveIdleTimeout :: "batcher \<Rightarrow> duration" where
  "baseAdaptiveIdleTimeout b =
     (if bytesPerSec b > 10 * 1024 * 1024 then 5 * Millisecond
      else if bytesPerSec b > 1 * 1024 * 1024 then 10 * Millisecond
      else if bytesPerSec b > 100 * 1024 then 15 * Millisecond
      else if hasControlFrame b then controlCoalesceWindow
      else idleTimeout b)"

definition adaptiveIdleTimeout :: "tz_database \<Rightarrow> time \<Rightarrow> batcher \<Rightarrow> duration" where
  "adaptiveIdleTimeout tz now b =
     (let base = baseAdaptiveIdleTimeout b
      in if QuietHours_Active tz (quietHours b) now then trunc (fmul (float64 base) QuietHoursMultiplier)
         else base)"

definition updateBytesPerSec :: "time \<Rightarrow> int \<Rightarrow> batcher \<Rightarrow> batcher" where
  "updateBytesPerSec now newBytes b =
     (let b1 = b\<lparr>bytesSinceMeas := int64 (bytesSinceMeas b + newBytes)\<rparr>;
          interval = int64 (now - lastMeasureNS b1)
      in if Second \<le> interval then
           let measured = bytesSinceMeas b1;
               b2 = b1\<lparr>lastMeasureNS := now, bytesSinceMeas := 0\<rparr>
           in if 0 < interval then b2\<lparr>bytesPerSec := quot64 (int64 (measured * Second)) interval\<rparr> else b2
         else b1)"

definition BytesPerSec :: "batcher \<Rightarrow> int" where
  "BytesPerSec b = bytesPerSec b"

subsection \<open>Flushing\<close>

text \<open>
  A flush in two parts: what happens under the lock, which takes the buffer, and the bookkeeping
  that mints the sequence number and counts the bytes as in flight. \<open>grow\<close> is the runtime's choice
  of a new capacity when \<^verbatim>\<open>append\<close> has to reallocate. The goroutine that \<^verbatim>\<open>Flush\<close> starts is a
  \<open>flush_job\<close>.
\<close>

record flush_job =
  j_seq :: "64 word"
  j_raw :: bytes
  j_urgent :: bool
  j_cap :: nat

definition append_cap :: "(nat \<Rightarrow> nat \<Rightarrow> nat) \<Rightarrow> nat \<Rightarrow> nat \<Rightarrow> nat" where
  "append_cap grow c n = (if n \<le> c then c else grow c n)"

definition flush_take :: "(nat \<Rightarrow> nat \<Rightarrow> nat) \<Rightarrow> batcher \<Rightarrow> ((bytes \<times> bool \<times> nat) \<times> batcher) option" where
  "flush_take grow b =
     (if length (buf b) = 0 then None
      else let (c, b1) = getBuf b
           in Some ((buf b, hasUrgent b, append_cap grow c (length (buf b))),
                b1\<lparr>buf := [], batchStartedAt := None, lastQueuedAt := None,
                   hasUrgent := False, hasControlFrame := False\<rparr>))"

definition flush_account :: "time \<Rightarrow> bytes \<times> bool \<times> nat \<Rightarrow> batcher \<Rightarrow> flush_job \<times> batcher" where
  "flush_account now t b =
     (case t of (raw, urgent, c) \<Rightarrow>
        let seq = seqNum b + 1;
            b1 = updateBytesPerSec now (int (length raw)) (b\<lparr>seqNum := seq\<rparr>);
            b2 = b1\<lparr>inFlightBytes := inFlightBytes b1 + int (length raw)\<rparr>
        in (\<lparr>j_seq = seq, j_raw = raw, j_urgent = urgent, j_cap = c\<rparr>, b2))"

definition Flush :: "(nat \<Rightarrow> nat \<Rightarrow> nat) \<Rightarrow> time \<Rightarrow> batcher \<Rightarrow> flush_job option \<times> batcher" where
  "Flush grow now b =
     (case flush_take grow b of
        None \<Rightarrow> (None, b)
      | Some (t, b1) \<Rightarrow> let (j, b2) = flush_account now t b1 in (Some j, b2))"

text \<open>The end of the goroutine, once \<^verbatim>\<open>flushRaw\<close> has returned.\<close>

definition job_done :: "flush_job \<Rightarrow> batcher \<Rightarrow> batcher" where
  "job_done j b =
     (let b1 = putBuf (j_cap j) b
      in b1\<lparr>inFlightBytes := inFlightBytes b1 - int (length (j_raw j))\<rparr>)"

text \<open>
  \<^verbatim>\<open>flushRaw\<close> up to the send: the envelopes it produces in order, each with its sequence number, or
  the error that makes it drop a piece. \<open>rnd seq\<close> is the nonce drawn for batch \<open>seq\<close>. The counter
  of sequence numbers is threaded through.
\<close>

partial_function (option) flushRaw ::
  "(bytes \<Rightarrow> bytes) \<Rightarrow> (64 word \<Rightarrow> bytes option) \<Rightarrow> bytes \<Rightarrow> 64 word \<Rightarrow> bytes \<Rightarrow> 64 word
    \<Rightarrow> ((64 word \<times> (envelope_error + bytes)) list \<times> 64 word) option" where
  "flushRaw enc rnd key seq raw ctr =
     (let compressed = enc raw
      in if MaxCompressedSize < length compressed then
           let mid = length raw div 2
           in do {
             (ps1, ctr1) \<leftarrow> flushRaw enc rnd key seq (take mid raw) ctr;
             (ps2, ctr2) \<leftarrow> flushRaw enc rnd key (ctr1 + 1) (drop mid raw) (ctr1 + 1);
             Some (ps1 @ ps2, ctr2)
           }
         else Some ([(seq, SealEnvelope key (rnd seq) compressed)], ctr))"

text \<open>
  \<^verbatim>\<open>sendWithRetry\<close>: the outcome, the sleeps between the attempts and the state of the network.
\<close>

datatype send_outcome = Sent | DroppedPermanent go_error | DroppedRetries

function send_attempts ::
  "(64 word \<Rightarrow> bytes \<Rightarrow> bool \<Rightarrow> 's \<Rightarrow> go_error option \<times> 's) \<Rightarrow> 64 word \<Rightarrow> bytes \<Rightarrow> bool
    \<Rightarrow> nat \<Rightarrow> duration \<Rightarrow> 's \<Rightarrow> send_outcome \<times> duration list \<times> 's" where
  "send_attempts sendFn seq data urgent attempt backoff s =
     (if maxSendRetries < attempt then (DroppedRetries, [], s)
      else case sendFn seq data urgent s of
        (None, s') \<Rightarrow> (Sent, [], s')
      | (Some e, s') \<Rightarrow>
          if isPermanentError e then (DroppedPermanent e, [], s')
          else if attempt < maxSendRetries then
            let (r, sleeps, s'') =
              send_attempts sendFn seq data urgent (attempt + 1) (min (backoff * 2) maxRetryBackoff) s'
            in (r, backoff # sleeps, s'')
          else send_attempts sendFn seq data urgent (attempt + 1) backoff s')"
  by pat_completeness auto
termination
  by (relation "measure (\<lambda>(_, _, _, _, attempt, _, _). Suc maxSendRetries - attempt)") auto

definition sendWithRetry ::
  "(64 word \<Rightarrow> bytes \<Rightarrow> bool \<Rightarrow> 's \<Rightarrow> go_error option \<times> 's) \<Rightarrow> 64 word \<Rightarrow> bytes \<Rightarrow> bool
    \<Rightarrow> 's \<Rightarrow> send_outcome \<times> duration list \<times> 's" where
  "sendWithRetry sendFn seq data urgent s =
     send_attempts sendFn seq data urgent 0 initialRetryBackoff s"

subsection \<open>Receiving\<close>

datatype batch_error = ZstdDecode | FrameErr frame_error

definition DecompressBatch :: "(bytes \<Rightarrow> bytes option) \<Rightarrow> bytes \<Rightarrow> batch_error + frame list" where
  "DecompressBatch dec data =
     (case dec data of
        None \<Rightarrow> Inl ZstdDecode
      | Some raw \<Rightarrow> (case ReadFrames raw of Inl e \<Rightarrow> Inl (FrameErr e) | Inr fs \<Rightarrow> Inr fs))"

subsection \<open>What a batch holds\<close>

text \<open>A run of additions that were all admitted, each with its time, random number and urgency.\<close>

fun add_all :: "(rat \<times> time \<times> frame \<times> bool) list \<Rightarrow> batcher \<Rightarrow> batcher" where
  "add_all [] b = b"
| "add_all ((u, now, f, urgent) # adds) b =
     (let b' = add_locked u now f urgent b
      in add_all adds (add_signal (should_flush f b') b'))"

lemma add_locked_simps [simp]:
  "buf (add_locked u now f urgent b) = buf b @ Frame_Marshal f"
  "hasUrgent (add_locked u now f urgent b) \<longleftrightarrow> hasUrgent b \<or> urgent"
  "hasControlFrame (add_locked u now f urgent b) \<longleftrightarrow> hasControlFrame b \<or> isControlFrame (FType f)"
  "lastQueuedAt (add_locked u now f urgent b) = Some now"
  "batchStartedAt (add_locked u now f urgent b) =
     (if buf b = [] then Some now else batchStartedAt b)"
  "jitteredMaxFlushDelay (add_locked u now f urgent b) =
     (if buf b = [] then jitter u (maxFlushDelay b) else jitteredMaxFlushDelay b)"
  "inFlightBytes (add_locked u now f urgent b) = inFlightBytes b"
  "activityCh (add_locked u now f urgent b) = activityCh b"
  "flushCh (add_locked u now f urgent b) = flushCh b"
  "maxFlushDelay (add_locked u now f urgent b) = maxFlushDelay b"
  "bufPoolCh (add_locked u now f urgent b) = bufPoolCh b"
  "seqNum (add_locked u now f urgent b) = seqNum b"
  "b_key (add_locked u now f urgent b) = b_key b"
  by (auto simp: add_locked_def Let_def)

lemma add_signal_simps [simp]:
  "buf (add_signal fl b) = buf b" "hasUrgent (add_signal fl b) = hasUrgent b"
  "hasControlFrame (add_signal fl b) = hasControlFrame b"
  "lastQueuedAt (add_signal fl b) = lastQueuedAt b" "batchStartedAt (add_signal fl b) = batchStartedAt b"
  "jitteredMaxFlushDelay (add_signal fl b) = jitteredMaxFlushDelay b"
  "inFlightBytes (add_signal fl b) = inFlightBytes b" "maxFlushDelay (add_signal fl b) = maxFlushDelay b"
  "activityCh (add_signal fl b) \<longleftrightarrow> activityCh b \<or> \<not> fl" "flushCh (add_signal fl b) \<longleftrightarrow> flushCh b \<or> fl"
  "bufPoolCh (add_signal fl b) = bufPoolCh b" "seqNum (add_signal fl b) = seqNum b"
  "b_key (add_signal fl b) = b_key b"
  by (simp_all add: add_signal_def triggerFlush_def triggerActivity_def)

abbreviation added :: "(rat \<times> time \<times> frame \<times> bool) list \<Rightarrow> frame list" where
  "added adds \<equiv> map (\<lambda>(u, now, f, urgent). f) adds"

lemma add_all_simps [simp]:
  "buf (add_all adds b) = buf b @ concat (map Frame_Marshal (added adds))"
  "hasUrgent (add_all adds b) \<longleftrightarrow> hasUrgent b \<or> (\<exists>(u, now, f, urgent) \<in> set adds. urgent)"
  "seqNum (add_all adds b) = seqNum b" "b_key (add_all adds b) = b_key b"
  by (induction adds b rule: add_all.induct) (auto simp: Let_def)

lemma updateBytesPerSec_simps [simp]:
  "buf (updateBytesPerSec now n b) = buf b" "inFlightBytes (updateBytesPerSec now n b) = inFlightBytes b"
  "seqNum (updateBytesPerSec now n b) = seqNum b" "bufPoolCh (updateBytesPerSec now n b) = bufPoolCh b"
  "activityCh (updateBytesPerSec now n b) = activityCh b" "flushCh (updateBytesPerSec now n b) = flushCh b"
  "batchStartedAt (updateBytesPerSec now n b) = batchStartedAt b"
  "lastQueuedAt (updateBytesPerSec now n b) = lastQueuedAt b"
  "jitteredMaxFlushDelay (updateBytesPerSec now n b) = jitteredMaxFlushDelay b"
  "maxFlushDelay (updateBytesPerSec now n b) = maxFlushDelay b" "b_key (updateBytesPerSec now n b) = b_key b"
  "hasUrgent (updateBytesPerSec now n b) = hasUrgent b"
  by (simp_all add: updateBytesPerSec_def Let_def)

lemma getBuf_simps [simp]:
  "buf (snd (getBuf b)) = buf b" "inFlightBytes (snd (getBuf b)) = inFlightBytes b"
  "seqNum (snd (getBuf b)) = seqNum b" "b_key (snd (getBuf b)) = b_key b"
  "activityCh (snd (getBuf b)) = activityCh b" "flushCh (snd (getBuf b)) = flushCh b"
  "maxFlushDelay (snd (getBuf b)) = maxFlushDelay b"
  by (simp_all add: getBuf_def split: list.split)

lemma putBuf_simps [simp]:
  "buf (putBuf c b) = buf b" "inFlightBytes (putBuf c b) = inFlightBytes b"
  "activityCh (putBuf c b) = activityCh b" "flushCh (putBuf c b) = flushCh b"
  "batchStartedAt (putBuf c b) = batchStartedAt b" "maxFlushDelay (putBuf c b) = maxFlushDelay b"
  "jitteredMaxFlushDelay (putBuf c b) = jitteredMaxFlushDelay b"
  by (simp_all add: putBuf_def)

lemma job_done_simps [simp]:
  "buf (job_done j b) = buf b" "inFlightBytes (job_done j b) = inFlightBytes b - int (length (j_raw j))"
  "activityCh (job_done j b) = activityCh b" "flushCh (job_done j b) = flushCh b"
  "batchStartedAt (job_done j b) = batchStartedAt b" "maxFlushDelay (job_done j b) = maxFlushDelay b"
  "jitteredMaxFlushDelay (job_done j b) = jitteredMaxFlushDelay b"
  by (simp_all add: job_done_def Let_def)

lemma Flush_nonempty:
  assumes "buf b \<noteq> []"
  shows "\<exists>j b'. Flush grow now b = (Some j, b') \<and> j_raw j = buf b \<and> j_seq j = seqNum b + 1
    \<and> j_urgent j = hasUrgent b \<and> buf b' = [] \<and> seqNum b' = seqNum b + 1 \<and> \<not> hasUrgent b'
    \<and> inFlightBytes b' = inFlightBytes b + int (length (buf b)) \<and> b_key b' = b_key b"
  using assms
  by (auto simp: Flush_def flush_take_def flush_account_def Let_def split: prod.split)
    (metis getBuf_simps snd_conv)+

subsection \<open>Splitting\<close>

text \<open>The sequence numbers of the pieces: the batch's own, then freshly minted ones.\<close>

definition piece_seqs :: "64 word \<Rightarrow> 64 word \<Rightarrow> nat \<Rightarrow> 64 word list" where
  "piece_seqs seq ctr n = seq # map (\<lambda>i. ctr + of_nat (Suc i)) [0..<n]"

lemma length_piece_seqs [simp]: "length (piece_seqs seq ctr n) = Suc n"
  by (simp add: piece_seqs_def)

lemma piece_seqs_append:
  "piece_seqs seq ctr m @ piece_seqs (ctr + of_nat m + 1) (ctr + of_nat m + 1) n
   = piece_seqs seq ctr (Suc (m + n))"
proof -
  let ?f = "\<lambda>i. ctr + of_nat (Suc i)"
  have "[0..<Suc (m + n)] = [0..<m] @ [m..<Suc (m + n)]"
    by (simp add: upt_add_eq_append [of 0 m "Suc n", simplified])
  also have "[m..<Suc (m + n)] = m # map (\<lambda>i. i + Suc m) [0..<n]"
    by (rule nth_equalityI) (auto simp: nth_Cons simp del: upt_Suc split: nat.split)
  finally have "map ?f [0..<Suc (m + n)] = map ?f [0..<m] @ ?f m # map (\<lambda>i. ?f (i + Suc m)) [0..<n]"
    by (simp add: comp_def)
  then show ?thesis by (simp add: piece_seqs_def algebra_simps)
qed

text \<open>\<open>chunking\<close> relates a run of \<^verbatim>\<open>flushRaw\<close> to the chunks it cut the batch into.\<close>

definition chunking ::
  "(bytes \<Rightarrow> bytes) \<Rightarrow> (64 word \<Rightarrow> bytes option) \<Rightarrow> bytes \<Rightarrow> 64 word \<Rightarrow> bytes \<Rightarrow> 64 word
    \<Rightarrow> bytes list \<Rightarrow> (64 word \<times> (envelope_error + bytes)) list \<times> 64 word \<Rightarrow> bool" where
  "chunking enc rnd key seq raw ctr cs r \<longleftrightarrow>
     cs \<noteq> [] \<and> concat cs = raw \<and> (\<forall>c \<in> set cs. length (enc c) \<le> MaxCompressedSize)
     \<and> r = (map (\<lambda>(s, c). (s, SealEnvelope key (rnd s) (enc c)))
              (zip (piece_seqs seq ctr (length cs - 1)) cs),
            ctr + of_nat (length cs - 1))"

lemma chunking_split:
  assumes "chunking enc rnd key seq xs ctr cs1 (ps1, ctr1)"
    and "chunking enc rnd key (ctr1 + 1) ys (ctr1 + 1) cs2 (ps2, ctr2)"
  shows "chunking enc rnd key seq (xs @ ys) ctr (cs1 @ cs2) (ps1 @ ps2, ctr2)"
proof -
  obtain m where m: "length cs1 = Suc m" using assms(1) by (cases cs1) (auto simp: chunking_def)
  obtain n where n: "length cs2 = Suc n" using assms(2) by (cases cs2) (auto simp: chunking_def)
  have c1: "ctr1 = ctr + of_nat m" using assms(1) m by (simp add: chunking_def)
  have "zip (piece_seqs seq ctr (Suc (m + n))) (cs1 @ cs2) =
      zip (piece_seqs seq ctr m) cs1 @ zip (piece_seqs (ctr1 + 1) (ctr1 + 1) n) cs2"
    using m n by (simp add: c1 piece_seqs_append [symmetric])
  with assms m n show ?thesis
    by (auto simp: chunking_def c1 algebra_simps)
qed

lemma flushRaw_fits:
  "length (enc raw) \<le> MaxCompressedSize \<Longrightarrow>
   flushRaw enc rnd key seq raw ctr = Some ([(seq, SealEnvelope key (rnd seq) (enc raw))], ctr)"
  by (simp add: flushRaw.simps Let_def)

lemma flushRaw_chunking:
  assumes small: "\<forall>x. length x \<le> 1 \<longrightarrow> length (enc x) \<le> MaxCompressedSize"
  shows "\<exists>cs r. flushRaw enc rnd key seq raw ctr = Some r \<and> chunking enc rnd key seq raw ctr cs r"
proof (induction "length raw" arbitrary: raw seq ctr rule: less_induct)
  case less
  show ?case
  proof (cases "length (enc raw) \<le> MaxCompressedSize")
    case True
    have "chunking enc rnd key seq raw ctr [raw] ([(seq, SealEnvelope key (rnd seq) (enc raw))], ctr)"
      using True by (simp add: chunking_def piece_seqs_def)
    with flushRaw_fits [of enc raw, OF True] show ?thesis by blast
  next
    case False
    let ?mid = "length raw div 2"
    have len: "1 < length raw" using small False by (meson not_le)
    obtain cs1 ps1 ctr1 where 1: "flushRaw enc rnd key seq (take ?mid raw) ctr = Some (ps1, ctr1)"
        "chunking enc rnd key seq (take ?mid raw) ctr cs1 (ps1, ctr1)"
      using less [of "take ?mid raw" seq ctr] len by fastforce
    obtain cs2 ps2 ctr2 where 2: "flushRaw enc rnd key (ctr1 + 1) (drop ?mid raw) (ctr1 + 1) = Some (ps2, ctr2)"
        "chunking enc rnd key (ctr1 + 1) (drop ?mid raw) (ctr1 + 1) cs2 (ps2, ctr2)"
      using less [of "drop ?mid raw" "ctr1 + 1" "ctr1 + 1"] len by fastforce
    have "flushRaw enc rnd key seq raw ctr = Some (ps1 @ ps2, ctr2)"
      using False 1(1) 2(1) by (subst flushRaw.simps) (simp add: Let_def)
    with chunking_split [OF 1(2) 2(2)] show ?thesis by fastforce
  qed
qed

subsection \<open>The retry loop\<close>

text \<open>
  The network as one send of the batch sees it: its state before the \<open>k\<close>-th call and the answer
  of that call.
\<close>

definition net_state ::
  "(64 word \<Rightarrow> bytes \<Rightarrow> bool \<Rightarrow> 's \<Rightarrow> go_error option \<times> 's) \<Rightarrow> 64 word \<Rightarrow> bytes \<Rightarrow> bool \<Rightarrow> 's \<Rightarrow> nat \<Rightarrow> 's" where
  "net_state sendFn seq data urgent s k = ((\<lambda>s. snd (sendFn seq data urgent s)) ^^ k) s"

definition answer ::
  "(64 word \<Rightarrow> bytes \<Rightarrow> bool \<Rightarrow> 's \<Rightarrow> go_error option \<times> 's) \<Rightarrow> 64 word \<Rightarrow> bytes \<Rightarrow> bool \<Rightarrow> 's \<Rightarrow> nat \<Rightarrow> go_error option" where
  "answer sendFn seq data urgent s k = fst (sendFn seq data urgent (net_state sendFn seq data urgent s k))"

definition transient :: "go_error option \<Rightarrow> bool" where
  "transient r \<longleftrightarrow> (case r of None \<Rightarrow> False | Some e \<Rightarrow> \<not> isPermanentError e)"

definition outcome_of :: "go_error option \<Rightarrow> send_outcome" where
  "outcome_of r =
     (case r of None \<Rightarrow> Sent | Some e \<Rightarrow> if isPermanentError e then DroppedPermanent e else DroppedRetries)"

fun backoffs :: "nat \<Rightarrow> duration \<Rightarrow> duration list" where
  "backoffs 0 d = []"
| "backoffs (Suc n) d = d # backoffs n (min (d * 2) maxRetryBackoff)"

lemma net_Suc:
  "net_state sendFn seq data urgent s (Suc k) =
     net_state sendFn seq data urgent (snd (sendFn seq data urgent s)) k"
  "answer sendFn seq data urgent s (Suc k) =
     answer sendFn seq data urgent (snd (sendFn seq data urgent s)) k"
  by (simp_all add: net_state_def answer_def funpow_Suc_right del: funpow.simps)

lemma net_0 [simp]:
  "net_state sendFn seq data urgent s 0 = s"
  "answer sendFn seq data urgent s 0 = fst (sendFn seq data urgent s)"
  by (simp_all add: net_state_def answer_def)

declare send_attempts.simps [simp del]

lemma send_attempts_run:
  assumes "attempt \<le> maxSendRetries"
  shows "\<exists>n \<le> maxSendRetries - attempt.
    (\<forall>k < n. transient (answer sendFn seq data urgent s k))
    \<and> (transient (answer sendFn seq data urgent s n) \<longrightarrow> n = maxSendRetries - attempt)
    \<and> send_attempts sendFn seq data urgent attempt backoff s =
        (outcome_of (answer sendFn seq data urgent s n), backoffs n backoff,
         net_state sendFn seq data urgent s (Suc n))"
  using assms
proof (induction "maxSendRetries - attempt" arbitrary: attempt backoff s)
  case 0
  then have a: "attempt = maxSendRetries" by simp
  obtain r s' where r: "sendFn seq data urgent s = (r, s')" by (cases "sendFn seq data urgent s")
  have "send_attempts sendFn seq data urgent attempt backoff s = (outcome_of r, [], s')"
    unfolding send_attempts.simps [of _ _ _ _ attempt] send_attempts.simps [of _ _ _ _ "attempt + 1"]
    by (simp add: a r outcome_of_def split: option.split)
  then show ?case using a r by (intro exI [of _ 0]) (simp add: net_Suc)
next
  case (Suc d)
  obtain r s' where r: "sendFn seq data urgent s = (r, s')" by (cases "sendFn seq data urgent s")
  have lt: "attempt < maxSendRetries" using Suc.hyps(2) by simp
  show ?case
  proof (cases "transient r")
    case False
    then have "send_attempts sendFn seq data urgent attempt backoff s = (outcome_of r, [], s')"
      unfolding send_attempts.simps [of _ _ _ _ attempt] using lt
      by (auto simp: r outcome_of_def transient_def split: option.split)
    then show ?thesis using r False by (intro exI [of _ 0]) (simp add: net_Suc)
  next
    case True
    then obtain e where e: "r = Some e" "\<not> isPermanentError e"
      by (auto simp: transient_def split: option.splits)
    let ?b = "min (backoff * 2) maxRetryBackoff"
    have d: "d = maxSendRetries - (attempt + 1)" "attempt + 1 \<le> maxSendRetries"
      using Suc.hyps(2) lt by simp_all
    obtain n where
      n: "n \<le> maxSendRetries - (attempt + 1)"
        "\<forall>k < n. transient (answer sendFn seq data urgent s' k)"
        "transient (answer sendFn seq data urgent s' n) \<longrightarrow> n = maxSendRetries - (attempt + 1)"
        "send_attempts sendFn seq data urgent (attempt + 1) ?b s' =
           (outcome_of (answer sendFn seq data urgent s' n), backoffs n ?b,
            net_state sendFn seq data urgent s' (Suc n))"
      using Suc.hyps(1) [OF d, of s' ?b] by blast
    have "send_attempts sendFn seq data urgent attempt backoff s =
        (outcome_of (answer sendFn seq data urgent s' n), backoff # backoffs n ?b,
         net_state sendFn seq data urgent s' (Suc n))"
      unfolding send_attempts.simps [of _ _ _ _ attempt] using lt e n(4)
      by (simp add: r)
    moreover have "\<forall>k < Suc n. transient (answer sendFn seq data urgent s k)"
      using n(2) True r by (auto simp: less_Suc_eq_0_disj net_Suc)
    ultimately show ?thesis
      using n(1,3) lt r by (intro exI [of _ "Suc n"]) (simp add: net_Suc(1) [of _ _ _ _ s] net_Suc(2) [of _ _ _ _ s], linarith)
  qed
qed

subsection \<open>Properties\<close>

text \<open>
  C6. A batch survives the wire: the frames that were added between two flushes, in their order,
  are exactly what the receiver decodes from the envelope that the flush sends, provided the zstd
  decoder inverts the encoder, every payload fits the length field and the compressed batch stays
  under the size limit. The batch gets the next sequence number and is urgent exactly when one of
  its frames was.
\<close>

theorem batch_roundtrip:
  assumes zstd: "\<forall>x. dec (enc x) = Some x"
    and "buf b = []" "\<not> hasUrgent b" "adds \<noteq> []" "length (b_key b) = keyLen"
    and nonce: "rnd (seqNum b + 1) = Some nonce" "length nonce = nonceLen"
    and fit: "\<forall>f \<in> set (added adds). length (Payload f) < 2 ^ 24"
    and small: "length (enc (concat (map Frame_Marshal (added adds)))) \<le> MaxCompressedSize"
  shows "\<exists>j b' sealed compressed. Flush grow now (add_all adds b) = (Some j, b') \<and> buf b' = []
    \<and> j_seq j = seqNum b + 1 \<and> (j_urgent j \<longleftrightarrow> (\<exists>(u, now, f, urgent) \<in> set adds. urgent))
    \<and> flushRaw enc rnd (b_key b) (j_seq j) (j_raw j) (seqNum b') = Some ([(j_seq j, Inr sealed)], seqNum b')
    \<and> OpenEnvelope (b_key b) sealed = Inr (Some compressed)
    \<and> DecompressBatch dec compressed = Inr (added adds)"
proof -
  let ?raw = "concat (map Frame_Marshal (added adds))"
  let ?b = "add_all adds b"
  have "?raw \<noteq> []" using assms(4) by (cases adds) (auto simp: Frame_Marshal_header frame_header_def)
  then have "buf ?b \<noteq> []" using assms(2) by simp
  from Flush_nonempty [OF this, of grow now] obtain j b' where
    j': "Flush grow now ?b = (Some j, b')" "j_raw j = buf ?b" "j_seq j = seqNum ?b + 1" "buf b' = []"
       "j_urgent j = hasUrgent ?b"
    by blast
  have j: "Flush grow now ?b = (Some j, b')" "j_raw j = ?raw" "j_seq j = seqNum b + 1" "buf b' = []"
       "j_urgent j = hasUrgent ?b"
    using j' assms(2) by simp_all
  let ?sealed = "seal_layout (gcm_Seal (b_key b)) nonce (enc ?raw)"
  have "flushRaw enc rnd (b_key b) (j_seq j) (j_raw j) (seqNum b') = Some ([(j_seq j, Inr ?sealed)], seqNum b')"
    using flushRaw_fits [of enc ?raw rnd "b_key b", OF small] nonce assms(5)
    by (simp add: j SealEnvelope_key)
  moreover have "OpenEnvelope (b_key b) ?sealed = Inr (Some (enc ?raw))"
    using OpenEnvelope_seal_layout [OF assms(5) nonce(2)] .
  moreover have "DecompressBatch dec (enc ?raw) = Inr (added adds)"
    using zstd frames.loop_enc [of "added adds"] fit by (simp add: DecompressBatch_def fits_def list_all_iff)
  ultimately show ?thesis using j assms(3) by auto
qed

theorem batch_roundtrip_witness:
  "let f = \<lparr>FType = TypeConnect, ConnID = 1, SeqNum = 0, Payload = [1, 2]\<rparr>;
       b = NewBatcher (replicate 32 5) None
   in \<exists>j b' sealed compressed. Flush (\<lambda>c n. n) 9 (add_all [(0, 3, f, True)] b) = (Some j, b') \<and> buf b' = []
    \<and> j_seq j = 1 \<and> j_urgent j
    \<and> flushRaw id (\<lambda>_. Some (replicate 12 1)) (b_key b) (j_seq j) (j_raw j) (seqNum b') = Some ([(j_seq j, Inr sealed)], seqNum b')
    \<and> OpenEnvelope (b_key b) sealed = Inr (Some compressed) \<and> DecompressBatch Some compressed = Inr [f]"
proof -
  define f where "f = \<lparr>FType = TypeConnect, ConnID = 1, SeqNum = 0, Payload = [1, 2 :: byte]\<rparr>"
  define b where "b = NewBatcher (replicate 32 5) None"
  have b: "buf b = []" "\<not> hasUrgent b" "length (b_key b) = keyLen" "seqNum b = 0"
    by (simp_all add: b_def NewBatcher_def newBatcher_def keyLen_def)
  have "length (Frame_Marshal f) \<le> MaxCompressedSize" "length (Payload f) < 2 ^ 24"
    by (simp_all add: f_def Frame_Marshal_header frame_header_def put_len24_def MaxCompressedSize_def)
  then show ?thesis
    using batch_roundtrip [of Some id b "[(0, 3, f, True)]" "\<lambda>_. Some (replicate 12 1)" "replicate 12 1"
        "\<lambda>c n. n" 9] b
    unfolding Let_def f_def [symmetric] b_def [symmetric] by (simp add: nonceLen_def)
qed





text \<open>
  C25. The retry loop: a batch is offered to the network at most six times, always with the same
  sequence number and bytes, and the calls stop at the first answer that is not a transient
  error. The outcome is \<open>Sent\<close> exactly when the last call succeeded, a permanent error drops the
  batch at once, and the sleeps between the calls double from one second.
\<close>

theorem send_with_retry:
  "\<exists>n \<le> 5. (\<forall>k < n. transient (answer sendFn seq data urgent s k))
    \<and> (transient (answer sendFn seq data urgent s n) \<longrightarrow> n = 5)
    \<and> sendWithRetry sendFn seq data urgent s =
        (outcome_of (answer sendFn seq data urgent s n),
         take n [1 * Second, 2 * Second, 4 * Second, 8 * Second, 16 * Second],
         net_state sendFn seq data urgent s (Suc n))"
proof -
  obtain n where n: "n \<le> 5" "\<forall>k < n. transient (answer sendFn seq data urgent s k)"
      "transient (answer sendFn seq data urgent s n) \<longrightarrow> n = 5"
      "sendWithRetry sendFn seq data urgent s =
        (outcome_of (answer sendFn seq data urgent s n), backoffs n initialRetryBackoff,
         net_state sendFn seq data urgent s (Suc n))"
    using send_attempts_run [of 0 sendFn seq data urgent s initialRetryBackoff]
    by (auto simp: maxSendRetries_def sendWithRetry_def)
  have "n \<in> {0, 1, 2, 3, 4, 5}" using n(1) by auto
  then have "backoffs n initialRetryBackoff =
      take n [1 * Second, 2 * Second, 4 * Second, 8 * Second, 16 * Second]"
    by (auto simp: eval_nat_numeral initialRetryBackoff_def maxRetryBackoff_def)
  with n show ?thesis by auto
qed

theorem send_with_retry_witness:
  "sendWithRetry (\<lambda>_ _ _ s. (if s < 2 then Some (PlainError ''timeout'') else None, s + 1)) 4 [7] True (0 :: nat)
   = (Sent, [1 * Second, 2 * Second], 3)"
proof -
  define net where
    "net = (\<lambda>(_ :: 64 word) (_ :: bytes) (_ :: bool) s. (if s < 2 then Some (PlainError ''timeout'') else None, s + (1 :: nat)))"
  have st: "net_state net 4 [7] True 0 k = k" for k
    by (induction k) (simp_all add: net_state_def net_def)
  have tr: "transient (answer net 4 [7] True 0 k) \<longleftrightarrow> k < 2" for k
    by (simp add: answer_def st) (simp add: net_def transient_def)
  obtain n where n: "\<forall>k < n. k < (2 :: nat)" "n < 2 \<longrightarrow> n = 5" "sendWithRetry net 4 [7] True 0 =
        (outcome_of (answer net 4 [7] True 0 n),
         take n [1 * Second, 2 * Second, 4 * Second, 8 * Second, 16 * Second], Suc n)"
    using send_with_retry [of net 4 "[7]" True 0] by (auto simp: tr st)
  have "n = 2"
  proof (rule antisym)
    show "n \<le> 2" using n(1) by (metis less_irrefl not_le)
    show "2 \<le> n" using n(2) by linarith
  qed
  moreover have "answer net 4 [7] True 0 2 = None" by (simp add: answer_def st) (simp add: net_def)
  ultimately have "sendWithRetry net 4 [7] True 0 = (Sent, [1 * Second, 2 * Second], 3)"
    using n(3) by (simp add: outcome_of_def)
  then show ?thesis unfolding net_def by simp
qed

subsection \<open>The send gate\<close>

text \<open>The sends in progress, each with its urgency and the slot it holds.\<close>

inductive gate_reach :: "batcher \<Rightarrow> (bool \<times> slot) list \<Rightarrow> bool" where
  Gate_init: "gate_reach (NewBatcher key qh) []"
| Gate_acquire: "gate_reach b hs \<Longrightarrow> acquireSlot urgent b = Some (sl, b') \<Longrightarrow> gate_reach b' ((urgent, sl) # hs)"
| Gate_release: "gate_reach b (hs @ (urgent, sl) # hs') \<Longrightarrow> gate_reach (release sl b) (hs @ hs')"

definition holders :: "slot \<Rightarrow> (bool \<times> slot) list \<Rightarrow> nat" where
  "holders sl hs = length (filter (\<lambda>h. snd h = sl) hs)"

lemma holders_simps [simp]:
  "holders sl [] = 0" "holders sl (h # hs) = (if snd h = sl then 1 else 0) + holders sl hs"
  "holders sl (hs @ hs') = holders sl hs + holders sl hs'"
  by (simp_all add: holders_def)

lemma not_UrgentSlot [simp]: "sl \<noteq> UrgentSlot \<longleftrightarrow> sl = SharedSlot"
  by (cases sl) simp_all

lemma gate_inv:
  "gate_reach b hs \<Longrightarrow>
     urgentTok b + holders UrgentSlot hs = 1 \<and> sharedTok b + holders SharedSlot hs = 1
     \<and> (\<forall>h \<in> set hs. snd h = UrgentSlot \<longrightarrow> fst h)"
proof (induction rule: gate_reach.induct)
  case (Gate_init key qh)
  then show ?case by (simp add: NewBatcher_def newBatcher_def)
next
  case (Gate_acquire b hs urgent sl b')
  then show ?case by (auto simp: acquireSlot_def split: if_splits)
next
  case (Gate_release b hs urgent sl hs')
  then show ?case by (cases sl) (auto simp: release_def)
qed

lemma holders_total: "length hs = holders UrgentSlot hs + holders SharedSlot hs"
  by (induction hs) auto

lemma normal_holders:
  "\<forall>h \<in> set hs. snd h = UrgentSlot \<longrightarrow> fst h \<Longrightarrow>
     length (filter (\<lambda>(urgent, sl). \<not> urgent) hs) \<le> holders SharedSlot hs"
  by (induction hs) (auto simp: split_beta)

lemma urgent_holder:
  "holders UrgentSlot hs \<noteq> 0 \<Longrightarrow> \<forall>h \<in> set hs. snd h = UrgentSlot \<longrightarrow> fst h \<Longrightarrow> (True, UrgentSlot) \<in> set hs"
  by (induction hs) (auto split: if_splits)

text \<open>
  The send gate: at most two batches of a link are on their way at once, at most one of them
  a normal one, and an urgent batch has to wait only while another urgent batch holds the
  reserved slot; normal traffic alone never blocks it.
\<close>

lemma send_gate:
  assumes "gate_reach b hs"
  shows "length hs \<le> 2 \<and> length (filter (\<lambda>(urgent, sl). \<not> urgent) hs) \<le> 1
    \<and> (acquireSlot True b = None \<longrightarrow> (True, UrgentSlot) \<in> set hs)"
proof -
  note inv = gate_inv [OF assms]
  have "length hs \<le> 2" "length (filter (\<lambda>(urgent, sl). \<not> urgent) hs) \<le> 1"
    using inv holders_total [of hs] normal_holders [of hs] by linarith+
  moreover have "acquireSlot True b = None \<Longrightarrow> (True, UrgentSlot) \<in> set hs"
    using inv by (intro urgent_holder) (auto simp: acquireSlot_def split: if_splits)
  ultimately show ?thesis by blast
qed

end
