(* ===== verification/Flush_Loop.thy ===== *)
theory Flush_Loop
  imports Batch
begin

text \<open>
  The concurrent life of a batcher, \<^verbatim>\<open>Batcher.flushLoop\<close> with the goroutines around it: producers that
  call \<^verbatim>\<open>Add\<close>, the loop with its two timers, the sending goroutines and \<^verbatim>\<open>Stop\<close>. A step is one
  section that runs under the batcher's lock or one channel operation, so \<^verbatim>\<open>Add\<close> is three steps
  (admission, write, signal) and a flush two (take, account). The history of written frames and
  of started jobs is kept beside the state. Shown are: a queued batch is never left without a
  pending wake-up or an armed timer, the bytes leave in the order they came, and the memory a
  batcher holds is bounded.
\<close>

subsection \<open>State and steps\<close>

text \<open>
  Where the loop is: in its select, between taking a batch and accounting for it, before
  \<^verbatim>\<open>updateTimers\<close>, waiting for the last sends, or gone. The flag tells the final flush of a shutdown.
\<close>

datatype loop_pc = LSelect | LTaken "bytes \<times> bool \<times> nat" bool | LTimers | LWait time | LStopped

record flush_sys =
  bat :: batcher
  pend :: "(frame \<times> bool) list"
  trig :: "bool list"
  pc :: loop_pc
  jobs :: "flush_job list"
  idleTimer :: "time option"
  maxTimer :: "time option"
  clock :: time
  stopping :: bool
  written :: "frame list"
  started :: "flush_job list"

definition timer_at :: "time \<Rightarrow> time option \<Rightarrow> duration \<Rightarrow> time" where
  "timer_at now t d = (case t of None \<Rightarrow> now | Some t \<Rightarrow> max now (t + d))"

definition updateTimers :: "tz_database \<Rightarrow> rat \<Rightarrow> flush_sys \<Rightarrow> flush_sys" where
  "updateTimers tz u s =
     (case batchState (bat s) of
        None \<Rightarrow> s\<lparr>idleTimer := None, maxTimer := None\<rparr>
      | Some (batchStarted, lastQueued, maxDelay) \<Rightarrow>
          s\<lparr>idleTimer := Some (timer_at (clock s) lastQueued
                                (jitter u (adaptiveIdleTimeout tz (clock s) (bat s)))),
            maxTimer := Some (timer_at (clock s) batchStarted maxDelay)\<rparr>)"

definition after_flush :: "bool \<Rightarrow> time \<Rightarrow> loop_pc" where
  "after_flush final now = (if final then LWait (now + shutdownFlushTimeout) else LTimers)"

definition begin_flush :: "(nat \<Rightarrow> nat \<Rightarrow> nat) \<Rightarrow> bool \<Rightarrow> flush_sys \<Rightarrow> flush_sys" where
  "begin_flush grow final s =
     (case flush_take grow (bat s) of
        None \<Rightarrow> s\<lparr>pc := after_flush final (clock s)\<rparr>
      | Some (t, b) \<Rightarrow> s\<lparr>bat := b, pc := LTaken t final\<rparr>)"

text \<open>The cases of the select that lead to a flush, with the signal or the timer they consume.\<close>

inductive select_flush :: "bool \<Rightarrow> flush_sys \<Rightarrow> flush_sys \<Rightarrow> bool" where
  FlushNow: "flushCh (bat s) \<Longrightarrow> select_flush False s (s\<lparr>bat := (bat s)\<lparr>flushCh := False\<rparr>\<rparr>)"
| IdleFires: "idleTimer s = Some t \<Longrightarrow> t \<le> clock s \<Longrightarrow> select_flush False s (s\<lparr>idleTimer := None\<rparr>)"
| MaxFires: "maxTimer s = Some t \<Longrightarrow> t \<le> clock s \<Longrightarrow> select_flush False s (s\<lparr>maxTimer := None\<rparr>)"
| Done: "stopping s \<Longrightarrow> select_flush True s s"

text \<open>
  \<open>P\<close> bounds the number of producers inside \<^verbatim>\<open>Add\<close> and \<open>F\<close> the marshalled size of a frame.
\<close>

inductive flush_step ::
  "tz_database \<Rightarrow> (nat \<Rightarrow> nat \<Rightarrow> nat) \<Rightarrow> nat \<Rightarrow> nat \<Rightarrow> flush_sys \<Rightarrow> flush_sys \<Rightarrow> bool"
  for tz grow P F where
  Tick: "clock s \<le> t \<Longrightarrow> flush_step tz grow P F s (s\<lparr>clock := t\<rparr>)"
| Admit: "admit_ok (bat s) (length (Frame_Marshal f)) \<Longrightarrow> length (Frame_Marshal f) \<le> F \<Longrightarrow>
    length (pend s) < P \<Longrightarrow> flush_step tz grow P F s (s\<lparr>pend := (f, urgent) # pend s\<rparr>)"
| Write: "pend s = xs @ (f, urgent) # ys \<Longrightarrow> 0 \<le> u \<Longrightarrow> u \<le> 1 \<Longrightarrow>
    b = add_locked u (clock s) f urgent (bat s) \<Longrightarrow>
    flush_step tz grow P F s
      (s\<lparr>bat := b, pend := xs @ ys, trig := should_flush f b # trig s, written := written s @ [f]\<rparr>)"
| Signal: "trig s = xs @ fl # ys \<Longrightarrow>
    flush_step tz grow P F s (s\<lparr>bat := add_signal fl (bat s), trig := xs @ ys\<rparr>)"
| Activity: "pc s = LSelect \<Longrightarrow> activityCh (bat s) \<Longrightarrow>
    flush_step tz grow P F s (s\<lparr>bat := (bat s)\<lparr>activityCh := False\<rparr>, pc := LTimers\<rparr>)"
| Begin: "pc s = LSelect \<Longrightarrow> select_flush final s s0 \<Longrightarrow>
    flush_step tz grow P F s (begin_flush grow final s0)"
| Account: "pc s = LTaken t final \<Longrightarrow> flush_account (clock s) t (bat s) = (j, b) \<Longrightarrow>
    flush_step tz grow P F s
      (s\<lparr>bat := b, jobs := j # jobs s, started := started s @ [j], pc := after_flush final (clock s)\<rparr>)"
| Timers: "pc s = LTimers \<Longrightarrow> flush_step tz grow P F s (updateTimers tz u s\<lparr>pc := LSelect\<rparr>)"
| JobDone: "jobs s = xs @ j # ys \<Longrightarrow>
    flush_step tz grow P F s (s\<lparr>bat := job_done j (bat s), jobs := xs @ ys\<rparr>)"
| Stop: "flush_step tz grow P F s (s\<lparr>stopping := True\<rparr>)"
| Stopped: "pc s = LWait t \<Longrightarrow> jobs s = [] \<or> t \<le> clock s \<Longrightarrow>
    flush_step tz grow P F s (s\<lparr>pc := LStopped, idleTimer := None, maxTimer := None\<rparr>)"

definition flush_init :: "bytes \<Rightarrow> quiet_hours option \<Rightarrow> time \<Rightarrow> flush_sys" where
  "flush_init key qh now =
     \<lparr>bat = NewBatcher key qh, pend = [], trig = [], pc = LSelect, jobs = [], idleTimer = None,
      maxTimer = None, clock = now, stopping = False, written = [], started = []\<rparr>"

inductive flush_reach ::
  "tz_database \<Rightarrow> (nat \<Rightarrow> nat \<Rightarrow> nat) \<Rightarrow> nat \<Rightarrow> nat \<Rightarrow> flush_sys \<Rightarrow> bool" for tz grow P F where
  Init: "flush_reach tz grow P F (flush_init key qh now)"
| Step: "flush_reach tz grow P F s \<Longrightarrow> flush_step tz grow P F s s' \<Longrightarrow> flush_reach tz grow P F s'"

lemma select_flush_same:
  "select_flush final s s0 \<Longrightarrow>
     \<exists>fl. bat s0 = (bat s)\<lparr>flushCh := fl\<rparr> \<and> pc s0 = pc s \<and> pend s0 = pend s \<and> jobs s0 = jobs s
       \<and> written s0 = written s \<and> started s0 = started s"
  by (erule select_flush.cases) (auto intro: exI [of _ "flushCh (bat s)"])

subsection \<open>Invariants\<close>

text \<open>A batch that waits: it has a wake-up on its way, or the hard-cap timer is armed for it.\<close>

definition woken :: "flush_sys \<Rightarrow> bool" where
  "woken s \<longleftrightarrow> trig s \<noteq> [] \<or> activityCh (bat s) \<or> flushCh (bat s) \<or>
     (\<exists>t st. maxTimer s = Some t \<and> batchStartedAt (bat s) = Some st
        \<and> t \<le> max (clock s) (st + jitteredMaxFlushDelay (bat s)))"

definition wake_inv :: "flush_sys \<Rightarrow> bool" where
  "wake_inv s \<longleftrightarrow> maxFlushDelay (bat s) = MaxFlushDelay \<and>
     (buf (bat s) \<noteq> [] \<longrightarrow>
        batchStartedAt (bat s) \<noteq> None \<and> 100 * jitteredMaxFlushDelay (bat s) \<le> 115 * MaxFlushDelay + 100
        \<and> (pc s = LSelect \<longrightarrow> woken s))"

lemma wake_init: "wake_inv (flush_init key qh now)"
  by (simp add: wake_inv_def flush_init_def NewBatcher_def newBatcher_def)

lemma wake_begin_flush:
  assumes "maxFlushDelay (bat s) = MaxFlushDelay"
  shows "wake_inv (begin_flush grow final s)"
  using assms
  by (auto simp: begin_flush_def flush_take_def wake_inv_def after_flush_def Let_def
      split: option.splits prod.splits if_splits) (metis getBuf_simps(7) snd_conv)

lemma wake_step:
  assumes "flush_step tz grow P F s s'" "wake_inv s"
  shows "wake_inv s'"
  using assms
proof cases
  case (Write xs f urgent ys u b)
  have "100 * jitter u MaxFlushDelay \<le> 115 * MaxFlushDelay + 100"
    by (rule jitter_bounds) (simp_all add: MaxFlushDelay_def Write)
  then show ?thesis using assms(2) Write by (auto simp: wake_inv_def woken_def)
next
  case (Timers u)
  then show ?thesis using assms(2)
    by (auto simp: wake_inv_def woken_def updateTimers_def batchState_def timer_at_def)
next
  case (Account t final j b)
  then have "maxFlushDelay b = maxFlushDelay (bat s)" "buf b = buf (bat s)"
    "batchStartedAt b = batchStartedAt (bat s)"
    "jitteredMaxFlushDelay b = jitteredMaxFlushDelay (bat s)"
    by (auto simp: flush_account_def Let_def split: prod.splits)
  then show ?thesis using assms(2) Account by (auto simp: wake_inv_def after_flush_def)
next
  case (Begin final s0)
  have "maxFlushDelay (bat s0) = MaxFlushDelay"
    using assms(2) select_flush_same [OF Begin(3)] by (auto simp: wake_inv_def)
  then show ?thesis using Begin(1) by (simp add: wake_begin_flush)
qed (auto simp: wake_inv_def woken_def)

lemma wake_reach: "flush_reach tz grow P F s \<Longrightarrow> wake_inv s"
  by (induction rule: flush_reach.induct) (auto intro: wake_init wake_step)

text \<open>Order: what was written is what the jobs carry, what is being taken and what is queued.\<close>

definition taken :: "flush_sys \<Rightarrow> bytes" where
  "taken s = (case pc s of LTaken (raw, _, _) _ \<Rightarrow> raw | _ \<Rightarrow> [])"

definition order_inv :: "flush_sys \<Rightarrow> bool" where
  "order_inv s \<longleftrightarrow>
     concat (map Frame_Marshal (written s)) = concat (map j_raw (started s)) @ taken s @ buf (bat s)
     \<and> map j_seq (started s) = map (\<lambda>i. of_nat (Suc i)) [0..<length (started s)]
     \<and> seqNum (bat s) = of_nat (length (started s))"

lemma order_init: "order_inv (flush_init key qh now)"
  by (simp add: order_inv_def flush_init_def NewBatcher_def newBatcher_def taken_def)

lemma taken_not [simp]: "pc s \<in> {LSelect, LTimers, LStopped} \<union> range LWait \<Longrightarrow> taken s = []"
  by (auto simp: taken_def)

lemma taken_cong: "pc s = pc s' \<Longrightarrow> taken s = taken s'"
  by (simp add: taken_def)

lemma order_begin_flush:
  assumes "order_inv s" "pc s = LSelect"
  shows "order_inv (begin_flush grow final s)"
proof (cases "buf (bat s) = []")
  case True
  then show ?thesis using assms
    by (simp add: begin_flush_def flush_take_def order_inv_def taken_def after_flush_def)
next
  case False
  obtain c b where g: "getBuf (bat s) = (c, b)" by (cases "getBuf (bat s)")
  then have "seqNum b = seqNum (bat s)" using getBuf_simps(3) [of "bat s"] by simp
  then show ?thesis using assms False g
    by (simp add: begin_flush_def flush_take_def order_inv_def taken_def)
qed

lemma job_done_seq [simp]: "seqNum (job_done j b) = seqNum b"
  by (simp add: job_done_def putBuf_def Let_def)

lemma order_step:
  assumes "flush_step tz grow P F s s'" "order_inv s"
  shows "order_inv s'"
  using assms(1)
proof cases
  case (Account t final j b)
  obtain raw urgent c where t: "t = (raw, urgent, c)" by (cases t)
  have "buf b = buf (bat s)" "seqNum b = seqNum (bat s) + 1" "j_raw j = raw" "j_seq j = seqNum (bat s) + 1"
    using Account by (auto simp: t flush_account_def Let_def)
  moreover have "taken s = raw" using Account by (simp add: taken_def t)
  moreover have "taken s' = []" using Account by (simp add: taken_def after_flush_def)
  ultimately show ?thesis using assms(2) Account by (simp add: order_inv_def algebra_simps)
next
  case (Timers u)
  then have "bat s' = bat s" "started s' = started s" "written s' = written s" "taken s' = taken s"
    by (auto simp: updateTimers_def taken_def split: option.split prod.split)
  then show ?thesis using assms(2) by (simp add: order_inv_def)
next
  case (Begin final s0)
  obtain fl where "bat s0 = (bat s)\<lparr>flushCh := fl\<rparr>" "pc s0 = pc s" "pend s0 = pend s" "jobs s0 = jobs s"
      "written s0 = written s" "started s0 = started s"
    using select_flush_same [OF Begin(3)] by blast
  then have "order_inv s0" using assms(2) by (simp add: order_inv_def taken_def)
  then show ?thesis using Begin \<open>pc s0 = pc s\<close> by (simp add: order_begin_flush)
qed (use assms(2) in \<open>auto simp: order_inv_def taken_def\<close>)

lemma order_reach: "flush_reach tz grow P F s \<Longrightarrow> order_inv s"
  by (induction rule: flush_reach.induct) (auto intro: order_init order_step)

text \<open>
  Memory: the bytes a batcher holds are those queued, those being taken and those of the running
  jobs. Admission looks at the queue and at the accounted jobs only, so the producers that have
  been admitted and the batch being taken can come on top.
\<close>

definition pend_size :: "flush_sys \<Rightarrow> int" where
  "pend_size s = int (sum_list (map (\<lambda>(f, u). length (Frame_Marshal f)) (pend s)))"

definition jobs_size :: "flush_sys \<Rightarrow> int" where
  "jobs_size s = int (sum_list (map (length \<circ> j_raw) (jobs s)))"

definition live_bytes :: "flush_sys \<Rightarrow> int" where
  "live_bytes s = int (length (buf (bat s))) + int (length (taken s)) + jobs_size s"

definition budget :: "nat \<Rightarrow> nat \<Rightarrow> int" where
  "budget P F = maxQueuedAndInFlightBytes + (int P - 1) * int F"

definition memory_inv :: "nat \<Rightarrow> nat \<Rightarrow> flush_sys \<Rightarrow> bool" where
  "memory_inv P F s \<longleftrightarrow>
     inFlightBytes (bat s) = jobs_size s
     \<and> length (pend s) \<le> P \<and> (\<forall>(f, u) \<in> set (pend s). length (Frame_Marshal f) \<le> F)
     \<and> int (length (buf (bat s))) + pend_size s \<le> budget P F
     \<and> int (length (taken s)) \<le> budget P F
     \<and> live_bytes s + pend_size s \<le> 2 * budget P F"

lemmas memory_defs = memory_inv_def pend_size_def jobs_size_def live_bytes_def

lemma memory_init:
  assumes "1 \<le> P"
  shows "memory_inv P F (flush_init key qh now)"
proof -
  have "0 \<le> budget P F" using assms by (simp add: budget_def maxQueuedAndInFlightBytes_def)
  then show ?thesis
    by (simp add: memory_defs flush_init_def NewBatcher_def newBatcher_def taken_def)
qed

lemma pend_size_bound:
  assumes "\<forall>(f, u) \<in> set xs. length (Frame_Marshal f) \<le> F"
  shows "sum_list (map (\<lambda>(f, u). length (Frame_Marshal f)) xs) \<le> length xs * F"
  using assms by (induction xs) auto

lemma memory_begin_flush:
  assumes "memory_inv P F s" "pc s = LSelect"
  shows "memory_inv P F (begin_flush grow final s)"
proof (cases "buf (bat s) = []")
  case True
  then show ?thesis using assms
    by (simp add: begin_flush_def flush_take_def memory_defs taken_def after_flush_def)
next
  case False
  obtain c b where g: "getBuf (bat s) = (c, b)" by (cases "getBuf (bat s)")
  then have "inFlightBytes b = inFlightBytes (bat s)" using getBuf_simps(2) [of "bat s"] by simp
  then show ?thesis using assms False g
    by (simp add: begin_flush_def flush_take_def memory_defs taken_def)
qed

lemma memory_admit:
  assumes "memory_inv P F s" "admit_ok (bat s) (length (Frame_Marshal f))"
    and "length (Frame_Marshal f) \<le> F" "length (pend s) < P"
  shows "memory_inv P F (s\<lparr>pend := (f, urgent) # pend s\<rparr>)"
proof -
  have "pend_size s \<le> int (length (pend s) * F)"
    unfolding pend_size_def of_nat_le_iff
    by (rule pend_size_bound) (use assms(1) in \<open>unfold memory_inv_def, blast\<close>)
  also have "\<dots> \<le> (int P - 1) * int F"
  proof -
    have "int (length (pend s)) \<le> int P - 1" using assms(4) by simp
    then show ?thesis by (simp add: mult_right_mono)
  qed
  finally have "pend_size s \<le> (int P - 1) * int F" .
  moreover have "taken (s\<lparr>pend := (f, urgent) # pend s\<rparr>) = taken s" by (simp add: taken_def)
  ultimately show ?thesis
    using assms unfolding memory_inv_def live_bytes_def admit_ok_def budget_def
    by (simp add: pend_size_def jobs_size_def)
qed

lemma memory_step:
  assumes "flush_step tz grow P F s s'" "memory_inv P F s"
  shows "memory_inv P F s'"
  using assms(1)
proof cases
  case (Admit f urgent)
  then show ?thesis using assms(2) by (simp add: memory_admit)
next
  case (Account t final j b)
  obtain raw urgent c where t: "t = (raw, urgent, c)" by (cases t)
  have "buf b = buf (bat s)" "inFlightBytes b = inFlightBytes (bat s) + int (length raw)" "j_raw j = raw"
    using Account by (auto simp: t flush_account_def Let_def)
  moreover have "taken s = raw" using Account by (simp add: taken_def t)
  moreover have "taken s' = []" using Account by (simp add: taken_def after_flush_def)
  moreover have "0 \<le> int (length (taken s))" by simp
  ultimately show ?thesis using assms(2) Account by (auto simp: memory_defs)
next
  case (Timers u)
  then have "bat s' = bat s" "jobs s' = jobs s" "pend s' = pend s" "taken s' = taken s"
    by (auto simp: updateTimers_def taken_def split: option.split prod.split)
  then show ?thesis using assms(2) by (simp add: memory_defs)
next
  case (Begin final s0)
  obtain fl where "bat s0 = (bat s)\<lparr>flushCh := fl\<rparr>" "pc s0 = pc s" "pend s0 = pend s" "jobs s0 = jobs s"
      "written s0 = written s" "started s0 = started s"
    using select_flush_same [OF Begin(3)] by blast
  then have "memory_inv P F s0" using assms(2) by (simp add: memory_defs taken_def)
  then show ?thesis using Begin \<open>pc s0 = pc s\<close> by (simp add: memory_begin_flush)
qed (use assms(2) in \<open>auto simp: memory_defs taken_def\<close>)

lemma memory_reach: "flush_reach tz grow P F s \<Longrightarrow> 1 \<le> P \<Longrightarrow> memory_inv P F s"
  by (induction rule: flush_reach.induct) (auto intro: memory_init memory_step)

subsection \<open>A run\<close>

text \<open>One frame is added, its signal wakes the loop, and the timers are armed.\<close>

definition run_frame :: frame where
  "run_frame = \<lparr>FType = TypeData, ConnID = 7, SeqNum = 0, Payload = [1, 2, 3]\<rparr>"

lemma run_armed:
  "\<exists>s. flush_reach (\<lambda>_. None) (\<lambda>c n. n) 1 100 s \<and> buf (bat s) = Frame_Marshal run_frame
     \<and> pc s = LSelect \<and> trig s = [] \<and> \<not> activityCh (bat s) \<and> \<not> flushCh (bat s)
     \<and> written s = [run_frame] \<and> started s = []"
proof -
  let ?R = "flush_reach (\<lambda>_. None) (\<lambda>c n. n) 1 100"
  define s0 where "s0 = flush_init [] None 0"
  have f0: "buf (bat s0) = []" "pc s0 = LSelect" "pend s0 = []" "trig s0 = []" "clock s0 = 0"
      "\<not> activityCh (bat s0)" "\<not> flushCh (bat s0)" "written s0 = []" "started s0 = []"
      "inFlightBytes (bat s0) = 0" "dataFlushThreshold (bat s0) = 32768"
    by (simp_all add: s0_def flush_init_def NewBatcher_def newBatcher_def DataFlushThreshold_def)
  have l: "length (Frame_Marshal run_frame) = 16" by (simp add: HeaderSize_def run_frame_def)
  have "?R s0" unfolding s0_def by (rule flush_reach.Init)
  moreover define s1 where "s1 = s0\<lparr>pend := [(run_frame, True)]\<rparr>"
  ultimately have 1: "?R s1"
    using flush_step.Admit [of s0 run_frame 100 1 _ _ True] f0 l
    by (auto intro: flush_reach.Step simp: admit_ok_def maxQueuedAndInFlightBytes_def MaxBatchSize_def)
  define b where "b = add_locked 0 0 run_frame True (bat s0)"
  define s2 where "s2 = s1\<lparr>bat := b, pend := [], trig := [should_flush run_frame b], written := [run_frame]\<rparr>"
  have 2: "?R s2"
    using flush_step.Write [of s1 "[]" run_frame True "[]" 0 b] f0 flush_reach.Step [OF 1]
    by (simp add: s1_def s2_def b_def)
  have "dataFlushThreshold b = 32768" using f0 by (simp add: b_def add_locked_def Let_def)
  then have nf: "\<not> should_flush run_frame b"
    using f0 l by (simp add: should_flush_def b_def MaxBatchSize_def run_frame_def)
  define s3 where "s3 = s2\<lparr>bat := add_signal False b, trig := []\<rparr>"
  have 3: "?R s3"
    using flush_step.Signal [of s2 "[]" False "[]"] nf flush_reach.Step [OF 2] by (simp add: s2_def s3_def)
  define s4 where "s4 = s3\<lparr>bat := (add_signal False b)\<lparr>activityCh := False\<rparr>, pc := LTimers\<rparr>"
  have 4: "?R s4"
    using flush_step.Activity [of s3] flush_reach.Step [OF 3] f0 by (simp add: s4_def s3_def s2_def s1_def)
  have "?R (updateTimers (\<lambda>_. None) 0 s4\<lparr>pc := LSelect\<rparr>)"
    using flush_step.Timers [of s4] flush_reach.Step [OF 4] by (simp add: s4_def)
  then show ?thesis
    apply (intro exI conjI)
    apply assumption
    using f0 by (simp_all add: updateTimers_def s4_def s3_def s2_def s1_def b_def split: option.split prod.split)
qed

subsection \<open>Properties\<close>

text \<open>
  C9. No batch is left behind: whenever the loop is in its select with a non-empty buffer and no
  signal is on its way, the hard-cap timer is armed for a moment at most 1.38 seconds (and one
  nanosecond of rounding) after the first frame of the batch was queued, or already due.
\<close>

theorem no_stranded_batch:
  assumes "flush_reach tz grow P F s"
    and "buf (bat s) \<noteq> []" "pc s = LSelect" "trig s = []" "\<not> activityCh (bat s)" "\<not> flushCh (bat s)"
  shows "\<exists>t st. maxTimer s = Some t \<and> batchStartedAt (bat s) = Some st
    \<and> t \<le> max (clock s) (st + 1380000001)"
proof -
  have w: "woken s" "100 * jitteredMaxFlushDelay (bat s) \<le> 115 * MaxFlushDelay + 100"
    using wake_reach [OF assms(1)] assms by (auto simp: wake_inv_def)
  then obtain t st where "maxTimer s = Some t" "batchStartedAt (bat s) = Some st"
      "t \<le> max (clock s) (st + jitteredMaxFlushDelay (bat s))"
    using assms by (auto simp: woken_def)
  moreover have "jitteredMaxFlushDelay (bat s) \<le> 1380000001"
    using w(2) by (simp add: MaxFlushDelay_def)
  ultimately show ?thesis by (intro exI conjI) (auto simp: max_def split: if_splits)
qed

theorem no_stranded_batch_witness:
  "\<exists>s t st. flush_reach (\<lambda>_. None) (\<lambda>c n. n) 1 100 s \<and> buf (bat s) = Frame_Marshal run_frame
    \<and> maxTimer s = Some t \<and> batchStartedAt (bat s) = Some st \<and> t \<le> max (clock s) (st + 1380000001)"
proof -
  obtain s where s: "flush_reach (\<lambda>_. None) (\<lambda>c n. n) 1 100 s" "buf (bat s) = Frame_Marshal run_frame"
      "pc s = LSelect" "trig s = []" "\<not> activityCh (bat s)" "\<not> flushCh (bat s)"
    using run_armed by blast
  have "buf (bat s) \<noteq> []" by (simp add: s(2) Frame_Marshal_header frame_header_def)
  from no_stranded_batch [OF s(1) this s(3-)] s show ?thesis by blast
qed



text \<open>
  C15. The memory of a batcher is bounded: with at most \<open>P\<close> producers and frames of at most \<open>F\<close> bytes,
  queued, taken and sending bytes together stay below twice the admission budget plus the frames
  of the other producers. (The budget of 192 MiB itself is not an upper bound: admission and
  write are separate steps, and a batch being taken is counted neither as queued nor as in
  flight.)
\<close>

theorem memory_bounded:
  assumes "flush_reach tz grow P F s" "1 \<le> P"
  shows "live_bytes s \<le> 2 * (maxQueuedAndInFlightBytes + (int P - 1) * int F)"
  using memory_reach [OF assms] by (auto simp: memory_inv_def budget_def pend_size_def)

theorem memory_bounded_witness:
  "\<exists>s. flush_reach (\<lambda>_. None) (\<lambda>c n. n) 1 100 s \<and> live_bytes s \<le> 2 * maxQueuedAndInFlightBytes"
proof -
  obtain s where "flush_reach (\<lambda>_. None) (\<lambda>c n. n) 1 100 s" using run_armed by blast
  with memory_bounded [OF this] show ?thesis by (intro exI [of _ s]) simp
qed

end
