(* ===== verification/Telegram_Api.thy ===== *)
theory Telegram_Api
  imports Go_Fmt
begin

text \<open>
  \<^verbatim>\<open>telegram/api.go\<close>: the data of the Bot API and the calls of \<^verbatim>\<open>BotAPI\<close>. The HTTP client is a
  parameter \<open>http\<close> over a state of its own; it maps a request to a failure of the transport or to
  the body of the answer. The JSON decoder of a response is a parameter \<open>json\<close>, which may fail.
  Requests keep the method URL and the fields that the code encodes as JSON or as a multipart
  form.
\<close>

subsection \<open>Data\<close>

definition MaxSendDocumentSize :: nat where "MaxSendDocumentSize = 50 * 1024 * 1024"

record user =
  User_ID :: int
  IsBot :: bool

record document =
  FileID :: string
  FileName :: string
  FileSize :: int

record channel_post =
  MessageID :: int
  Chat_ID :: int
  From :: "user option"
  Text :: string
  Document :: "document option"
  SenderChat :: "int option"

record update =
  UpdateID :: int
  ChannelPost :: "channel_post option"

text \<open>The field \<^verbatim>\<open>result\<close> of a response, as far as the calls decode it (\<open>ResultOther\<close>: anything else).\<close>

datatype api_result = ResultUpdates "update list" | ResultFile string | ResultUser user | ResultOther

record api_response =
  OK :: bool
  Result :: api_result
  Description :: string
  ErrorCode :: int
  Parameters :: "int option"

record api_error =
  Code :: int
  ErrDescription :: string
  RetryAfter :: int

definition apiError_Error :: "api_error \<Rightarrow> string" where
  "apiError_Error e = ''API error '' @ fmt_d (Code e) @ '': '' @ ErrDescription e"

definition apiError_Permanent :: "api_error \<Rightarrow> bool" where
  "apiError_Permanent e \<longleftrightarrow> 400 \<le> Code e \<and> Code e < 500 \<and> Code e \<noteq> 429"

definition newAPIError :: "api_response \<Rightarrow> api_error" where
  "newAPIError r =
     \<lparr>Code = ErrorCode r, ErrDescription = Description r,
      RetryAfter = (case Parameters r of None \<Rightarrow> 0 | Some n \<Rightarrow> n)\<rparr>"

text \<open>An \<^verbatim>\<open>*apiError\<close> as the value of type \<^verbatim>\<open>error\<close> that the callers get.\<close>

definition as_error :: "api_error \<Rightarrow> go_error" where
  "as_error e = ClassifiedError (apiError_Permanent e) (apiError_Error e)"

subsection \<open>Requests and replies\<close>

datatype http_request =
    SendMessageReq string int string
  | SendDocumentReq string int string bytes
  | GetReq string

datatype http_reply =
    HttpFail string
  | Body bytes

type_synonym json_decoder = "bytes \<Rightarrow> string + api_response"

type_synonym 's http_client = "http_request \<Rightarrow> 's \<Rightarrow> http_reply \<times> 's"

record bot_api =
  token :: string
  hostBase :: string

definition botURL :: "bot_api \<Rightarrow> string \<Rightarrow> string" where
  "botURL a method = hostBase a @ ''/bot'' @ token a @ ''/'' @ method"

text \<open>
  The common end of the two sending calls: a transport failure or a body that does not decode is
  an error without a retry hint, a refusal carries the hint of the server.
\<close>

definition send_result :: "json_decoder \<Rightarrow> http_reply \<Rightarrow> int \<times> go_error option" where
  "send_result json r =
     (case r of
        HttpFail e \<Rightarrow> (0, Some (WrappedError ''http request'' (PlainError e)))
      | Body b \<Rightarrow>
          (case json b of
             Inl e \<Rightarrow> (0, Some (WrappedError ''decode response'' (PlainError e)))
           | Inr resp \<Rightarrow>
               if \<not> OK resp then let e = newAPIError resp in (RetryAfter e, Some (as_error e))
               else (0, None)))"

definition BotAPI_SendDocument ::
  "json_decoder \<Rightarrow> 's http_client \<Rightarrow> bot_api \<Rightarrow> int \<Rightarrow> string \<Rightarrow> bytes \<Rightarrow> 's \<Rightarrow> (int \<times> go_error option) \<times> 's" where
  "BotAPI_SendDocument json http a channelID filename data s =
     (if MaxSendDocumentSize < length data then
        ((0, Some (PlainError (''document size '' @ fmt_d (int (length data)) @ '' exceeds Telegram 50MB limit''))), s)
      else let (r, s') = http (SendDocumentReq (botURL a ''sendDocument'') channelID filename data) s
           in (send_result json r, s'))"

definition BotAPI_SendMessage ::
  "json_decoder \<Rightarrow> 's http_client \<Rightarrow> bot_api \<Rightarrow> int \<Rightarrow> string \<Rightarrow> 's \<Rightarrow> (int \<times> go_error option) \<times> 's" where
  "BotAPI_SendMessage json http a channelID text s =
     (let (r, s') = http (SendMessageReq (botURL a ''sendMessage'') channelID text) s
      in (send_result json r, s'))"

text \<open>
  The decoding shared by the calls that read a result; \<open>wh\<close> and \<open>wj\<close> say how the call wraps the error
  of the transport and of the decoder.
\<close>

definition get_result ::
  "(go_error \<Rightarrow> go_error) \<Rightarrow> (go_error \<Rightarrow> go_error) \<Rightarrow> json_decoder \<Rightarrow> http_reply \<Rightarrow> go_error + api_result" where
  "get_result wh wj json r =
     (case r of
        HttpFail e \<Rightarrow> Inl (wh (PlainError e))
      | Body b \<Rightarrow>
          (case json b of
             Inl e \<Rightarrow> Inl (wj (PlainError e))
           | Inr resp \<Rightarrow> if \<not> OK resp then Inl (as_error (newAPIError resp)) else Inr (Result resp)))"

definition BotAPI_GetUpdates ::
  "json_decoder \<Rightarrow> 's http_client \<Rightarrow> bot_api \<Rightarrow> int \<Rightarrow> int \<Rightarrow> 's \<Rightarrow> (go_error + update list) \<times> 's" where
  "BotAPI_GetUpdates json http a offset timeout s =
     (let url = botURL a ''getUpdates'' @ ''?offset='' @ fmt_d offset @ ''&timeout='' @ fmt_d timeout
                  @ ''&allowed_updates=['' @ [CHR 0x22] @ ''channel_post'' @ [CHR 0x22] @ '']'';
          (r, s') = http (GetReq url) s
      in (bind_res (get_result (WrappedError ''get updates'') (WrappedError ''decode'') json r) (\<lambda>res.
            case res of ResultUpdates us \<Rightarrow> Inr us | _ \<Rightarrow> Inl (WrappedError ''decode updates'' (PlainError ''json''))), s'))"

definition BotAPI_DownloadFile ::
  "json_decoder \<Rightarrow> 's http_client \<Rightarrow> bot_api \<Rightarrow> string \<Rightarrow> 's \<Rightarrow> (go_error + bytes) \<times> 's" where
  "BotAPI_DownloadFile json http a fileID s =
     (let (r, s1) = http (GetReq (botURL a ''getFile'' @ ''?file_id='' @ fileID)) s
      in case get_result (WrappedError ''get file'') id json r of
           Inl e \<Rightarrow> (Inl e, s1)
         | Inr (ResultFile path) \<Rightarrow>
             let (d, s2) = http (GetReq (hostBase a @ ''/file/bot'' @ token a @ ''/'' @ path)) s1
             in (case d of
                   Body bs \<Rightarrow> (Inr bs, s2)
                 | HttpFail e \<Rightarrow> (Inl (WrappedError ''download'' (PlainError e)), s2))
         | Inr _ \<Rightarrow> (Inl (PlainError ''json''), s1))"

definition BotAPI_GetMe :: "json_decoder \<Rightarrow> 's http_client \<Rightarrow> bot_api \<Rightarrow> 's \<Rightarrow> (go_error + user) \<times> 's" where
  "BotAPI_GetMe json http a s =
     (let (r, s') = http (GetReq (botURL a ''getMe'')) s
      in (bind_res (get_result id id json r) (\<lambda>res.
            case res of ResultUser u \<Rightarrow> Inr u | _ \<Rightarrow> Inl (PlainError ''json'')), s'))"

definition BotAPI_WarmConnection :: "json_decoder \<Rightarrow> 's http_client \<Rightarrow> bot_api \<Rightarrow> 's \<Rightarrow> go_error option \<times> 's" where
  "BotAPI_WarmConnection json http a s =
     (let (r, s') = BotAPI_GetMe json http a s
      in (case r of Inl e \<Rightarrow> Some e | Inr _ \<Rightarrow> None, s'))"

subsection \<open>Which refusals are final\<close>

lemma isPermanentError_as_error [simp]: "isPermanentError (as_error e) = apiError_Permanent e"
  by (simp add: as_error_def)

lemma send_result_final:
  "send_result json r = (n, Some e) \<Longrightarrow> isPermanentError e \<longleftrightarrow>
     (\<exists>b resp. r = Body b \<and> json b = Inr resp \<and> \<not> OK resp \<and> 400 \<le> ErrorCode resp
        \<and> ErrorCode resp < 500 \<and> ErrorCode resp \<noteq> 429)"
  by (auto simp: send_result_def newAPIError_def apiError_Permanent_def Let_def
      split: http_reply.splits if_splits sum.splits)

end
