(* ===== verification/Go_Base64.thy ===== *)
theory Go_Base64
  imports Vtel_Prelude
begin

text \<open>
  Go's \<^verbatim>\<open>base64.StdEncoding\<close>: encoding with padding, and decoding, which skips carriage returns and
  newlines, demands the padding and rejects whatever follows it.
\<close>

subsection \<open>Sextets\<close>

definition enc64 :: "nat \<Rightarrow> char" where
  "enc64 n =
     (if n < 26 then char_of (n + 65)
      else if n < 52 then char_of (n + 71)
      else if n < 62 then char_of (n - 4)
      else if n = 62 then CHR ''+'' else CHR ''/'')"

definition dec64 :: "char \<Rightarrow> nat option" where
  "dec64 c =
     (let k = of_char c :: nat
      in if 65 \<le> k \<and> k \<le> 90 then Some (k - 65)
         else if 97 \<le> k \<and> k \<le> 122 then Some (k - 71)
         else if 48 \<le> k \<and> k \<le> 57 then Some (k + 4)
         else if k = 43 then Some 62
         else if k = 47 then Some 63
         else None)"

definition byte_nat :: "nat \<Rightarrow> byte" where
  "byte_nat n = word_of_nat n"

subsection \<open>Encoding and decoding\<close>

fun EncodeToString :: "bytes \<Rightarrow> string" where
  "EncodeToString [] = ''''"
| "EncodeToString [a] =
     (let v = unat a * 16 in [enc64 (v div 64), enc64 (v mod 64), CHR ''='', CHR ''=''])"
| "EncodeToString [a, b] =
     (let v = unat a * 1024 + unat b * 4
      in [enc64 (v div 4096), enc64 (v div 64 mod 64), enc64 (v mod 64), CHR ''=''])"
| "EncodeToString (a # b # c # rest) =
     (let v = unat a * 65536 + unat b * 256 + unat c
      in [enc64 (v div 262144), enc64 (v div 4096 mod 64), enc64 (v div 64 mod 64), enc64 (v mod 64)]
         @ EncodeToString rest)"

definition EncodedLen :: "nat \<Rightarrow> nat" where
  "EncodedLen n = (n + 2) div 3 * 4"

text \<open>Decoding of a text without line breaks, four characters at a time.\<close>

fun decode_quanta :: "string \<Rightarrow> bytes option" where
  "decode_quanta [] = Some []"
| "decode_quanta (p # q # r # s # rest) =
     (case (dec64 p, dec64 q) of
        (Some w, Some x) \<Rightarrow>
          (case dec64 r of
             Some y \<Rightarrow>
               (case dec64 s of
                  Some z \<Rightarrow>
                    let v = w * 262144 + x * 4096 + y * 64 + z
                    in map_option (\<lambda>bs. [byte_nat (v div 65536), byte_nat (v div 256 mod 256), byte_nat (v mod 256)] @ bs)
                         (decode_quanta rest)
                | None \<Rightarrow>
                    if s = CHR ''='' \<and> rest = [] then
                      let v = w * 262144 + x * 4096 + y * 64
                      in Some [byte_nat (v div 65536), byte_nat (v div 256 mod 256)]
                    else None)
           | None \<Rightarrow>
               if r = CHR ''='' \<and> s = CHR ''='' \<and> rest = [] then
                 let v = w * 262144 + x * 4096 in Some [byte_nat (v div 65536)]
               else None)
      | _ \<Rightarrow> None)"
| "decode_quanta _ = None"

definition DecodeString :: "string \<Rightarrow> bytes option" where
  "DecodeString s = decode_quanta (filter (\<lambda>c. c \<noteq> CHR 0x0A \<and> c \<noteq> CHR 0x0D) s)"

subsection \<open>Round trip\<close>

lemma dec64_enc64 [simp]: "n < 64 \<Longrightarrow> dec64 (enc64 n) = Some n"
  by (auto simp: enc64_def dec64_def Let_def)

lemma dec64_other [simp]: "dec64 (CHR ''='') = None" "dec64 (CHR 0x0A) = None" "dec64 (CHR 0x0D) = None"
  by (simp_all add: dec64_def)

lemma enc64_no_break [simp]:
  "n < 64 \<Longrightarrow> enc64 n \<noteq> CHR 0x0A" "n < 64 \<Longrightarrow> enc64 n \<noteq> CHR 0x0D"
  by (metis dec64_enc64 dec64_other option.distinct(1))+

lemma recombine:
  fixes v :: nat
  shows "y * 64 + r2 = x \<Longrightarrow> x * 64 + r1 = v \<Longrightarrow> y * 4096 + r2 * 64 + r1 = v"
    and "z * 64 + r3 = y \<Longrightarrow> y * 4096 + q = v \<Longrightarrow> z * 262144 + r3 * 4096 + q = v"
  by auto

lemma div_64 [simp]: "v div 64 div 64 = (v :: nat) div 4096" "v div 4096 div 64 = v div 262144"
  by (simp_all add: div_mult2_eq [symmetric])

lemma two_sextets: "v div 4096 * 4096 + v div 64 mod 64 * 64 + v mod 64 = (v :: nat)"
  by (rule recombine(1) [of _ _ "v div 64"]) (simp_all add: div_64 [symmetric] del: div_64)

lemma sextets: "v div 262144 * 262144 + v div 4096 mod 64 * 4096 + v div 64 mod 64 * 64 + v mod 64 = (v :: nat)"
proof -
  have "v div 262144 * 262144 + v div 4096 mod 64 * 4096 + (v div 64 mod 64 * 64 + v mod 64) = v"
    by (rule recombine(2) [of _ _ "v div 4096"])
      (use two_sextets [of v] in \<open>simp_all add: div_64(2) [symmetric] add.assoc del: div_64\<close>)
  then show ?thesis by (simp only: add.assoc)
qed

lemma byte_nat_unat [simp]: "byte_nat (unat a) = a"
  by (simp add: byte_nat_def)

lemma bytes_of_24:
  fixes a b c :: byte
  defines "v \<equiv> unat a * 65536 + unat b * 256 + unat c"
  shows "v div 262144 < 64" "byte_nat (v div 65536) = a" "byte_nat (v div 256 mod 256) = b"
    "byte_nat (v mod 256) = c"
proof -
  have l: "unat a < 256" "unat b < 256" "unat c < 256" by simp_all
  then have "v < 16777216" unfolding v_def by linarith
  then show "v div 262144 < 64" by (simp add: div_less_iff_less_mult)
  define w where "w = unat a * 256 + unat b"
  have v: "v = w * 256 + unat c" by (simp add: v_def w_def)
  have d: "v div 256 = unat a * 256 + unat b" and "v mod 256 = unat c"
    unfolding v w_def [symmetric] using l by simp_all
  then show "byte_nat (v mod 256) = c" by simp
  show "byte_nat (v div 256 mod 256) = b" using d l by simp
  have "v div 65536 = v div 256 div 256" by (simp add: div_mult2_eq [symmetric])
  then show "byte_nat (v div 65536) = a" using d l by simp
qed

lemma decode_encode: "decode_quanta (EncodeToString bs) = Some bs"
proof (induction bs rule: EncodeToString.induct)
  case (2 a)
  have "unat a * 16 div 64 < 64" using unat_byte_less [of a] by (simp add: div_less_iff_less_mult)
  moreover have "unat a * 16 div 64 * 262144 + unat a * 16 mod 64 * 4096 = unat a * 65536"
    using div_mult_mod_eq [of "unat a * 16" 64] by simp
  ultimately show ?case by (simp add: Let_def)
next
  case (3 a b)
  let ?v = "unat a * 1024 + unat b * 4"
  have w: "?v div 4096 * 262144 + ?v div 64 mod 64 * 4096 + ?v mod 64 * 64
      = unat a * 65536 + unat b * 256 + unat (0 :: byte)"
    using arg_cong [OF two_sextets [of ?v], of "\<lambda>n. n * 64"] by (simp add: algebra_simps)
  have "?v < 64 * 4096" using unat_byte_less [of a] unat_byte_less [of b] by linarith
  then have "?v div 4096 < 64" by (simp add: div_less_iff_less_mult)
  then show ?case using bytes_of_24 [of a b 0] by (simp add: Let_def w)
next
  case (4 a b c rest)
  let ?v = "unat a * 65536 + unat b * 256 + unat c"
  show ?case using 4 bytes_of_24 [of a b c] sextets [of ?v] by (simp add: Let_def)
qed simp_all

lemma EncodeToString_no_break: "CHR 0x0A \<notin> set (EncodeToString bs) \<and> CHR 0x0D \<notin> set (EncodeToString bs)"
proof (induction bs rule: EncodeToString.induct)
  case (2 a)
  have "unat a * 16 div 64 < 64" using unat_byte_less [of a] by (simp add: div_less_iff_less_mult)
  then show ?case by (auto simp: Let_def dest: sym)
next
  case (3 a b)
  have "unat a * 1024 + unat b * 4 < 64 * 4096"
    using unat_byte_less [of a] unat_byte_less [of b] by linarith
  then have "(unat a * 1024 + unat b * 4) div 4096 < 64" by (simp add: div_less_iff_less_mult)
  then show ?case by (auto simp: Let_def dest: sym)
next
  case (4 a b c rest)
  then show ?case using bytes_of_24(1) [of a b c] by (auto simp: Let_def dest: sym)
qed simp

theorem DecodeString_Encode [simp]: "DecodeString (EncodeToString bs) = Some bs"
proof -
  have "filter (\<lambda>c. c \<noteq> CHR 0x0A \<and> c \<noteq> CHR 0x0D) (EncodeToString bs) = EncodeToString bs"
    using EncodeToString_no_break [of bs] by (auto intro: filter_True)
  then show ?thesis by (simp add: DecodeString_def decode_encode)
qed

lemma length_EncodeToString [simp]: "length (EncodeToString bs) = EncodedLen (length bs)"
proof (induction bs rule: EncodeToString.induct)
  case (4 a b c rest)
  have "(length rest + 3 + 2) div 3 = Suc ((length rest + 2) div 3)" by presburger
  with 4 show ?case by (simp add: EncodedLen_def Let_def)
qed (simp_all add: EncodedLen_def Let_def)

end
