(* ===== verification/Rate_Limiter.thy ===== *)
theory Rate_Limiter
  imports Vtel_Prelude Go_Float
begin

text \<open>
  \<^verbatim>\<open>telegram/ratelimit.go\<close>: the adaptive token bucket in front of every Telegram call. Tokens are
  \<^verbatim>\<open>float64\<close> values (\<open>Go_Float\<close>); the clock readings are arguments. Shown are the range of the
  interval and of the tokens, and the bound on the number of sends in a span of time that the
  bucket is there for.
\<close>

subsection \<open>Definitions\<close>

definition initialInterval :: duration where "initialInterval = 1 * Second"
definition minInterval :: duration where "minInterval = 800 * Millisecond"
definition maxInterval :: duration where "maxInterval = 30 * Second"
definition decreaseStep :: duration where "decreaseStep = 50 * Millisecond"
definition burstCapacity :: rat where "burstCapacity = 2"

record rate_limiter =
  interval :: duration
  rl_minInterval :: duration
  rl_maxInterval :: duration
  rl_decreaseStep :: duration
  rl_burstCapacity :: rat
  tokens :: rat
  lastRefill :: "time option"

definition newRateLimiter ::
  "duration \<Rightarrow> duration \<Rightarrow> duration \<Rightarrow> duration \<Rightarrow> rat \<Rightarrow> time \<Rightarrow> rate_limiter" where
  "newRateLimiter initial mn mx decrease burst now =
     \<lparr>interval = initial, rl_minInterval = mn, rl_maxInterval = mx, rl_decreaseStep = decrease,
      rl_burstCapacity = burst, tokens = burst, lastRefill = Some now\<rparr>"

definition NewRateLimiter :: "time \<Rightarrow> rate_limiter" where
  "NewRateLimiter now = newRateLimiter initialInterval minInterval maxInterval decreaseStep burstCapacity now"

definition refill :: "time \<Rightarrow> rate_limiter \<Rightarrow> rate_limiter" where
  "refill now rl =
     (case lastRefill rl of
        None \<Rightarrow> rl\<lparr>lastRefill := Some now\<rparr>
      | Some l \<Rightarrow>
          if now < l then rl\<lparr>lastRefill := Some now\<rparr>
          else let t = fadd (tokens rl) (fdiv (float64 (now - l)) (float64 (interval rl)))
               in rl\<lparr>tokens := (if rl_burstCapacity rl < t then rl_burstCapacity rl else t),
                     lastRefill := Some now\<rparr>)"

text \<open>One turn of the loop of \<^verbatim>\<open>Wait\<close>: the call may go on (\<open>None\<close>), or it sleeps for the given time.\<close>

definition wait_turn :: "time \<Rightarrow> rate_limiter \<Rightarrow> duration option \<times> rate_limiter" where
  "wait_turn now rl =
     (let rl1 = refill now rl
      in if 1 \<le> tokens rl1 then (None, rl1\<lparr>tokens := fsub (tokens rl1) 1\<rparr>)
         else (Some (trunc (fmul (fsub 1 (tokens rl1)) (float64 (interval rl1)))), rl1))"

text \<open>\<^verbatim>\<open>Wait\<close> over the clock readings of its turns; \<open>None\<close>: it still waits after these.\<close>

fun Wait :: "time list \<Rightarrow> rate_limiter \<Rightarrow> rate_limiter option" where
  "Wait [] rl = None"
| "Wait (now # nows) rl =
     (case wait_turn now rl of
        (None, rl') \<Rightarrow> Some rl'
      | (Some _, rl') \<Rightarrow> Wait nows rl')"

definition RecordSend :: "time \<Rightarrow> rate_limiter \<Rightarrow> rate_limiter" where
  "RecordSend now rl =
     (let rl1 = refill now rl;
          step = quot64 (interval rl1 - rl_minInterval rl1) 10;
          step = (if step < rl_decreaseStep rl1 then rl_decreaseStep rl1 else step);
          i = interval rl1 - step
      in rl1\<lparr>interval := (if i < rl_minInterval rl1 then rl_minInterval rl1 else i)\<rparr>)"

text \<open>\<^verbatim>\<open>RecordRetryAfter\<close> after its sleep of \<open>retryAfter\<close> seconds; \<open>now\<close> is the time then.\<close>

definition RecordRetryAfter :: "time \<Rightarrow> rate_limiter \<Rightarrow> rate_limiter" where
  "RecordRetryAfter now rl =
     (let i = quot64 (interval rl * 3) 2
      in rl\<lparr>interval := (if rl_maxInterval rl < i then rl_maxInterval rl else i),
            tokens := 0, lastRefill := Some now\<rparr>)"

subsection \<open>The invariant\<close>

definition rl_wf :: "rate_limiter \<Rightarrow> bool" where
  "rl_wf rl \<longleftrightarrow> rl_minInterval rl = minInterval \<and> rl_maxInterval rl = maxInterval
     \<and> rl_decreaseStep rl = decreaseStep \<and> rl_burstCapacity rl = burstCapacity
     \<and> minInterval \<le> interval rl \<and> interval rl \<le> maxInterval
     \<and> 0 \<le> tokens rl \<and> tokens rl \<le> burstCapacity"

lemmas rl_const = initialInterval_def minInterval_def maxInterval_def decreaseStep_def burstCapacity_def

lemma NewRateLimiter_wf: "rl_wf (NewRateLimiter now)"
  by (simp add: rl_wf_def NewRateLimiter_def newRateLimiter_def rl_const)

lemma refill_interval [simp]:
  "interval (refill now rl) = interval rl" "rl_minInterval (refill now rl) = rl_minInterval rl"
  "rl_decreaseStep (refill now rl) = rl_decreaseStep rl" "lastRefill (refill now rl) = Some now"
  "rl_maxInterval (refill now rl) = rl_maxInterval rl"
  "rl_burstCapacity (refill now rl) = rl_burstCapacity rl"
  by (auto simp: refill_def Let_def split: option.split)

lemma refill_wf: "rl_wf rl \<Longrightarrow> rl_wf (refill now rl)"
proof -
  assume wf: "rl_wf rl"
  have "0 \<le> interval rl" using wf by (simp add: rl_wf_def rl_const)
  then have "0 \<le> fadd (tokens rl) (fdiv (float64 (now - l)) (float64 (interval rl)))" if "l \<le> now" for l
    using wf that unfolding fadd_def fdiv_def float64_def
    by (intro f64_nonneg add_nonneg_nonneg divide_nonneg_nonneg) (auto simp: rl_wf_def)
  then show ?thesis
    using wf by (auto simp: refill_def rl_wf_def Let_def rl_const split: option.split)
qed

lemma wait_turn_wf: "rl_wf rl \<Longrightarrow> rl_wf (snd (wait_turn now rl))"
proof -
  assume "rl_wf rl"
  then have wf: "rl_wf (refill now rl)" by (rule refill_wf)
  define t where "t = tokens (refill now rl)"
  have t: "t \<le> 2" using wf by (simp add: rl_wf_def t_def burstCapacity_def)
  have "0 \<le> fsub t 1 \<and> fsub t 1 \<le> 2" if "1 \<le> t"
    using that t f64_nonneg [of "t - 1"] f64_bounds(2) [of "t - 1"] by (auto simp: fsub_def)
  then show ?thesis
    using wf by (auto simp: wait_turn_def Let_def t_def rl_wf_def burstCapacity_def)
qed

lemma RecordSend_wf: "rl_wf rl \<Longrightarrow> rl_wf (RecordSend now rl)"
  using refill_wf [of rl now] by (auto simp: RecordSend_def rl_wf_def Let_def rl_const quot64_nonneg)

lemma RecordRetryAfter_wf: "rl_wf rl \<Longrightarrow> rl_wf (RecordRetryAfter now rl)"
  by (auto simp: RecordRetryAfter_def rl_wf_def Let_def rl_const quot64_nonneg)

subsection \<open>Runs of the limiter\<close>

text \<open>
  A run of the limiter: turns of \<^verbatim>\<open>Wait\<close>, recorded sends and recorded 429 answers with the times at
  which they hold the lock. The run counts the turns that let a call through.
\<close>

datatype rl_op = WaitTurn time | Record time | Retry time

fun op_time :: "rl_op \<Rightarrow> time" where
  "op_time (WaitTurn t) = t"
| "op_time (Record t) = t"
| "op_time (Retry t) = t"

fun rl_run :: "rl_op list \<Rightarrow> rate_limiter \<Rightarrow> nat \<times> rate_limiter" where
  "rl_run [] rl = (0, rl)"
| "rl_run (WaitTurn t # ops) rl =
     (let (r, rl') = wait_turn t rl; (n, rl'') = rl_run ops rl'
      in ((if r = None then Suc n else n), rl''))"
| "rl_run (Record t # ops) rl = rl_run ops (RecordSend t rl)"
| "rl_run (Retry t # ops) rl = rl_run ops (RecordRetryAfter t rl)"

definition slack :: rat where "slack = 1 / 2 ^ 50"

text \<open>The tokens a span of time can bring, rounding included.\<close>

definition accrual :: "duration \<Rightarrow> rat" where
  "accrual d = of_int d / of_int minInterval * (1 + slack)"

lemma accrual_add: "accrual (a + b) = accrual a + accrual b"
  by (simp add: accrual_def add_divide_distrib distrib_right)

lemma accrual_nonneg: "0 \<le> d \<Longrightarrow> 0 \<le> accrual d"
  by (simp add: accrual_def slack_def minInterval_def)

lemma refill_rate:
  assumes "0 \<le> d" "minInterval \<le> i"
  shows "0 \<le> fdiv (float64 d) (float64 i)"
    "fdiv (float64 d) (float64 i) * (1 + 1 / 2 ^ 53) \<le> accrual d"
proof -
  define e :: rat where "e = 1 / 2 ^ 53"
  define D I M :: rat where "D = of_int d" and "I = of_int i" and "M = of_int minInterval"
  have D: "0 \<le> D" and M: "0 < M" and I: "M \<le> I"
    using assms by (simp_all add: D_def I_def M_def minInterval_def)
  have fd: "0 \<le> f64 D" "f64 D \<le> D * (1 + e)" using f64_nonneg [OF D] f64_bounds [OF D] by (simp_all add: e_def)
  have fi: "M * (1 - e) \<le> f64 I"
    using f64_bounds(1) [of I] I M by (simp add: e_def)
  have Me: "0 < M * (1 - e)" using M by (simp add: e_def)
  have q: "0 \<le> f64 D / f64 I" using fd fi Me by (intro divide_nonneg_nonneg) auto
  then show "0 \<le> fdiv (float64 d) (float64 i)"
    by (simp add: fdiv_def float64_def D_def I_def f64_nonneg)
  have "f64 D / f64 I \<le> D * (1 + e) / (M * (1 - e))"
    using fd fi Me D by (intro frac_le) (auto simp: e_def)
  also have "\<dots> = D / M * ((1 + e) / (1 - e))" by simp
  finally have q2: "f64 D / f64 I \<le> D / M * ((1 + e) / (1 - e))" .
  have "fdiv (float64 d) (float64 i) * (1 + e) \<le> (f64 D / f64 I * (1 + e)) * (1 + e)"
    using f64_bounds(2) [OF q] unfolding fdiv_def float64_def D_def I_def e_def
    by (intro mult_right_mono) auto
  also have "\<dots> \<le> (D / M * ((1 + e) / (1 - e)) * (1 + e)) * (1 + e)"
    using q2 by (intro mult_right_mono) (auto simp: e_def)
  also have "\<dots> = D / M * ((1 + e) / (1 - e) * (1 + e) * (1 + e))" by (simp only: mult.assoc)
  also have "\<dots> \<le> D / M * (1 + slack)"
    using D M by (intro mult_left_mono divide_nonneg_nonneg) (auto simp: e_def slack_def)
  finally show "fdiv (float64 d) (float64 i) * (1 + 1 / 2 ^ 53) \<le> accrual d"
    by (simp add: accrual_def D_def M_def e_def)
qed

lemma refill_tokens:
  assumes "rl_wf rl" "lastRefill rl = Some l" "l \<le> now"
  shows "tokens (refill now rl) \<le> tokens rl + accrual (now - l) + slack / 2"
proof -
  define x where "x = fdiv (float64 (now - l)) (float64 (interval rl))"
  have x: "0 \<le> x" "x * (1 + 1 / 2 ^ 53) \<le> accrual (now - l)"
    using refill_rate [of "now - l" "interval rl"] assms by (simp_all add: x_def rl_wf_def)
  have t: "0 \<le> tokens rl" "tokens rl \<le> 2" using assms(1) by (simp_all add: rl_wf_def burstCapacity_def)
  have "tokens (refill now rl) \<le> f64 (tokens rl + x)"
    using assms by (simp add: refill_def Let_def x_def fadd_def)
  also have "\<dots> \<le> (tokens rl + x) * (1 + 1 / 2 ^ 53)" using x t by (intro f64_bounds) simp
  also have "\<dots> \<le> tokens rl + accrual (now - l) + slack / 2"
    using x(2) t by (simp add: slack_def distrib_right)
  finally show ?thesis .
qed

lemma wait_turn_tokens:
  assumes "rl_wf rl" "lastRefill rl = Some l" "l \<le> now" "wait_turn now rl = (r, rl')"
  shows "tokens rl' + (if r = None then 1 else 0) \<le> tokens rl + accrual (now - l) + slack"
    "lastRefill rl' = Some now"
proof -
  define t where "t = tokens (refill now rl)"
  have t: "t \<le> 2" using refill_wf [OF assms(1)] by (simp add: rl_wf_def t_def burstCapacity_def)
  have "fsub t 1 \<le> t - 1 + slack / 2" if "1 \<le> t"
    using that t f64_bounds(2) [of "t - 1"] by (simp add: fsub_def slack_def)
  then show "tokens rl' + (if r = None then 1 else 0) \<le> tokens rl + accrual (now - l) + slack"
    using refill_tokens [OF assms(1-3)] assms(4)
    by (auto simp: wait_turn_def Let_def t_def [symmetric] slack_def split: if_splits)
  show "lastRefill rl' = Some now" using assms(4) by (auto simp: wait_turn_def Let_def split: if_splits)
qed

lemma Record_tokens: "tokens (RecordSend now rl) = tokens (refill now rl)" "lastRefill (RecordSend now rl) = Some now"
  by (simp_all add: RecordSend_def Let_def)

lemma rl_run_bound:
  assumes "rl_wf rl" "lastRefill rl = Some l" "sorted (l # map op_time ops @ [t1])"
  shows "of_nat (fst (rl_run ops rl)) \<le> tokens rl + accrual (t1 - l) + of_nat (length ops) * slack"
  using assms
proof (induction ops arbitrary: rl l)
  case Nil
  then show ?case by (simp add: rl_wf_def accrual_nonneg)
next
  case (Cons x ops)
  have len: "of_nat (length (x # ops)) * slack = of_nat (length ops) * slack + slack"
    by (simp add: distrib_right)
  have sl: "0 \<le> slack" by (simp add: slack_def)
  have srt: "l \<le> op_time x" "sorted (op_time x # map op_time ops @ [t1])" using Cons.prems(3) by auto
  have acc: "accrual (t1 - l) = accrual (now - l) + accrual (t1 - now)" for now
    using accrual_add [of "now - l" "t1 - now"] by simp
  show ?case
  proof (cases x)
    case (WaitTurn now)
    obtain r rl' where w: "wait_turn now rl = (r, rl')" by (cases "wait_turn now rl")
    have "of_nat (fst (rl_run ops rl')) \<le> tokens rl' + accrual (t1 - now) + of_nat (length ops) * slack"
    proof (rule Cons.IH)
      show "rl_wf rl'" using wait_turn_wf [OF Cons.prems(1), of now] w by simp
      show "lastRefill rl' = Some now"
        using wait_turn_tokens(2) [OF Cons.prems(1,2) _ w] srt(1) WaitTurn by simp
      show "sorted (now # map op_time ops @ [t1])" using srt(2) WaitTurn by simp
    qed
    moreover have "tokens rl' + (if r = None then 1 else 0) \<le> tokens rl + accrual (now - l) + slack"
      using wait_turn_tokens(1) [OF Cons.prems(1,2) _ w] srt(1) WaitTurn by simp
    moreover have "fst (rl_run (x # ops) rl) = fst (rl_run ops rl') + (if r = None then 1 else 0)"
      using w WaitTurn by (simp add: split_beta)
    ultimately show ?thesis using acc [of now] unfolding len by (cases "r = None") simp_all
  next
    case (Record now)
    have "of_nat (fst (rl_run ops (RecordSend now rl))) \<le>
        tokens (refill now rl) + accrual (t1 - now) + of_nat (length ops) * slack"
      using Cons.IH [OF RecordSend_wf [OF Cons.prems(1)] Record_tokens(2), of now] srt(2) Record
      by (simp add: Record_tokens)
    moreover have "tokens (refill now rl) \<le> tokens rl + accrual (now - l) + slack / 2"
      using refill_tokens [OF Cons.prems(1,2)] srt(1) Record by simp
    ultimately show ?thesis using Record acc [of now] sl unfolding len by simp
  next
    case (Retry now)
    have l: "lastRefill (RecordRetryAfter now rl) = Some now" "tokens (RecordRetryAfter now rl) = 0"
      by (simp_all add: RecordRetryAfter_def Let_def)
    have "of_nat (fst (rl_run ops (RecordRetryAfter now rl))) \<le>
        0 + accrual (t1 - now) + of_nat (length ops) * slack"
      using Cons.IH [OF RecordRetryAfter_wf [OF Cons.prems(1)] l(1)] srt(2) Retry l(2) by simp
    moreover have "0 \<le> accrual (now - l)" using srt(1) Retry by (simp add: accrual_nonneg)
    moreover have "0 \<le> tokens rl" using Cons.prems(1) by (simp add: rl_wf_def)
    ultimately show ?thesis using Retry acc [of now] sl unfolding len by simp
  qed
qed

lemma rl_run_wf: "rl_wf rl \<Longrightarrow> rl_wf (snd (rl_run ops rl))"
proof (induction ops arbitrary: rl)
  case (Cons x ops)
  then show ?case
    by (cases x) (simp_all add: split_beta RecordSend_wf RecordRetryAfter_wf wait_turn_wf)
qed simp

subsection \<open>Properties\<close>

text \<open>
  C16. The bucket keeps the rate: between the creation of a limiter and any later moment, the
  number of calls it lets through is at most its burst of two plus one for every minimal interval
  of 800 ms that has passed, up to rounding of the \<^verbatim>\<open>float64\<close> tokens (one part in \<open>2 ^ 50\<close> of the
  time and \<open>2 ^ -50\<close> for every operation), whatever the order of sends and 429 answers.
\<close>

theorem send_rate_bounded:
  assumes "sorted (t0 # map op_time ops @ [t1])"
  shows "of_nat (fst (rl_run ops (NewRateLimiter t0))) \<le>
    2 + (of_int (t1 - t0) / of_int minInterval) * (1 + slack) + of_nat (length ops) * slack"
proof -
  have "tokens (NewRateLimiter t0) = 2" "lastRefill (NewRateLimiter t0) = Some t0"
    by (simp_all add: NewRateLimiter_def newRateLimiter_def burstCapacity_def)
  then show ?thesis using rl_run_bound [OF NewRateLimiter_wf [of t0] _ assms]
    by (simp add: accrual_def)
qed

theorem send_rate_bounded_witness:
  "(of_nat (fst (rl_run [WaitTurn 0, WaitTurn 0, WaitTurn 0, Retry 5, WaitTurn 800000000] (NewRateLimiter 0))) :: rat)
     \<le> 2 + (of_int (800000000 - 0) / of_int minInterval) * (1 + slack) + 5 * slack"
  using send_rate_bounded [of 0 "[WaitTurn 0, WaitTurn 0, WaitTurn 0, Retry 5, WaitTurn 800000000]" 800000000]
  by simp

text \<open>
  The adaptive interval stays between 800 ms and 30 s and the tokens between 0 and the burst,
  through every sequence of operations.
\<close>

lemma limiter_range:
  "let rl = snd (rl_run ops (NewRateLimiter t0))
   in 800 * Millisecond \<le> interval rl \<and> interval rl \<le> 30 * Second \<and> 0 \<le> tokens rl \<and> tokens rl \<le> 2"
  using rl_run_wf [OF NewRateLimiter_wf, of ops t0] by (simp add: rl_wf_def rl_const Let_def)

text \<open>
  Recovery: every successful send brings the interval closer to the minimum, by at least 50 ms
  and by at least a tenth of the distance, until the minimum is reached.
\<close>

lemma limiter_recovers:
  assumes "rl_wf rl"
  shows "let gap = interval rl - minInterval; gap' = interval (RecordSend now rl) - minInterval
    in 0 \<le> gap' \<and> gap' \<le> max 0 (gap - 50 * Millisecond) \<and> 10 * gap' \<le> 9 * gap + 9"
  using assms
  by (auto simp: RecordSend_def Let_def rl_wf_def rl_const quot64_nonneg)

end
