(* ===== verification/Sender.thy ===== *)
theory Sender
  imports Telegram_Api Go_Base64 Rate_Limiter "HOL-Library.Monad_Syntax"
begin

text \<open>
  \<^verbatim>\<open>telegram/sender.go\<close>: how a sealed batch becomes a message. Small batches travel as text, larger
  ones as documents; both carry the sender's bot number and the zero-padded sequence number. The
  API calls are parameters over a state; the retry loop may run forever against a server that
  only answers 429, so it is a partial function.
\<close>

subsection \<open>Names and texts\<close>

definition senderMaxRetries :: nat where "senderMaxRetries = 3"
definition senderInitialBackoff :: duration where "senderInitialBackoff = 2 * Second"
definition maxMessageChars :: nat where "maxMessageChars = 4096"

definition filenameBases :: "string list" where
  "filenameBases = [''backup'', ''export'', ''archive'']"

definition rotatingFilename :: "int \<Rightarrow> 64 word \<Rightarrow> string" where
  "rotatingFilename botID seq =
     (let base = filenameBases ! (unat seq mod length filenameBases)
      in fmt_d botID @ ''_'' @ fmt_0d 12 (unat seq) @ ''_'' @ base @ ''.bin.zst'')"

definition fitsTextBatch :: "int \<Rightarrow> 64 word \<Rightarrow> bytes \<Rightarrow> bool" where
  "fitsTextBatch botID seq data \<longleftrightarrow>
     length (fmt_d botID @ ''_'' @ fmt_0d 12 (unat seq) @ [CHR 0x0A]) + EncodedLen (length data)
       \<le> maxMessageChars"

definition formatTextBatch :: "int \<Rightarrow> 64 word \<Rightarrow> bytes \<Rightarrow> string" where
  "formatTextBatch botID seq data =
     fmt_d botID @ ''_'' @ fmt_0d 12 (unat seq) @ [CHR 0x0A] @ EncodeToString data"

subsection \<open>Sending\<close>

record sender =
  s_botID :: int
  s_channelID :: int
  retry429Count :: nat

definition NewSender :: "int \<Rightarrow> int \<Rightarrow> sender" where
  "NewSender botID channelID = \<lparr>s_botID = botID, s_channelID = channelID, retry429Count = 0\<rparr>"

definition Retry429Count :: "sender \<Rightarrow> nat" where
  "Retry429Count sd = retry429Count sd"

text \<open>
  What the loop does to the limiter and to the clock, in order: \<^verbatim>\<open>Wait\<close>, \<^verbatim>\<open>RecordSend\<close>,
  \<^verbatim>\<open>RecordRetryAfter\<close> with its seconds, and the sleep before a further attempt.
\<close>

datatype limiter_event = LWaited | LRecorded | LRetryAfter int | LSlept duration

partial_function (option) send_loop ::
  "('s \<Rightarrow> (int \<times> go_error option) \<times> 's) \<Rightarrow> nat \<Rightarrow> duration \<Rightarrow> sender \<times> 's
    \<Rightarrow> (go_error option \<times> limiter_event list \<times> sender \<times> 's) option" where
  "send_loop sendFn attempt backoff st =
     (case st of (sd, s) \<Rightarrow>
        let ((retryAfter, err), s') = sendFn s
        in case err of
             None \<Rightarrow> Some (None, [LWaited, LRecorded], sd, s')
           | Some e \<Rightarrow>
               if 0 < retryAfter then do {
                 (r, evs, st') \<leftarrow> send_loop sendFn (attempt + 1) backoff
                                    (sd\<lparr>retry429Count := retry429Count sd + 1\<rparr>, s');
                 Some (r, [LWaited, LRetryAfter retryAfter] @ evs, st')
               }
               else if isPermanentError e then Some (Some e, [LWaited, LRecorded], sd, s')
               else if senderMaxRetries \<le> attempt then Some (Some e, [LWaited, LRecorded], sd, s')
               else do {
                 (r, evs, st') \<leftarrow> send_loop sendFn (attempt + 1) (backoff * 2) (sd, s');
                 Some (r, [LWaited, LRecorded, LSlept backoff] @ evs, st')
               })"

definition sendRetry ::
  "('s \<Rightarrow> (int \<times> go_error option) \<times> 's) \<Rightarrow> sender \<times> 's
    \<Rightarrow> (go_error option \<times> limiter_event list \<times> sender \<times> 's) option" where
  "sendRetry sendFn st = send_loop sendFn 0 senderInitialBackoff st"

definition Send ::
  "(int \<Rightarrow> string \<Rightarrow> 's \<Rightarrow> (int \<times> go_error option) \<times> 's)
    \<Rightarrow> (int \<Rightarrow> string \<Rightarrow> bytes \<Rightarrow> 's \<Rightarrow> (int \<times> go_error option) \<times> 's)
    \<Rightarrow> 64 word \<Rightarrow> bytes \<Rightarrow> bool \<Rightarrow> sender \<times> 's
    \<Rightarrow> (go_error option \<times> limiter_event list \<times> sender \<times> 's) option" where
  "Send sendMessage sendDocument seq data urgent st =
     (case st of (sd, s) \<Rightarrow>
        if fitsTextBatch (s_botID sd) seq data then
          sendRetry (sendMessage (s_channelID sd) (formatTextBatch (s_botID sd) seq data)) st
        else
          sendRetry (sendDocument (s_channelID sd) (rotatingFilename (s_botID sd) seq) data) st)"

subsection \<open>The retry loop\<close>

text \<open>The state of the network before the \<open>k\<close>-th call, and the answer of that call.\<close>

definition api_state :: "('s \<Rightarrow> (int \<times> go_error option) \<times> 's) \<Rightarrow> 's \<Rightarrow> nat \<Rightarrow> 's" where
  "api_state sendFn s k = ((\<lambda>s. snd (sendFn s)) ^^ k) s"

definition api_answer :: "('s \<Rightarrow> (int \<times> go_error option) \<times> 's) \<Rightarrow> 's \<Rightarrow> nat \<Rightarrow> int \<times> go_error option" where
  "api_answer sendFn s k = fst (sendFn (api_state sendFn s k))"

text \<open>An answer with which call number \<open>k\<close> ends the loop.\<close>

definition final_answer :: "nat \<Rightarrow> int \<times> go_error option \<Rightarrow> bool" where
  "final_answer k ans \<longleftrightarrow>
     (case ans of
        (_, None) \<Rightarrow> True
      | (retryAfter, Some e) \<Rightarrow> retryAfter \<le> 0 \<and> (isPermanentError e \<or> senderMaxRetries \<le> k))"

lemma api_0 [simp]: "api_state sendFn s 0 = s" "api_answer sendFn s 0 = fst (sendFn s)"
  by (simp_all add: api_state_def api_answer_def)

lemma api_Suc:
  "api_state sendFn s (Suc k) = api_state sendFn (snd (sendFn s)) k"
  "api_answer sendFn s (Suc k) = api_answer sendFn (snd (sendFn s)) k"
  by (simp_all add: api_state_def api_answer_def funpow_Suc_right del: funpow.simps)

lemma send_loop_ends:
  assumes "final_answer (attempt + n) (api_answer sendFn s n)"
    and "\<forall>k < n. \<not> final_answer (attempt + k) (api_answer sendFn s k)"
  shows "\<exists>evs sd'. send_loop sendFn attempt backoff (sd, s) =
           Some (snd (api_answer sendFn s n), evs, sd', api_state sendFn s (Suc n))
         \<and> s_botID sd' = s_botID sd \<and> s_channelID sd' = s_channelID sd"
  using assms
proof (induction n arbitrary: attempt backoff sd s)
  case 0
  obtain r e s' where c: "sendFn s = ((r, e), s')" by (metis prod.exhaust)
  show ?case using 0 unfolding send_loop.simps [of _ attempt]
    by (auto simp: c final_answer_def api_Suc split: option.splits)
next
  case (Suc n)
  obtain r e s' where c: "sendFn s = ((r, e), s')" by (metis prod.exhaust)
  have nf: "\<not> final_answer attempt (r, e)" using Suc.prems(2) c by (auto dest: spec [of _ 0])
  then obtain err where e: "e = Some err" by (auto simp: final_answer_def split: option.splits)
  have rest: "final_answer (attempt + 1 + n) (api_answer sendFn s' n)"
      "\<forall>k < n. \<not> final_answer (attempt + 1 + k) (api_answer sendFn s' k)"
    using Suc.prems c by (auto simp: api_Suc dest: spec [of _ "Suc _"])
  show ?case
  proof (cases "0 < r")
    case True
    then show ?thesis
      using Suc.IH [OF rest, of backoff "sd\<lparr>retry429Count := retry429Count sd + 1\<rparr>"] c
      unfolding send_loop.simps [of _ attempt] by (auto simp: e api_Suc)
  next
    case False
    then show ?thesis
      using Suc.IH [OF rest, of "backoff * 2" sd] c nf
      unfolding send_loop.simps [of _ attempt] by (auto simp: e api_Suc final_answer_def)
  qed
qed

lemma send_loop_Some:
  assumes "send_loop sendFn attempt backoff st = Some r"
  shows "\<exists>n. final_answer (attempt + n) (api_answer sendFn (snd st) n)"
proof (rule send_loop.raw_induct [OF _ assms,
      where P = "\<lambda>sendFn attempt backoff st r. \<exists>n. final_answer (attempt + n) (api_answer sendFn (snd st) n)"],
    goal_cases)
  case (1 f sendFn attempt backoff st r)
  obtain sd s where st: "st = (sd, s)" by (cases st)
  obtain ra e s' where c: "sendFn s = ((ra, e), s')" by (metis prod.exhaust)
  have step: "\<exists>n. final_answer (attempt + n) (api_answer sendFn s n)"
    if rec: "f sendFn (attempt + 1) b (sd', s') = Some r'" for b sd' r'
  proof -
    obtain n where "final_answer (attempt + 1 + n) (api_answer sendFn s' n)" using 1(1) [OF rec] by auto
    then show ?thesis using c by (intro exI [of _ "Suc n"]) (simp add: api_Suc)
  qed
  show ?case
  proof (cases "final_answer attempt (ra, e)")
    case True
    then show ?thesis using c st by (intro exI [of _ 0]) simp
  next
    case False
    then obtain err where e: "e = Some err" by (auto simp: final_answer_def split: option.splits)
    show ?thesis
      using 1(2) False step
      by (auto simp: st c e final_answer_def Option.bind_eq_Some_conv split: if_splits)
  qed
qed

lemma length_formatTextBatch:
  "fitsTextBatch botID seq data \<longleftrightarrow> length (formatTextBatch botID seq data) \<le> maxMessageChars"
  by (simp add: fitsTextBatch_def formatTextBatch_def add.assoc)

subsection \<open>Properties\<close>

text \<open>
  C24. The sender's retry loop returns exactly when some answer ends it: a success, a permanent
  refusal, or an error without a retry hint at call number four or later. It returns the first
  such answer after exactly that many calls; 429 answers are retried without bound, but they use
  up the attempts that transient errors have.
\<close>

theorem send_retry_exact:
  "(sendRetry sendFn (sd, s) \<noteq> None \<longleftrightarrow> (\<exists>n. final_answer n (api_answer sendFn s n)))
   \<and> (\<forall>n. final_answer n (api_answer sendFn s n) \<and> (\<forall>k < n. \<not> final_answer k (api_answer sendFn s k))
        \<longrightarrow> (\<exists>evs sd'. sendRetry sendFn (sd, s) =
              Some (snd (api_answer sendFn s n), evs, sd', api_state sendFn s (Suc n))))"
proof (intro conjI iffI allI impI)
  assume "sendRetry sendFn (sd, s) \<noteq> None"
  then obtain r where "sendRetry sendFn (sd, s) = Some r" by blast
  then show "\<exists>n. final_answer n (api_answer sendFn s n)"
    using send_loop_Some [of sendFn 0 senderInitialBackoff "(sd, s)" r] by (simp add: sendRetry_def)
next
  assume ex: "\<exists>n. final_answer n (api_answer sendFn s n)"
  let ?n = "LEAST n. final_answer n (api_answer sendFn s n)"
  have "final_answer ?n (api_answer sendFn s ?n)" using ex by (rule LeastI_ex)
  moreover have "\<forall>k < ?n. \<not> final_answer k (api_answer sendFn s k)" using not_less_Least by blast
  ultimately show "sendRetry sendFn (sd, s) \<noteq> None"
    using send_loop_ends [of 0 ?n sendFn s senderInitialBackoff sd] by (auto simp: sendRetry_def)
next
  fix n assume "final_answer n (api_answer sendFn s n) \<and> (\<forall>k < n. \<not> final_answer k (api_answer sendFn s k))"
  then show "\<exists>evs sd'. sendRetry sendFn (sd, s) =
      Some (snd (api_answer sendFn s n), evs, sd', api_state sendFn s (Suc n))"
    using send_loop_ends [of 0 n sendFn s senderInitialBackoff sd] by (auto simp: sendRetry_def)
qed

theorem send_retry_exact_witness:
  "\<exists>evs sd'. sendRetry (\<lambda>s. (if s < 3 then (1, Some (PlainError ''429'')) else (0, Some (PlainError ''timeout'')), s + 1))
      (NewSender 1 2, 0 :: nat) = Some (Some (PlainError ''timeout''), evs, sd', 4)"
proof -
  define net where
    "net = (\<lambda>s :: nat. (if s < 3 then (1 :: int, Some (PlainError ''429'')) else (0, Some (PlainError ''timeout'')), s + 1))"
  have st: "api_state net 0 k = k" for k by (induction k) (simp_all add: api_state_def net_def)
  have ans: "api_answer net 0 k = (if k < 3 then (1, Some (PlainError ''429'')) else (0, Some (PlainError ''timeout'')))" for k
    by (simp add: api_answer_def st) (simp add: net_def)
  have "final_answer 3 (api_answer net 0 3) \<and> (\<forall>k < 3. \<not> final_answer k (api_answer net 0 k))"
    by (simp add: ans final_answer_def senderMaxRetries_def)
  then have "\<exists>evs sd'. sendRetry net (NewSender 1 2, 0) =
      Some (snd (api_answer net 0 3), evs, sd', api_state net 0 (Suc 3))"
    using send_retry_exact [of net "NewSender 1 2" 0] by blast
  then show ?thesis by (simp add: ans st) (simp add: net_def)
qed

end
