(* ===== verification/Poller.thy ===== *)
theory Poller
  imports Sender "HOL-Library.List_Lexorder" "HOL-Library.Char_ord" "HOL-Library.Multiset"
begin

text \<open>
  \<^verbatim>\<open>telegram/poller.go\<close>: one round of the poll loop takes the updates the API returned, advances the
  offset, picks the posts of the peer in this channel, sorts them by the key in front and hands
  their bytes on, downloading documents on the way. The main result is that the receiver gets the
  batches of a round in the order of their sequence numbers, whether they came as text or as
  documents and in whatever order the posts arrived.
\<close>

subsection \<open>Definitions\<close>

definition pollerInitialBackoff :: duration where "pollerInitialBackoff = 1 * Second"
definition pollerMaxBackoff :: duration where "pollerMaxBackoff = 30 * Second"

record poller =
  peerBotID :: int
  p_channelID :: int
  offset :: int
  errorBackoff :: duration

definition NewPoller :: "int \<Rightarrow> int \<Rightarrow> poller" where
  "NewPoller peer channel =
     \<lparr>peerBotID = peer, p_channelID = channel, offset = 0, errorBackoff = pollerInitialBackoff\<rparr>"

record batch_item =
  sortKey :: string
  item_data :: "bytes option"
  fileID :: string

definition peerPrefix :: "poller \<Rightarrow> string" where
  "peerPrefix p = fmt_d (peerBotID p) @ ''_''"

text \<open>The body of the loop over the updates: the item a post becomes, if any.\<close>

definition post_item :: "poller \<Rightarrow> channel_post \<Rightarrow> batch_item option" where
  "post_item p cp =
     (if Chat_ID cp \<noteq> p_channelID p then None
      else if Text cp \<noteq> '''' \<and> HasPrefix (Text cp) (peerPrefix p) then
        (case SplitN2 (Text cp) (CHR 0x0A) of
           [key, body] \<Rightarrow>
             (case DecodeString body of
                None \<Rightarrow> None
              | Some d \<Rightarrow> Some \<lparr>sortKey = key, item_data = Some d, fileID = ''''\<rparr>)
         | _ \<Rightarrow> None)
      else
        (case Document cp of
           None \<Rightarrow> None
         | Some d \<Rightarrow>
             if HasPrefix (FileName d) (peerPrefix p) \<and> HasSuffix (FileName d) ''.bin.zst'' then
               Some \<lparr>sortKey = TrimSuffix (FileName d) ''.bin.zst'', item_data = None, fileID = FileID d\<rparr>
             else None))"

fun scan_updates :: "update list \<Rightarrow> poller \<Rightarrow> batch_item list \<times> poller" where
  "scan_updates [] p = ([], p)"
| "scan_updates (u # us) p =
     (let p1 = (if offset p \<le> UpdateID u then p\<lparr>offset := UpdateID u + 1\<rparr> else p);
          (items, p2) = scan_updates us p1
      in (case Option.bind (ChannelPost u) (post_item p1) of
            None \<Rightarrow> (items, p2)
          | Some it \<Rightarrow> (it # items, p2)))"

text \<open>
  Handing on the sorted items; a failed download drops its item. (\<^verbatim>\<open>sort.Slice\<close> may order items
  with the same key either way; the model keeps their order.)
\<close>

fun deliver_items ::
  "(string \<Rightarrow> 's \<Rightarrow> (go_error + bytes) \<times> 's) \<Rightarrow> batch_item list \<Rightarrow> 's \<Rightarrow> bytes list \<times> 's" where
  "deliver_items download [] s = ([], s)"
| "deliver_items download (it # items) s =
     (case item_data it of
        Some d \<Rightarrow> let (ds, s') = deliver_items download items s in (d # ds, s')
      | None \<Rightarrow>
          (case download (fileID it) s of
             (Inl _, s1) \<Rightarrow> deliver_items download items s1
           | (Inr d, s1) \<Rightarrow> let (ds, s2) = deliver_items download items s1 in (d # ds, s2)))"

text \<open>
  One round of \<^verbatim>\<open>Run\<close>: what is put on the receive channel, how long the loop sleeps before the next
  round, and the new states.
\<close>

definition poll_round ::
  "(int \<Rightarrow> int \<Rightarrow> 's \<Rightarrow> (go_error + update list) \<times> 's)
    \<Rightarrow> (string \<Rightarrow> 's \<Rightarrow> (go_error + bytes) \<times> 's)
    \<Rightarrow> poller \<Rightarrow> 's \<Rightarrow> bytes list \<times> duration \<times> poller \<times> 's" where
  "poll_round getUpdates download p s =
     (case getUpdates (offset p) 30 s of
        (Inl e, s1) \<Rightarrow>
          ([], errorBackoff p,
           p\<lparr>errorBackoff := min (errorBackoff p * 2) pollerMaxBackoff\<rparr>, s1)
      | (Inr updates, s1) \<Rightarrow>
          let p1 = p\<lparr>errorBackoff := pollerInitialBackoff\<rparr>;
              (items, p2) = scan_updates updates p1;
              (delivered, s2) = deliver_items download (sort_key sortKey items) s1
          in (delivered, 0, p2, s2))"

subsection \<open>Offsets\<close>

lemma scan_offset:
  "offset (snd (scan_updates us p)) = Max (insert (offset p) ((\<lambda>u. UpdateID u + 1) ` set us))"
proof (induction us arbitrary: p)
  case Nil
  then show ?case by simp
next
  case (Cons u us)
  let ?p1 = "if offset p \<le> UpdateID u then p\<lparr>offset := UpdateID u + 1\<rparr> else p"
  have "offset (snd (scan_updates (u # us) p)) = offset (snd (scan_updates us ?p1))"
    by (simp add: split_beta Let_def split: option.split)
  moreover have "offset ?p1 = max (offset p) (UpdateID u + 1)" by (simp add: max_def)
  ultimately show ?case by (simp add: Cons.IH Max_insert2 max.assoc max.commute insert_commute)
      (cases "us = []"; simp add: max.assoc)
qed

lemma post_item_offset [simp]:
  "post_item (p\<lparr>offset := n\<rparr>) cp = post_item p cp"
  "post_item (p\<lparr>errorBackoff := d\<rparr>) cp = post_item p cp"
  unfolding post_item_def peerPrefix_def by (simp_all split: option.split)

lemma scan_items: "fst (scan_updates us p) = List.map_filter (\<lambda>u. Option.bind (ChannelPost u) (post_item p)) us"
proof (induction us arbitrary: p)
  case (Cons u us)
  let ?p1 = "if offset p \<le> UpdateID u then p\<lparr>offset := UpdateID u + 1\<rparr> else p"
  have eq: "post_item ?p1 = post_item p" by (rule ext) simp
  have "fst (scan_updates (u # us) p) =
      (case Option.bind (ChannelPost u) (post_item p) of
         None \<Rightarrow> fst (scan_updates us ?p1) | Some it \<Rightarrow> it # fst (scan_updates us ?p1))"
    by (simp only: scan_updates.simps Let_def split_beta eq) (simp split: option.split)
  then show ?case unfolding Cons.IH [of ?p1] eq
    by (simp add: List.map_filter_simps split: option.split)
qed (simp add: List.map_filter_simps)

subsection \<open>Posts that carry a batch\<close>

text \<open>
  A post that carries a batch as the sender writes it: in this channel, as text when it fits, and
  otherwise as a document without a caption whose file holds the bytes.
\<close>

definition carries ::
  "(string \<Rightarrow> bytes option) \<Rightarrow> poller \<Rightarrow> 64 word \<times> bytes \<Rightarrow> channel_post \<Rightarrow> bool" where
  "carries content p b cp \<longleftrightarrow>
     Chat_ID cp = p_channelID p \<and>
     (if fitsTextBatch (peerBotID p) (fst b) (snd b)
      then Text cp = formatTextBatch (peerBotID p) (fst b) (snd b)
      else Text cp = '''' \<and> (\<exists>d. Document cp = Some d \<and> FileName d = rotatingFilename (peerBotID p) (fst b)
             \<and> content (FileID d) = Some (snd b)))"

text \<open>A post of someone else: another chat, or neither text nor file name starts with the peer's number.\<close>

definition foreign :: "poller \<Rightarrow> channel_post \<Rightarrow> bool" where
  "foreign p cp \<longleftrightarrow>
     Chat_ID cp \<noteq> p_channelID p
   \<or> \<not> HasPrefix (Text cp) (peerPrefix p)
     \<and> (\<forall>d. Document cp = Some d \<longrightarrow> \<not> HasPrefix (FileName d) (peerPrefix p))"

lemma foreign_skipped: "foreign p cp \<Longrightarrow> post_item p cp = None"
  by (auto simp: foreign_def post_item_def split: option.split)

definition batch_key :: "poller \<Rightarrow> 64 word \<times> bytes \<Rightarrow> string" where
  "batch_key p b =
     fmt_d (peerBotID p) @ ''_'' @ fmt_0d 12 (unat (fst b)) @
     (if fitsTextBatch (peerBotID p) (fst b) (snd b) then ''''
      else ''_'' @ filenameBases ! (unat (fst b) mod length filenameBases))"

text \<open>An item that stands for a batch: it sorts by the batch's key and yields the batch's bytes.\<close>

definition item_for :: "(string \<Rightarrow> bytes option) \<Rightarrow> poller \<Rightarrow> batch_item \<Rightarrow> 64 word \<times> bytes \<Rightarrow> bool" where
  "item_for content p it b \<longleftrightarrow> sortKey it = batch_key p b \<and>
     (case item_data it of Some d \<Rightarrow> d = snd b | None \<Rightarrow> content (fileID it) = Some (snd b))"

lemma fmt_0d_no_newline: "CHR 0x0A \<notin> set (fmt_0d w n)"
  using dec_nat_digits [of n] by (auto simp: fmt_0d_def Let_def)

lemma carries_item:
  assumes "carries content p b cp"
  shows "\<exists>it. post_item p cp = Some it \<and> item_for content p it b"
proof (cases "fitsTextBatch (peerBotID p) (fst b) (snd b)")
  case True
  let ?key = "fmt_d (peerBotID p) @ ''_'' @ fmt_0d 12 (unat (fst b))"
  have t: "Text cp = ?key @ CHR 0x0A # EncodeToString (snd b)" "Chat_ID cp = p_channelID p"
    using assms True by (simp_all add: carries_def formatTextBatch_def)
  have "HasPrefix (Text cp) (peerPrefix p)"
    unfolding t peerPrefix_def HasPrefix_iff by simp
  moreover have "SplitN2 (Text cp) (CHR 0x0A) = [?key, EncodeToString (snd b)]"
    unfolding t by (rule SplitN2_append) (simp add: fmt_0d_no_newline)
  moreover have "Text cp \<noteq> ''''" by (simp add: t)
  ultimately show ?thesis
    using t(2) True by (simp add: post_item_def item_for_def batch_key_def)
next
  case False
  let ?base = "filenameBases ! (unat (fst b) mod length filenameBases)"
  obtain d where d: "Document cp = Some d" "FileName d = rotatingFilename (peerBotID p) (fst b)"
      "content (FileID d) = Some (snd b)" and t: "Text cp = ''''" "Chat_ID cp = p_channelID p"
    using assms False by (auto simp: carries_def)
  have f: "FileName d = batch_key p b @ ''.bin.zst''"
    using False by (simp add: d(2) rotatingFilename_def batch_key_def Let_def)
  have "HasPrefix (FileName d) (peerPrefix p)"
    unfolding f batch_key_def peerPrefix_def HasPrefix_iff by simp
  then show ?thesis
    using d(1,3) t by (simp add: post_item_def item_for_def f)
qed

lemma batch_key_le:
  assumes "unat (fst b) < 10 ^ 12" "unat (fst b') < 10 ^ 12" "fst b = fst b' \<longrightarrow> snd b = snd b'"
  shows "batch_key p b \<le> batch_key p b' \<longleftrightarrow> fst b \<le> fst b'"
proof -
  let ?sfx = "\<lambda>b. if fitsTextBatch (peerBotID p) (fst b) (snd b) then ''''
      else ''_'' @ filenameBases ! (unat (fst b) mod length filenameBases)"
  have less: "batch_key p x < batch_key p y \<longleftrightarrow> unat (fst x) < unat (fst y) \<or> unat (fst x) = unat (fst y) \<and> ?sfx x < ?sfx y"
    if "unat (fst x) < 10 ^ 12" "unat (fst y) < 10 ^ 12" for x y
    unfolding batch_key_def less_append_left using that by (simp only: fmt_0d_less_iff)
  have same: "fst b = fst b' \<Longrightarrow> ?sfx b = ?sfx b'" using assms(3) by simp
  show ?thesis
    using less [OF assms(2,1)] same assms
    by (auto simp: not_less [symmetric] word_less_nat_alt word_unat_eq_iff)
qed

subsection \<open>Sorting and handing on\<close>

lemma insort_all2:
  "list_all2 R xs ys \<Longrightarrow> R x y \<Longrightarrow> \<forall>a b. R a b \<longrightarrow> k a = K b \<Longrightarrow>
     list_all2 R (insort_key k x xs) (insort_key K y ys)"
  by (induction xs ys rule: list_all2_induct) auto

lemma sort_all2:
  "list_all2 R xs ys \<Longrightarrow> \<forall>a b. R a b \<longrightarrow> k a = K b \<Longrightarrow> list_all2 R (sort_key k xs) (sort_key K ys)"
  by (induction xs ys rule: list_all2_induct) (auto intro: insort_all2)

lemma insort_key_order_cong:
  "\<forall>y \<in> set ys. K x \<le> K y \<longleftrightarrow> j x \<le> j y \<Longrightarrow> insort_key K x ys = insort_key j x ys"
  by (induction ys) auto

lemma sort_key_order_cong:
  "\<forall>x \<in> set xs. \<forall>y \<in> set xs. K x \<le> K y \<longleftrightarrow> j x \<le> j y \<Longrightarrow> sort_key K xs = sort_key j xs"
  by (induction xs) (auto simp: insort_key_order_cong)

definition file_ids :: "batch_item list \<Rightarrow> string list" where
  "file_ids items = map fileID (filter (\<lambda>it. item_data it = None) items)"

lemma file_ids_simps [simp]:
  "file_ids [] = []"
  "file_ids (it # items) = (if item_data it = None then [fileID it] else []) @ file_ids items"
  by (simp_all add: file_ids_def)

lemma distinct_file_ids_sort: "distinct (file_ids (sort_key k items)) \<longleftrightarrow> distinct (file_ids items)"
proof -
  have "mset (file_ids (sort_key k items)) = mset (file_ids items)"
    unfolding file_ids_def by (simp only: mset_map mset_filter mset_sort)
  then show ?thesis by (rule mset_eq_imp_distinct_iff)
qed

text \<open>The documents of the posts in a list of updates.\<close>

definition document_ids :: "update list \<Rightarrow> string list" where
  "document_ids us = map FileID (List.map_filter (\<lambda>u. Option.bind (ChannelPost u) Document) us)"

lemma post_item_document:
  "post_item p cp = Some it \<Longrightarrow> item_data it = None \<Longrightarrow> \<exists>d. Document cp = Some d \<and> fileID it = FileID d"
  by (auto simp: post_item_def split: if_splits option.splits list.splits)

lemma distinct_scan_files:
  "distinct (document_ids us) \<Longrightarrow>
     distinct (file_ids (fst (scan_updates us p))) \<and> set (file_ids (fst (scan_updates us p))) \<subseteq> set (document_ids us)"
  unfolding scan_items
proof (induction us)
  case (Cons u us)
  show ?case
  proof (cases "Option.bind (ChannelPost u) (post_item p)")
    case None
    then show ?thesis using Cons by (auto simp: List.map_filter_simps document_ids_def split: option.splits)
  next
    case (Some it)
    then obtain cp where cp: "ChannelPost u = Some cp" "post_item p cp = Some it" by (auto simp: bind_eq_Some_conv)
    show ?thesis
    proof (cases "item_data it = None")
      case True
      then obtain d where "Document cp = Some d" "fileID it = FileID d" using post_item_document [OF cp(2)] by blast
      then show ?thesis using Cons cp True by (auto simp: List.map_filter_simps document_ids_def)
    next
      case False
      then show ?thesis using Cons cp by (auto simp: List.map_filter_simps document_ids_def split: option.splits)
    qed
  qed
qed (simp add: List.map_filter_simps document_ids_def)

text \<open>
  What the poller needs of \<^verbatim>\<open>DownloadFile\<close>: it returns the content of a file the store has, and takes
  nothing away but, possibly, that file.
\<close>

locale file_store =
  fixes download :: "string \<Rightarrow> 's \<Rightarrow> (go_error + bytes) \<times> 's"
    and stored :: "'s \<Rightarrow> string \<Rightarrow> bytes option"
  assumes download_stored: "stored s fid = Some d \<Longrightarrow> fst (download fid s) = Inr d"
    and download_others: "fid' \<noteq> fid \<Longrightarrow> stored (snd (download fid s)) fid' = stored s fid'"
begin

lemma deliver_all2:
  "list_all2 (item_for (stored s) p) items bs \<Longrightarrow> distinct (file_ids items) \<Longrightarrow>
     fst (deliver_items download items s) = map snd bs"
proof (induction items arbitrary: bs s)
  case (Cons it items)
  then obtain b bs' where bs: "bs = b # bs'" "item_for (stored s) p it b" "list_all2 (item_for (stored s) p) items bs'"
    by (auto simp: list_all2_Cons1)
  show ?case
  proof (cases "item_data it")
    case (Some d)
    then show ?thesis using Cons.IH [OF bs(3)] Cons.prems(2) bs by (simp add: item_for_def split_beta)
  next
    case None
    then have d: "fst (download (fileID it) s) = Inr (snd b)" using bs(2) download_stored by (simp add: item_for_def)
    let ?s = "snd (download (fileID it) s)"
    have "list_all2 (item_for (stored ?s) p) items bs'"
    proof (rule list.rel_mono_strong [OF bs(3)])
      fix x y assume "x \<in> set items" "y \<in> set bs'" "item_for (stored s) p x y"
      moreover have "item_data x = None \<longrightarrow> fileID x \<noteq> fileID it"
        using Cons.prems(2) None \<open>x \<in> set items\<close> by (fastforce simp: file_ids_def image_iff)
      ultimately show "item_for (stored ?s) p x y"
        using download_others [of "fileID x" "fileID it" s] by (simp add: item_for_def split: option.splits)
    qed
    then have "fst (deliver_items download items ?s) = map snd bs'" using Cons.IH Cons.prems(2) by simp
    then show ?thesis using None d bs(1) by (cases "download (fileID it) s") (simp add: split_beta)
  qed
qed simp

end

lemma scan_all2:
  assumes "\<forall>u \<in> set us. case batch_of u of
      Some b \<Rightarrow> (\<exists>cp. ChannelPost u = Some cp \<and> carries content p b cp)
    | None \<Rightarrow> (\<forall>cp. ChannelPost u = Some cp \<longrightarrow> foreign p cp)"
  shows "list_all2 (item_for content p) (fst (scan_updates us p)) (List.map_filter batch_of us)"
  using assms unfolding scan_items
proof (induction us)
  case (Cons u us)
  have u: "case batch_of u of
      Some b \<Rightarrow> (\<exists>cp. ChannelPost u = Some cp \<and> carries content p b cp)
    | None \<Rightarrow> (\<forall>cp. ChannelPost u = Some cp \<longrightarrow> foreign p cp)" using Cons.prems by simp
  show ?case
  proof (cases "batch_of u")
    case None
    then have "Option.bind (ChannelPost u) (post_item p) = None"
      using u by (cases "ChannelPost u") (auto simp: foreign_skipped)
    then show ?thesis using Cons None by (simp add: List.map_filter_simps)
  next
    case (Some b)
    then obtain cp where "ChannelPost u = Some cp" "carries content p b cp" using u by auto
    then obtain it where "Option.bind (ChannelPost u) (post_item p) = Some it" "item_for content p it b"
      using carries_item by fastforce
    then show ?thesis using Cons Some by (simp add: List.map_filter_simps)
  qed
qed (simp add: List.map_filter_simps)

lemma carries_backoff [simp]:
  "carries content (p\<lparr>errorBackoff := d\<rparr>) b cp = carries content p b cp"
  "foreign (p\<lparr>errorBackoff := d\<rparr>) cp = foreign p cp"
  by (simp_all add: carries_def foreign_def peerPrefix_def)

context file_store
begin

lemma poll_round_batches:
  assumes "getUpdates (offset p) 30 s = (Inr us, s')"
    and "\<forall>u \<in> set us. case batch_of u of
        Some b \<Rightarrow> (\<exists>cp. ChannelPost u = Some cp \<and> carries (stored s') p b cp)
      | None \<Rightarrow> (\<forall>cp. ChannelPost u = Some cp \<longrightarrow> foreign p cp)"
    and "distinct (document_ids us)"
    and "\<forall>b \<in> set (List.map_filter batch_of us). unat (fst b) < 10 ^ 12"
    and "\<forall>b \<in> set (List.map_filter batch_of us). \<forall>b' \<in> set (List.map_filter batch_of us).
           fst b = fst b' \<longrightarrow> snd b = snd b'"
  shows "\<exists>p' s''. poll_round getUpdates download p s =
      (map snd (sort_key fst (List.map_filter batch_of us)), 0, p', s'')
    \<and> offset p \<le> offset p' \<and> (\<forall>u \<in> set us. UpdateID u < offset p')"
proof -
  let ?bs = "List.map_filter batch_of us"
  let ?p1 = "p\<lparr>errorBackoff := pollerInitialBackoff\<rparr>"
  obtain items p2 where sc: "scan_updates us ?p1 = (items, p2)" by (cases "scan_updates us ?p1")
  obtain ds s2 where dl: "deliver_items download (sort_key sortKey items) s' = (ds, s2)"
    by (cases "deliver_items download (sort_key sortKey items) s'")
  have "list_all2 (item_for (stored s') ?p1) items ?bs"
    using scan_all2 [where us = us and batch_of = batch_of and content = "stored s'" and p = ?p1] assms(2)
    by (simp add: sc cong: option.case_cong)
  then have "list_all2 (item_for (stored s') ?p1) (sort_key sortKey items) (sort_key (batch_key ?p1) ?bs)"
    by (rule sort_all2) (simp add: item_for_def)
  moreover have "sort_key (batch_key ?p1) ?bs = sort_key fst ?bs"
  proof (intro sort_key_order_cong ballI)
    fix x y assume xy: "x \<in> set ?bs" "y \<in> set ?bs"
    show "batch_key ?p1 x \<le> batch_key ?p1 y \<longleftrightarrow> fst x \<le> fst y"
      by (rule batch_key_le) (use assms(4,5) xy in \<open>blast+\<close>)
  qed
  moreover have "distinct (file_ids (sort_key sortKey items))"
    using distinct_scan_files [OF assms(3), of ?p1] by (simp add: sc distinct_file_ids_sort)
  ultimately have "ds = map snd (sort_key fst ?bs)" using deliver_all2 dl by (metis fst_conv)
  moreover have o: "offset p2 = Max (insert (offset p) ((\<lambda>u. UpdateID u + 1) ` set us))"
    using scan_offset [of us ?p1] by (simp add: sc)
  have "offset p \<le> offset p2" unfolding o by (rule Max_ge) auto
  moreover have "UpdateID u < offset p2" if "u \<in> set us" for u
  proof -
    have "UpdateID u + 1 \<le> offset p2" unfolding o using that by (intro Max_ge) auto
    then show ?thesis by simp
  qed
  ultimately show ?thesis
    by (simp add: poll_round_def assms(1) sc dl)
qed

end

subsection \<open>Properties\<close>

text \<open>
  C12. A poll round hands on exactly the peer's batches among the updates, in the order of their
  sequence numbers: text messages and documents mixed, in any order of arrival, between posts of
  others, and with repeated posts of a batch. Needed are sequence numbers of at most twelve
  digits, one content per sequence number, and a store that has the documents of the round. The
  next round asks for updates after all of these.
\<close>

theorem poll_delivers_in_order:
  assumes "file_store download stored"
    and "getUpdates (offset p) 30 s = (Inr us, s')"
    and "\<forall>u \<in> set us. case batch_of u of
        Some b \<Rightarrow> (\<exists>cp. ChannelPost u = Some cp \<and> carries (stored s') p b cp)
      | None \<Rightarrow> (\<forall>cp. ChannelPost u = Some cp \<longrightarrow> foreign p cp)"
    and "distinct (document_ids us)"
    and "\<forall>b \<in> set (List.map_filter batch_of us). unat (fst b) < 10 ^ 12"
    and "\<forall>b \<in> set (List.map_filter batch_of us). \<forall>b' \<in> set (List.map_filter batch_of us).
           fst b = fst b' \<longrightarrow> snd b = snd b'"
  shows "\<exists>p' s''. poll_round getUpdates download p s =
      (map snd (sort_key fst (List.map_filter batch_of us)), 0, p', s'')
    \<and> offset p \<le> offset p' \<and> (\<forall>u \<in> set us. UpdateID u < offset p')"
  by (rule file_store.poll_round_batches [OF assms(1), where us = us and batch_of = batch_of and p = p
      and getUpdates = getUpdates, OF assms(2-)])

text \<open>The simplest store: a table of files that downloads leave alone.\<close>

definition table_download :: "string \<Rightarrow> (string \<Rightarrow> bytes option) \<Rightarrow> (go_error + bytes) \<times> (string \<Rightarrow> bytes option)" where
  "table_download fid s = (case s fid of Some d \<Rightarrow> Inr d | None \<Rightarrow> Inl (PlainError ''gone''), s)"

lemma table_store: "file_store table_download (\<lambda>s. s)"
  by unfold_locales (simp_all add: table_download_def)

theorem poll_delivers_in_order_witness:
  "\<exists>p' s''. poll_round
      (\<lambda>_ _ s. (Inr [\<lparr>UpdateID = 8, ChannelPost = Some \<lparr>MessageID = 4, Chat_ID = -100, From = None,
                       Text = formatTextBatch 77 12 [5], Document = None, SenderChat = None\<rparr>\<rparr>,
                     \<lparr>UpdateID = 9, ChannelPost = Some \<lparr>MessageID = 5, Chat_ID = -100, From = None,
                       Text = formatTextBatch 77 9 [6], Document = None, SenderChat = None\<rparr>\<rparr>], s))
      table_download (NewPoller 77 (-100)) Map.empty = ([[6], [5]], 0, p', s'')"
proof -
  define cp where "cp = (\<lambda>mid seq d. \<lparr>MessageID = mid, Chat_ID = -100, From = None,
    Text = formatTextBatch 77 seq d, Document = None, SenderChat = None\<rparr>)"
  define us where "us = [\<lparr>UpdateID = 8, ChannelPost = Some (cp 4 12 [5])\<rparr>, \<lparr>UpdateID = 9, ChannelPost = Some (cp 5 9 [6])\<rparr>]"
  define bo where "bo = (\<lambda>u :: update. if UpdateID u = 8 then Some (12 :: 64 word, [5 :: byte]) else Some (9, [6]))"
  have fit: "fitsTextBatch 77 12 [5]" "fitsTextBatch 77 9 [6]"
    by (simp_all add: fitsTextBatch_def fmt_d_def fmt_0d_def dec_nat.simps EncodedLen_def maxMessageChars_def)
  have m: "List.map_filter bo us = [(12, [5]), (9, [6])]"
    by (simp add: us_def bo_def List.map_filter_simps)
  have "\<exists>p' s''. poll_round (\<lambda>_ _ s. (Inr us, s)) table_download (NewPoller 77 (-100)) Map.empty =
      (map snd (sort_key fst (List.map_filter bo us)), 0, p', s'')
    \<and> offset (NewPoller 77 (-100)) \<le> offset p' \<and> (\<forall>u \<in> set us. UpdateID u < offset p')"
    by (rule poll_delivers_in_order [OF table_store, where us = us and batch_of = bo and s' = Map.empty])
      (simp_all add: m, auto simp: us_def bo_def carries_def cp_def fit NewPoller_def document_ids_def List.map_filter_simps)
  then have "\<exists>p' s''. poll_round (\<lambda>_ _ s. (Inr us, s)) table_download (NewPoller 77 (-100)) Map.empty = ([[6], [5]], 0, p', s'')"
    unfolding m by auto
  then show ?thesis unfolding us_def cp_def .
qed

end
