(* ===== verification/Pool.thy ===== *)
theory Pool
  imports Vtel_Prelude
begin

text \<open>
  \<^verbatim>\<open>pool/pool.go\<close>: health and load of the links and the choice of a link for a new stream. The
  clock reading is an argument; the throughput callback of a link is represented by the value it
  returns at the moment of the choice (\<open>None\<close>: the callback is nil). A Go map from link numbers to
  true is a predicate.
\<close>

subsection \<open>Definitions\<close>

definition UnhealthyThreshold :: int where "UnhealthyThreshold = 3"
definition UnhealthyCooldown :: duration where "UnhealthyCooldown = 10 * Second"
definition WarmupInterval :: duration where "WarmupInterval = 90 * Second"

record link =
  L_ID :: int
  L_BotID :: int
  L_PeerBotID :: int
  L_ChannelID :: int
  ThroughputBytesPerSec :: "int option"
  activeStreams :: int
  consecutiveFails :: int
  unhealthyUntilNS :: int

definition Healthy :: "time \<Rightarrow> link \<Rightarrow> bool" where
  "Healthy now l \<longleftrightarrow> unhealthyUntilNS l \<le> now"

definition RecordSuccess :: "link \<Rightarrow> link" where
  "RecordSuccess l = l\<lparr>consecutiveFails := 0, unhealthyUntilNS := 0\<rparr>"

definition recordBad :: "time \<Rightarrow> link \<Rightarrow> link" where
  "recordBad now l =
     (let n = int32 (consecutiveFails l + 1);
          l1 = l\<lparr>consecutiveFails := n\<rparr>
      in if UnhealthyThreshold \<le> n then l1\<lparr>unhealthyUntilNS := now + UnhealthyCooldown\<rparr> else l1)"

definition RecordFailure :: "time \<Rightarrow> link \<Rightarrow> link" where "RecordFailure now l = recordBad now l"
definition RecordStall :: "time \<Rightarrow> link \<Rightarrow> link" where "RecordStall now l = recordBad now l"

definition AcquireStream :: "link \<Rightarrow> link" where
  "AcquireStream l = l\<lparr>activeStreams := activeStreams l + 1\<rparr>"

definition ReleaseStream :: "link \<Rightarrow> link" where
  "ReleaseStream l = l\<lparr>activeStreams := activeStreams l - 1\<rparr>"

definition warmOnce :: "time \<Rightarrow> go_error option \<Rightarrow> link \<Rightarrow> link" where
  "warmOnce now err l = (case err of Some _ \<Rightarrow> RecordFailure now l | None \<Rightarrow> RecordSuccess l)"

text \<open>The warm-up goroutine of a link: one probe at once and one at every tick, each with its result.\<close>

definition RunWarmup :: "(time \<times> go_error option) list \<Rightarrow> link \<Rightarrow> link" where
  "RunWarmup probes l = foldl (\<lambda>l (now, err). warmOnce now err l) l probes"

definition AnyHealthy :: "time \<Rightarrow> link list \<Rightarrow> bool" where
  "AnyHealthy now links \<longleftrightarrow> (\<exists>l \<in> set links. Healthy now l)"

definition betterCandidate :: "link \<Rightarrow> link \<Rightarrow> bool" where
  "betterCandidate l cur =
     (if activeStreams l \<noteq> activeStreams cur then activeStreams l < activeStreams cur
      else case (ThroughputBytesPerSec l, ThroughputBytesPerSec cur) of
        (Some a, Some b) \<Rightarrow> a < b
      | _ \<Rightarrow> False)"

definition pick_step :: "(int \<Rightarrow> bool) \<Rightarrow> bool \<Rightarrow> time \<Rightarrow> link option \<Rightarrow> link \<Rightarrow> link option" where
  "pick_step exclude requireHealthy now best l =
     (if exclude (L_ID l) then best
      else if requireHealthy \<and> \<not> Healthy now l then best
      else case best of
        None \<Rightarrow> Some l
      | Some cur \<Rightarrow> if betterCandidate l cur then Some l else best)"

definition pickFrom :: "(int \<Rightarrow> bool) \<Rightarrow> bool \<Rightarrow> time \<Rightarrow> link list \<Rightarrow> link option" where
  "pickFrom exclude requireHealthy now links = foldl (pick_step exclude requireHealthy now) None links"

definition PickLeastConnExcluding :: "(int \<Rightarrow> bool) \<Rightarrow> time \<Rightarrow> link list \<Rightarrow> link option" where
  "PickLeastConnExcluding exclude now links =
     (case pickFrom exclude True now links of
        Some best \<Rightarrow> Some best
      | None \<Rightarrow> pickFrom exclude False now links)"

subsection \<open>The choice\<close>

definition eligible :: "(int \<Rightarrow> bool) \<Rightarrow> bool \<Rightarrow> time \<Rightarrow> link \<Rightarrow> bool" where
  "eligible exclude requireHealthy now l \<longleftrightarrow>
     \<not> exclude (L_ID l) \<and> (requireHealthy \<longrightarrow> Healthy now l)"

text \<open>\<open>no_worse a b\<close>: \<open>a\<close> has fewer active streams than \<open>b\<close>, or as many and no higher throughput.\<close>

definition no_worse :: "link \<Rightarrow> link \<Rightarrow> bool" where
  "no_worse a b \<longleftrightarrow>
     activeStreams a < activeStreams b
   \<or> activeStreams a = activeStreams b
     \<and> (\<forall>x y. ThroughputBytesPerSec a = Some x \<and> ThroughputBytesPerSec b = Some y \<longrightarrow> x \<le> y)"

definition measured :: "link list \<Rightarrow> bool" where
  "measured ls \<longleftrightarrow> (\<forall>l \<in> set ls. ThroughputBytesPerSec l \<noteq> None)"

lemma pick_least_streams:
  assumes "foldl (pick_step ex h now) best ls = Some m"
  shows "(\<forall>b. best = Some b \<longrightarrow> activeStreams m \<le> activeStreams b)
    \<and> (\<forall>l \<in> set ls. eligible ex h now l \<longrightarrow> activeStreams m \<le> activeStreams l)"
  using assms
proof (induction ls arbitrary: best)
  case (Cons l ls)
  from Cons.IH [OF Cons.prems [simplified]] show ?case
    by (fastforce simp: pick_step_def betterCandidate_def eligible_def split: option.splits if_splits)
qed simp

lemma pick_no_worse:
  assumes "foldl (pick_step ex h now) best ls = Some m" "measured ls"
    and "\<forall>b. best = Some b \<longrightarrow> ThroughputBytesPerSec b \<noteq> None"
  shows "(\<forall>b. best = Some b \<longrightarrow> no_worse m b) \<and> (\<forall>l \<in> set ls. eligible ex h now l \<longrightarrow> no_worse m l)"
  using assms
proof (induction ls arbitrary: best)
  case Nil
  then show ?case by (auto simp: no_worse_def)
next
  case (Cons l ls)
  let ?best = "pick_step ex h now best l"
  have t: "ThroughputBytesPerSec l \<noteq> None" "measured ls" using Cons.prems(2) by (simp_all add: measured_def)
  have bt: "\<forall>b. ?best = Some b \<longrightarrow> ThroughputBytesPerSec b \<noteq> None"
    using Cons.prems(3) t(1) by (auto simp: pick_step_def split: option.splits if_splits)
  have IH: "\<forall>b. ?best = Some b \<longrightarrow> no_worse m b" "\<forall>l \<in> set ls. eligible ex h now l \<longrightarrow> no_worse m l"
    using Cons.IH [of ?best] Cons.prems(1) t(2) bt by auto
  have trans: "no_worse m b \<Longrightarrow> no_worse b c \<Longrightarrow> ThroughputBytesPerSec b \<noteq> None \<Longrightarrow> no_worse m c" for b c
    by (force simp: no_worse_def)
  have step: "\<exists>b. ?best = Some b \<and> (best = None \<or> no_worse b (the best)) \<and> (eligible ex h now l \<longrightarrow> no_worse b l)"
    if "best \<noteq> None \<or> eligible ex h now l"
    using that t(1) Cons.prems(3)
    by (cases best) (auto simp: pick_step_def eligible_def no_worse_def betterCandidate_def split: option.splits)
  show ?case
  proof (intro conjI allI impI ballI)
    fix b assume b: "best = Some b"
    then obtain c where "?best = Some c" "no_worse c b" using step by auto
    then show "no_worse m b" using IH(1) bt trans by blast
  next
    fix x assume x: "x \<in> set (l # ls)" "eligible ex h now x"
    show "no_worse m x"
    proof (cases "x \<in> set ls")
      case True
      then show ?thesis using IH(2) x(2) by blast
    next
      case False
      then have "x = l" using x(1) by simp
      then obtain c where "?best = Some c" "no_worse c x" using step x(2) by auto
      then show ?thesis using IH(1) bt trans by blast
    qed
  qed
qed

lemma pick_member:
  "foldl (pick_step ex h now) best ls = Some m \<Longrightarrow> best = Some m \<or> m \<in> set ls \<and> eligible ex h now m"
proof (induction ls arbitrary: best)
  case (Cons l ls)
  from Cons.IH [OF Cons.prems [simplified]] show ?case
    by (auto simp: pick_step_def eligible_def split: option.splits if_splits)
qed simp

lemma pick_None: "foldl (pick_step ex h now) best ls = None \<longleftrightarrow>
    best = None \<and> (\<forall>l \<in> set ls. \<not> eligible ex h now l)"
proof (induction ls arbitrary: best)
  case (Cons l ls)
  show ?case by (simp add: Cons.IH) (auto simp: pick_step_def eligible_def split: option.splits)
qed simp

lemma pick_result:
  "case PickLeastConnExcluding ex now links of
     None \<Rightarrow> \<forall>l \<in> set links. ex (L_ID l)
   | Some m \<Rightarrow> m \<in> set links \<and> \<not> ex (L_ID m)"
proof (cases "pickFrom ex True now links")
  case (Some m)
  then show ?thesis
    using pick_member [of ex True now None links m] by (auto simp: PickLeastConnExcluding_def pickFrom_def eligible_def)
next
  case None
  then show ?thesis
    using pick_member [of ex False now None links] pick_None [of ex False now None links]
    by (auto simp: PickLeastConnExcluding_def pickFrom_def eligible_def split: option.split)
qed

subsection \<open>Properties\<close>

text \<open>
  C20. The pool's choice: a link is returned unless every link is excluded; it is a link of the
  pool that is not excluded, healthy whenever a healthy one is left, and has the fewest active
  streams of the links it competed with. Where all links report their throughput, it also has the
  lowest throughput among those with that number of streams.
\<close>

theorem pick_spec:
  "case PickLeastConnExcluding ex now links of
     None \<Rightarrow> \<forall>l \<in> set links. ex (L_ID l)
   | Some m \<Rightarrow>
       let h = (\<exists>l \<in> set links. \<not> ex (L_ID l) \<and> Healthy now l)
       in m \<in> set links \<and> eligible ex h now m
          \<and> (\<forall>l \<in> set links. eligible ex h now l \<longrightarrow> activeStreams m \<le> activeStreams l
               \<and> (measured links \<longrightarrow> no_worse m l))"
proof (cases "pickFrom ex True now links")
  case (Some m)
  then have f: "foldl (pick_step ex True now) None links = Some m" by (simp add: pickFrom_def)
  have m: "m \<in> set links" "eligible ex True now m" using pick_member [OF f] by auto
  then have h: "\<exists>l \<in> set links. \<not> ex (L_ID l) \<and> Healthy now l" by (auto simp: eligible_def)
  show ?thesis
    using Some m h pick_least_streams [OF f] pick_no_worse [OF f]
    by (auto simp: PickLeastConnExcluding_def Let_def)
next
  case None
  then have n: "\<forall>l \<in> set links. \<not> eligible ex True now l" by (simp add: pickFrom_def pick_None)
  then have h: "(\<exists>l \<in> set links. \<not> ex (L_ID l) \<and> Healthy now l) = False" by (auto simp: eligible_def)
  show ?thesis
  proof (cases "pickFrom ex False now links")
    case None': None
    then have "\<forall>l \<in> set links. ex (L_ID l)" by (simp add: pickFrom_def pick_None eligible_def)
    then show ?thesis using None None' by (simp add: PickLeastConnExcluding_def)
  next
    case (Some m)
    then have f: "foldl (pick_step ex False now) None links = Some m" by (simp add: pickFrom_def)
    show ?thesis
      unfolding h Let_def
      using None Some pick_member [OF f] pick_least_streams [OF f] pick_no_worse [OF f]
      by (auto simp: PickLeastConnExcluding_def)
  qed
qed

theorem pick_spec_witness:
  "let l = (\<lambda>k n u. \<lparr>L_ID = k, L_BotID = 2, L_PeerBotID = 3, L_ChannelID = 4, ThroughputBytesPerSec = Some 0,
            activeStreams = n, consecutiveFails = 0, unhealthyUntilNS = u\<rparr>)
   in PickLeastConnExcluding (\<lambda>k. k = 3) 5 [l 1 4 0, l 2 1 9, l 3 0 0] = Some (l 1 4 0) \<and> eligible (\<lambda>k. k = 3) True 5 (l 1 4 0)"
proof -
  define l where "l = (\<lambda>k n u. \<lparr>L_ID = k, L_BotID = 2, L_PeerBotID = 3, L_ChannelID = 4, ThroughputBytesPerSec = Some 0,
            activeStreams = n, consecutiveFails = 0, unhealthyUntilNS = u\<rparr>)"
  let ?ls = "[l 1 4 0, l 2 1 9, l 3 0 0]" and ?ex = "\<lambda>k :: int. k = 3"
  have h: "\<exists>x \<in> set ?ls. \<not> ?ex (L_ID x) \<and> Healthy 5 x" by (simp add: l_def Healthy_def)
  have p: "PickLeastConnExcluding ?ex 5 ?ls = Some (l 1 4 0)"
    by (simp add: PickLeastConnExcluding_def pickFrom_def pick_step_def Healthy_def l_def)
  have "eligible ?ex True 5 (l 1 4 0)" using pick_spec [where ex = ?ex and now = 5 and links = ?ls] h unfolding p by (simp add: Let_def)
  with p show ?thesis unfolding Let_def l_def by blast
qed

text \<open>
  Health: from a clean link, two bad results in a row leave it healthy, the third takes it out
  of the choice for exactly ten seconds, and a success brings it back at once.
\<close>

lemma health_cycle:
  assumes "consecutiveFails l = 0" "unhealthyUntilNS l \<le> t1" "t1 \<le> t2" "t2 \<le> t3"
  shows "let l1 = recordBad t1 l; l2 = recordBad t2 l1; l3 = recordBad t3 l2
    in Healthy t2 l2 \<and> (\<forall>now. Healthy now l3 \<longleftrightarrow> t3 + 10 * Second \<le> now)
       \<and> (0 \<le> now' \<longrightarrow> Healthy now' (RecordSuccess l3) \<and> consecutiveFails (RecordSuccess l3) = 0)"
  using assms
  by (simp add: recordBad_def Let_def int32_def UnhealthyThreshold_def UnhealthyCooldown_def
      Healthy_def RecordSuccess_def)

lemma RunWarmup_failing:
  assumes "consecutiveFails l = 0" "unhealthyUntilNS l = 0" "n < 2 ^ 31"
  shows "let l' = RunWarmup (map (\<lambda>i. (t0 + int i * WarmupInterval, Some (err i))) [0..<n]) l
    in consecutiveFails l' = int n
       \<and> unhealthyUntilNS l' = (if n < 3 then 0 else t0 + int (n - 1) * WarmupInterval + UnhealthyCooldown)"
  using assms(3)
proof (induction n)
  case 0
  then show ?case using assms(1,2) by (simp add: RunWarmup_def)
next
  case (Suc n)
  then show ?case
    by (auto simp: RunWarmup_def warmOnce_def RecordFailure_def recordBad_def Let_def int32_def UnhealthyThreshold_def)
qed

text \<open>
  What warm-up probes can do to a dead link: with every probe failing, the link stays in the
  choice through the first two, and from the third on it is out only for the ten seconds after
  each probe and back in for the eighty until the next one.
\<close>

lemma warmup_window:
  assumes "consecutiveFails l = 0" "unhealthyUntilNS l = 0" "Suc n < 2 ^ 31" "0 \<le> t"
    and "t0 + int n * (90 * Second) \<le> t"
  shows "Healthy t (RunWarmup (map (\<lambda>i. (t0 + int i * WarmupInterval, Some (err i))) [0..<Suc n]) l) \<longleftrightarrow>
      n < 2 \<or> t0 + int n * (90 * Second) + 10 * Second \<le> t"
  using RunWarmup_failing [OF assms(1,2), of "Suc n" t0 err] assms(3-)
  by (auto simp: Healthy_def Let_def WarmupInterval_def UnhealthyCooldown_def)

end
