(* ===== verification/Link_Runtime.thy ===== *)
theory Link_Runtime
  imports Mux Batch Poller Pool
begin

text \<open>
  \<^verbatim>\<open>tunnel/linkspec.go\<close> and the receive loops of \<^verbatim>\<open>tunnel/client.go\<close> and \<^verbatim>\<open>tunnel/server.go\<close>, which are
  the same on both sides: the objects of one link bundled together, the pool built from the link
  specifications, and the way of a received batch through the envelope, the decompressor and the
  multiplexer.
\<close>

subsection \<open>Links\<close>

record link_spec =
  SpecID :: int
  SpecBotID :: int
  SpecPeerBotID :: int
  SpecChannelID :: int
  Key :: bytes
  SpecLevel :: compression_level
  QuietHours :: "quiet_hours option"

record link_runtime =
  rt_link :: link
  rt_sender :: sender
  rt_poller :: poller
  rt_mux :: mux
  rt_batcher :: batcher
  rt_key :: bytes

text \<open>
  The throughput callback that \<^verbatim>\<open>newLinkRuntime\<close> installs reads the batcher; \<open>pool_view\<close> is the link
  with the value the callback has now.
\<close>

definition newLinkRuntime :: "link_spec \<Rightarrow> link_runtime" where
  "newLinkRuntime spec =
     \<lparr>rt_link = \<lparr>L_ID = SpecID spec, L_BotID = SpecBotID spec, L_PeerBotID = SpecPeerBotID spec,
                 L_ChannelID = SpecChannelID spec, ThroughputBytesPerSec = Some 0, activeStreams = 0,
                 consecutiveFails = 0, unhealthyUntilNS = 0\<rparr>,
      rt_sender = NewSender (SpecBotID spec) (SpecChannelID spec),
      rt_poller = NewPoller (SpecPeerBotID spec) (SpecChannelID spec),
      rt_mux = NewMux,
      rt_batcher = NewBatcher (Key spec) (QuietHours spec),
      rt_key = Key spec\<rparr>"

definition pool_view :: "link_runtime \<Rightarrow> link" where
  "pool_view lr = (rt_link lr)\<lparr>ThroughputBytesPerSec := Some (BytesPerSec (rt_batcher lr))\<rparr>"

fun buildPool :: "link_spec list \<Rightarrow> (link_spec \<Rightarrow> link_runtime) \<Rightarrow> (int \<times> link_runtime) list \<times> link list" where
  "buildPool [] build = ([], [])"
| "buildPool (spec # specs) build =
     (let lr = build spec; (links, poolLinks) = buildPool specs build
      in ((if SpecID spec \<in> fst ` set links then links else (SpecID spec, lr) # links), rt_link lr # poolLinks))"

subsection \<open>The receive loop\<close>

fun handle_frames :: "time \<Rightarrow> frame list \<Rightarrow> mux \<Rightarrow> mux \<times> mux_action list" where
  "handle_frames now [] m = (m, [])"
| "handle_frames now (f # fs) m =
     (let (m1, a) = HandleFrame now m f; (m2, as) = handle_frames now fs m1 in (m2, a # as))"

text \<open>One turn of the loop: an undecodable or foreign batch is skipped.\<close>

definition open_batch :: "(bytes \<Rightarrow> bytes option) \<Rightarrow> bytes \<Rightarrow> bytes \<Rightarrow> frame list" where
  "open_batch dec key data =
     (case OpenEnvelope key data of
        Inr (Some compressed) \<Rightarrow> (case DecompressBatch dec compressed of Inr fs \<Rightarrow> fs | Inl _ \<Rightarrow> [])
      | _ \<Rightarrow> [])"

definition recvLoop ::
  "(bytes \<Rightarrow> bytes option) \<Rightarrow> time \<Rightarrow> bytes list \<Rightarrow> link_runtime \<Rightarrow> link_runtime \<times> mux_action list" where
  "recvLoop dec now datas lr =
     (let (m, as) = handle_frames now (concat (map (open_batch dec (rt_key lr)) datas)) (rt_mux lr)
      in (lr\<lparr>rt_mux := m\<rparr>, as))"

subsection \<open>Properties\<close>

text \<open>The specifications of a pool carry distinct numbers; then every link is found by its number.\<close>

lemma buildPool_ids:
  "fst ` set (fst (buildPool specs build)) = SpecID ` set specs"
  by (induction specs) (auto simp: split_beta Let_def)

lemma buildPool_distinct: "distinct (map fst (fst (buildPool specs build)))"
  by (induction specs) (auto simp: split_beta Let_def)

lemma buildPool_lookup:
  "distinct (map SpecID specs) \<Longrightarrow> spec \<in> set specs \<Longrightarrow>
     map_of (fst (buildPool specs build)) (SpecID spec) = Some (build spec)"
proof (induction specs)
  case (Cons x specs)
  have "SpecID x \<notin> fst ` set (fst (buildPool specs build))" using Cons.prems(1) by (auto simp: buildPool_ids)
  then show ?case using Cons by (auto simp: split_beta Let_def image_iff)
qed simp

lemma handle_frames_append:
  "handle_frames now (fs @ gs) m =
     (let (m1, as) = handle_frames now fs m; (m2, bs) = handle_frames now gs m1 in (m2, as @ bs))"
  by (induction fs arbitrary: m) (auto simp: split_beta Let_def)

text \<open>What the receive loop gets out of an envelope that \<^verbatim>\<open>flushRaw\<close> made.\<close>

lemma open_batch_sealed:
  assumes "\<forall>x. dec (enc x) = Some x" "length key = keyLen" "\<forall>n. rnd q = Some n \<longrightarrow> length n = nonceLen"
    and "\<forall>f \<in> set fs. length (Payload f) < 2 ^ 24"
    and "length (enc (concat (map Frame_Marshal fs))) \<le> MaxCompressedSize"
    and "flushRaw enc rnd key q (concat (map Frame_Marshal fs)) ctr = Some ([(q, Inr sealed)], ctr')"
  shows "open_batch dec key sealed = fs"
proof -
  let ?raw = "concat (map Frame_Marshal fs)"
  have s: "SealEnvelope key (rnd q) (enc ?raw) = Inr sealed"
    using assms(6) flushRaw_fits [of enc ?raw rnd key q ctr, OF assms(5)] by simp
  then obtain n where n: "rnd q = Some n" by (cases "rnd q") (simp_all add: SealEnvelope_def newGCM_def assms(2))
  then have "sealed = seal_layout (gcm_Seal key) n (enc ?raw)" using s assms(2) by (simp add: SealEnvelope_key)
  then have "OpenEnvelope key sealed = Inr (Some (enc ?raw))"
    using OpenEnvelope_seal_layout [OF assms(2)] assms(3) n by simp
  moreover have "DecompressBatch dec (enc ?raw) = Inr fs"
    using assms(1,4) frames.loop_enc [of fs] by (simp add: DecompressBatch_def fits_def list_all_iff)
  ultimately show ?thesis by (simp add: open_batch_def)
qed

end
