(* ===== verification/Socks5.thy ===== *)
theory Socks5
  imports Frame
begin

text \<open>
  \<^verbatim>\<open>socks5/server.go\<close> and \<^verbatim>\<open>socks5/reject.go\<close>: the SOCKS5 handshake of one client connection, as a
  function of the bytes the client sends (until it closes its side): what the server writes, and
  whether it ends with a parsed request for the handler or with a closed connection. The results
  of the writes to the client are an argument. The reject rules are those of the source.
\<close>

subsection \<open>Requests and reject rules\<close>

record connect_request =
  R_AddrType :: byte
  R_Addr :: bytes
  R_Port :: "16 word"

definition ConnectRequest_String :: "connect_request \<Rightarrow> string option" where
  "ConnectRequest_String r =
     (let a = R_Addr r; port = fmt_d (int (unat (R_Port r))); d = (\<lambda>i. fmt_d (int (unat (a ! i))))
      in if R_AddrType r = 0x01 then
           (if length a < 4 then None
            else Some (d 0 @ ''.'' @ d 1 @ ''.'' @ d 2 @ ''.'' @ d 3 @ '':'' @ port))
         else if R_AddrType r = 0x03 then Some (string_of_bytes a @ '':'' @ port)
         else if R_AddrType r = 0x04 then Some (''['' @ fmt_x a @ '']:'' @ port)
         else Some ''unknown'')"

text \<open>The rules look at the first two address bytes of an IPv4 target, which has four.\<close>

definition isMappedDNSOverTLSProbe :: "connect_request \<Rightarrow> bool" where
  "isMappedDNSOverTLSProbe r =
     (if R_Port r \<noteq> 853 \<or> R_AddrType r \<noteq> 0x01 then False
      else R_Addr r ! 0 = 198 \<and> (R_Addr r ! 1 = 18 \<or> R_Addr r ! 1 = 19))"

definition isIPv6LiteralTarget :: "connect_request \<Rightarrow> bool" where
  "isIPv6LiteralTarget r \<longleftrightarrow> R_AddrType r = 0x04"

definition isMapDNSFakeIP :: "connect_request \<Rightarrow> bool" where
  "isMapDNSFakeIP r = (if R_AddrType r \<noteq> 0x01 then False else R_Addr r ! 0 AND 0xF0 = 0xF0)"

definition isBenchmarkIP :: "connect_request \<Rightarrow> bool" where
  "isBenchmarkIP r =
     (if R_AddrType r \<noteq> 0x01 then False else R_Addr r ! 0 = 198 \<and> R_Addr r ! 1 AND 0xFE = 18)"

subsection \<open>Replies\<close>

definition reply :: "byte \<Rightarrow> bytes" where
  "reply rep = [0x05, rep, 0x00, 0x01, 0, 0, 0, 0, 0, 0]"

definition rejectHostUnreachable :: bytes where "rejectHostUnreachable = reply 0x04"
definition SendSuccess :: bytes where "SendSuccess = reply 0x00"
definition SendFailure :: bytes where "SendFailure = reply 0x01"

subsection \<open>The handshake\<close>

datatype socks_end = SClosed | SHandled connect_request bytes

text \<open>Reading the address of the given kind; \<open>None\<close> for a kind the server does not know.\<close>

definition read_addr :: "byte \<Rightarrow> bytes \<Rightarrow> (io_error + bytes \<times> bytes) option" where
  "read_addr t inp =
     (if t = 0x01 then Some (ReadFull 4 inp)
      else if t = 0x03 then Some (bind_res (ReadFull 1 inp) (\<lambda>(b, inp'). ReadFull (unat (b ! 0)) inp'))
      else if t = 0x04 then Some (ReadFull 16 inp)
      else None)"

definition immediate_reject :: "bool \<Rightarrow> connect_request \<Rightarrow> bool" where
  "immediate_reject rejectIPv6 req \<longleftrightarrow>
     isMappedDNSOverTLSProbe req \<or> rejectIPv6 \<and> isIPv6LiteralTarget req
   \<or> isMapDNSFakeIP req \<or> isBenchmarkIP req"

text \<open>From the request line on, with what has been written so far.\<close>

definition handle_request :: "bool \<Rightarrow> bytes \<Rightarrow> bytes \<Rightarrow> bytes \<times> socks_end" where
  "handle_request rejectIPv6 out inp =
     (case ReadFull 4 inp of
        Inl _ \<Rightarrow> (out, SClosed)
      | Inr (h, inp1) \<Rightarrow>
          if h ! 0 \<noteq> 0x05 \<or> h ! 1 \<noteq> 0x01 then (out @ reply 0x07, SClosed)
          else (case read_addr (h ! 3) inp1 of
            None \<Rightarrow> (out @ reply 0x08, SClosed)
          | Some (Inl _) \<Rightarrow> (out, SClosed)
          | Some (Inr (addr, inp2)) \<Rightarrow>
              (case ReadFull 2 inp2 of
                 Inl _ \<Rightarrow> (out, SClosed)
               | Inr (p, inp3) \<Rightarrow>
                   let req = \<lparr>R_AddrType = h ! 3, R_Addr = addr, R_Port = Uint16 p\<rparr>
                   in if immediate_reject rejectIPv6 req then (out @ rejectHostUnreachable, SClosed)
                      else (out, SHandled req inp3))))"

text \<open>\<open>wrote\<close>: the write of the method selection succeeded.\<close>

definition handleConn :: "bool \<Rightarrow> bool \<Rightarrow> bytes \<Rightarrow> bytes \<times> socks_end" where
  "handleConn rejectIPv6 wrote inp =
     (case ReadFull 2 inp of
        Inl _ \<Rightarrow> ([], SClosed)
      | Inr (g, inp1) \<Rightarrow>
          if g ! 0 \<noteq> 0x05 then ([], SClosed)
          else (case ReadFull (unat (g ! 1)) inp1 of
            Inl _ \<Rightarrow> ([], SClosed)
          | Inr (_, inp2) \<Rightarrow>
              if \<not> wrote then ([], SClosed)
              else handle_request rejectIPv6 [0x05, 0x00] inp2))"

subsection \<open>What a client sends\<close>

text \<open>The greeting and the request of a client that offers \<open>methods\<close> and asks for a target.\<close>

definition client_bytes :: "bytes \<Rightarrow> byte \<Rightarrow> connect_request \<Rightarrow> bytes" where
  "client_bytes methods rsv req =
     [0x05, byte_of_int (length methods)] @ methods
     @ [0x05, 0x01, rsv, R_AddrType req]
     @ (if R_AddrType req = 0x03 then [byte_of_int (length (R_Addr req))] else []) @ R_Addr req
     @ PutUint16 (R_Port req)"

definition wf_request :: "connect_request \<Rightarrow> bool" where
  "wf_request req \<longleftrightarrow>
     R_AddrType req = 0x01 \<and> length (R_Addr req) = 4
   \<or> R_AddrType req = 0x03 \<and> length (R_Addr req) < 256
   \<or> R_AddrType req = 0x04 \<and> length (R_Addr req) = 16"

subsection \<open>Lemmas\<close>

lemma read_addr_iff:
  "read_addr t inp = Some (Inr (addr, rest)) \<longleftrightarrow>
     (t = 0x01 \<and> length addr = 4 \<and> inp = addr @ rest)
   \<or> (t = 0x03 \<and> length addr < 256 \<and> inp = byte_of_int (length addr) # addr @ rest)
   \<or> (t = 0x04 \<and> length addr = 16 \<and> inp = addr @ rest)"
proof (cases "t = 0x03")
  case True
  have "bind_res (ReadFull 1 inp) (\<lambda>(b, inp'). ReadFull (unat (b ! 0)) inp') = Inr (addr, rest) \<longleftrightarrow>
      length addr < 256 \<and> inp = byte_of_int (length addr) # addr @ rest" (is "?L \<longleftrightarrow> ?R")
  proof
    assume ?L
    then obtain b inp' where 1: "ReadFull 1 inp = Inr (b, inp')" "ReadFull (unat (b ! 0)) inp' = Inr (addr, rest)"
      by (auto simp: bind_res_Inr_iff)
    then obtain x where "b = [x]" "inp = [x] @ inp'"
      by (auto dest!: ReadFull_InrD simp: length_Suc_conv)
    with ReadFull_InrD [OF 1(2)] show ?R by auto
  next
    assume ?R
    then show ?L by (simp add: ReadFull_def)
  qed
  with True show ?thesis by (simp add: read_addr_def)
next
  case False
  then show ?thesis by (auto simp: read_addr_def ReadFull_Inr_iff)
qed

text \<open>The address part of a request as the client writes it.\<close>

abbreviation addr_bytes :: "connect_request \<Rightarrow> bytes" where
  "addr_bytes req \<equiv>
     (if R_AddrType req = 0x03 then [byte_of_int (length (R_Addr req))] else []) @ R_Addr req"

lemma handle_request_iff:
  "handle_request rej out inp = (out', SHandled req rest) \<longleftrightarrow>
     out' = out \<and> wf_request req \<and> \<not> immediate_reject rej req
     \<and> (\<exists>rsv. inp = [0x05, 0x01, rsv, R_AddrType req] @ addr_bytes req @ PutUint16 (R_Port req) @ rest)"
  (is "?L \<longleftrightarrow> ?R")
proof
  assume L: ?L
  from L obtain h inp1 where h: "ReadFull 4 inp = Inr (h, inp1)" "h ! 0 = 0x05" "h ! 1 = 0x01"
    by (auto simp: handle_request_def split: sum.splits if_splits)
  obtain rsv t where inp: "inp = [0x05, 0x01, rsv, t] @ inp1" "h = [0x05, 0x01, rsv, t]"
    using ReadFull_InrD [OF h(1)] h(2,3) by (auto simp: list_of_length_4)
  from L h obtain addr inp2 where a: "read_addr t inp1 = Some (Inr (addr, inp2))"
    by (auto simp: handle_request_def inp split: sum.splits if_splits option.splits)
  from L h a obtain p inp3 where p: "ReadFull 2 inp2 = Inr (p, inp3)"
    by (auto simp: handle_request_def inp split: sum.splits if_splits option.splits)
  have p': "length p = 2" "inp2 = PutUint16 (Uint16 p) @ inp3"
    using ReadFull_InrD [OF p] by (auto simp: PutUint16_Uint16)
  have req: "req = \<lparr>R_AddrType = t, R_Addr = addr, R_Port = Uint16 p\<rparr>" "rest = inp3" "out' = out"
      "\<not> immediate_reject rej req"
    using L h a p by (auto simp: handle_request_def inp Let_def split: if_splits)
  show ?R
    using a req p' by (auto simp: read_addr_iff wf_request_def inp)
next
  assume ?R
  then obtain rsv where R: "out' = out" "wf_request req" "\<not> immediate_reject rej req"
      "inp = [0x05, 0x01, rsv, R_AddrType req] @ addr_bytes req @ PutUint16 (R_Port req) @ rest" by blast
  have "read_addr (R_AddrType req) (addr_bytes req @ PutUint16 (R_Port req) @ rest) =
      Some (Inr (R_Addr req, PutUint16 (R_Port req) @ rest))"
    using R(2) by (auto simp: read_addr_iff wf_request_def)
  moreover have "ReadFull 4 inp =
      Inr ([0x05, 0x01, rsv, R_AddrType req], addr_bytes req @ PutUint16 (R_Port req) @ rest)"
    by (simp add: R(4) ReadFull_def)
  moreover have "\<not> immediate_reject rej \<lparr>R_AddrType = R_AddrType req, R_Addr = R_Addr req, R_Port = R_Port req\<rparr>"
    using R(3) by (cases req) simp
  ultimately show ?L using R(1,3) by (simp add: handle_request_def Let_def)
qed

lemma byte_benchmark: "((b :: byte) AND 0xFE = 18) \<longleftrightarrow> b = 18 \<or> b = 19"
  by (rule byte_all) code_simp

lemma byte_class_e: "((b :: byte) AND 0xF0 = 0xF0) \<longleftrightarrow> 240 \<le> b"
  by (rule byte_all) code_simp

lemma handleConn_iff:
  "handleConn rej wrote inp = (out, SHandled req rest) \<longleftrightarrow>
     wrote \<and> out = [0x05, 0x00] \<and> wf_request req \<and> \<not> immediate_reject rej req
     \<and> (\<exists>methods rsv. length methods < 256 \<and> inp = client_bytes methods rsv req @ rest)"
  (is "?L \<longleftrightarrow> ?R")
proof
  assume L: ?L
  from L obtain g inp1 where g: "ReadFull 2 inp = Inr (g, inp1)" "g ! 0 = 0x05"
    by (auto simp: handleConn_def split: sum.splits if_splits)
  obtain n where inp: "inp = [0x05, n] @ inp1" "g = [0x05, n]"
    using ReadFull_InrD [OF g(1)] g(2) by (auto simp: list_of_length_2)
  from L g obtain ms inp2 where ms: "ReadFull (unat n) inp1 = Inr (ms, inp2)" and wrote
      and hr: "handle_request rej [0x05, 0x00] inp2 = (out, SHandled req rest)"
    by (auto simp: handleConn_def inp split: sum.splits if_splits)
  have "length ms < 256" "byte_of_int (length ms) = n" "inp1 = ms @ inp2"
    using ReadFull_InrD [OF ms] by auto
  then show ?R
    using hr \<open>wrote\<close> inp(1) by (auto simp: handle_request_iff client_bytes_def)
next
  assume ?R
  then obtain methods rsv where R: wrote "out = [0x05, 0x00]" "wf_request req"
      "\<not> immediate_reject rej req" "length methods < 256" "inp = client_bytes methods rsv req @ rest" by blast
  have "ReadFull 2 inp = Inr ([0x05, byte_of_int (length methods)], drop 2 inp)"
    by (simp add: R(6) client_bytes_def ReadFull_def)
  moreover have "ReadFull (length methods) (drop 2 inp) = Inr (methods, drop (2 + length methods) inp)"
    by (simp add: R(6) client_bytes_def ReadFull_def)
  moreover have "handle_request rej [0x05, 0x00] (drop (2 + length methods) inp) = (out, SHandled req rest)"
    using R by (auto simp: handle_request_iff client_bytes_def)
  ultimately show ?L using R(1,5) by (simp add: handleConn_def)
qed

subsection \<open>Properties\<close>

text \<open>
  C26. The SOCKS5 handshake accepts exactly the requests of the protocol: the handler is called
  with a target and the unread rest of the stream if and only if the client sent a version 5
  greeting with its methods, then a CONNECT for an IPv4, domain or IPv6 target of the right
  length, the target is not rejected, and the method selection could be written. The handler sees
  the very address and port the client sent.
\<close>

theorem socks_handshake_exact:
  "handleConn rej wrote inp = (out, SHandled req rest) \<longleftrightarrow>
     wrote \<and> out = [0x05, 0x00] \<and> wf_request req \<and> \<not> immediate_reject rej req
     \<and> (\<exists>methods rsv. length methods < 256 \<and> inp = client_bytes methods rsv req @ rest)"
  by (rule handleConn_iff)

text \<open>
  The immediate rejects are the address ranges they name: of the IPv4 targets exactly those in
  198.18.0.0/15 and 240.0.0.0/4, of the IPv6 targets all or none by the option, and no domain. (The
  separate rule for DNS-over-TLS probes is covered by the first range.)
\<close>

lemma reject_ranges:
  "immediate_reject rej req \<longleftrightarrow>
    (R_AddrType req = 0x01 \<and> (R_Addr req ! 0 = 198 \<and> R_Addr req ! 1 \<in> {18, 19} \<or> 240 \<le> R_Addr req ! 0))
    \<or> (R_AddrType req = 0x04 \<and> rej)"
  by (auto simp: immediate_reject_def isMappedDNSOverTLSProbe_def isIPv6LiteralTarget_def
      isMapDNSFakeIP_def isBenchmarkIP_def byte_benchmark byte_class_e)

end
