(* ===== verification/Client.thy ===== *)
theory Client
  imports Link_Runtime Socks5
begin

text \<open>
  \<^verbatim>\<open>tunnel/client.go\<close>: the client side. \<^verbatim>\<open>tryConnect\<close> holds resources of a link while it waits for the
  acknowledgement and while it relays: an admission slot, a stream of the link, a connection of
  the multiplexer and an entry among the pending acknowledgements. It is modelled in two parts,
  up to the wait and from its outcome on, because other goroutines run in between; a step
  relation interleaves the attempts of many SOCKS clients. Shown is that no resource leaks and no
  limit is exceeded, and what \<^verbatim>\<open>handleSOCKS\<close> tries.
\<close>

subsection \<open>State\<close>

definition connectAttemptTimeout :: duration where "connectAttemptTimeout = 20 * Second"
definition maxConnectAttempts :: nat where "maxConnectAttempts = 3"
definition maxInFlightConnectsPerLink :: nat where "maxInFlightConnectsPerLink = 2"
definition connectAdmitTimeout :: duration where "connectAdmitTimeout = 30 * Second"

record client =
  c_order :: "int list"
  c_links :: "int \<Rightarrow> link_runtime option"
  pending :: "conn_id set"
  connectSem :: "int \<Rightarrow> nat"

definition newClientLink :: "link_spec \<Rightarrow> link_runtime" where
  "newClientLink spec =
     (let lr = newLinkRuntime spec in lr\<lparr>rt_mux := (rt_mux lr)\<lparr>has_onConnectACK := True\<rparr>\<rparr>)"

definition NewClient :: "link_spec list \<Rightarrow> client" where
  "NewClient specs =
     \<lparr>c_order = map SpecID specs, c_links = map_of (fst (buildPool specs newClientLink)), pending = {}, connectSem = (\<lambda>_. 0)\<rparr>"

text \<open>The callback \<^verbatim>\<open>onConnectACK\<close>: whether a waiting attempt is woken, and the pending entries left.\<close>

definition onConnectACK :: "conn_id \<Rightarrow> client \<Rightarrow> bool \<times> client" where
  "onConnectACK i c =
     (if i \<in> pending c then (True, c\<lparr>pending := pending c - {i}\<rparr>) else (False, c))"

definition upd_link :: "int \<Rightarrow> (link_runtime \<Rightarrow> link_runtime) \<Rightarrow> client \<Rightarrow> client" where
  "upd_link k f c = c\<lparr>c_links := (c_links c)(k := map_option f (c_links c k))\<rparr>"

subsection \<open>One attempt\<close>

text \<open>
  The first part: take an admission slot (\<open>None\<close>: it blocks), count the stream, make a connection
  with one of the drawn identifiers, note it as pending and queue the CONNECT frame. \<open>add\<close> is
  the link's \<^verbatim>\<open>Batcher.Add\<close> at this moment; its answer is not looked at.
\<close>

definition connect_frame :: "conn_id \<Rightarrow> connect_request \<Rightarrow> frame" where
  "connect_frame i req =
     \<lparr>FType = TypeConnect, ConnID = i, SeqNum = 0,
      Payload = ConnectPayload_Marshal \<lparr>AddrType = R_AddrType req, Addr = R_Addr req, Port = R_Port req\<rparr>\<rparr>"

definition try_start ::
  "batcher send_frame \<Rightarrow> time \<Rightarrow> conn_id list \<Rightarrow> connect_request \<Rightarrow> int \<Rightarrow> client \<Rightarrow> (conn_id \<times> client) option" where
  "try_start add now draws req k c =
     (case c_links c k of
        None \<Rightarrow> None
      | Some lr \<Rightarrow>
          if maxInFlightConnectsPerLink \<le> connectSem c k then None
          else (case NewConn now draws (rt_mux lr) of
            None \<Rightarrow> None
          | Some (tc, m) \<Rightarrow>
              let (ok, b) = add (rt_batcher lr) (connect_frame (ID tc) req) True;
                  lr' = lr\<lparr>rt_link := AcquireStream (rt_link lr), rt_mux := m, rt_batcher := b\<rparr>
              in Some (ID tc, c\<lparr>c_links := (c_links c)(k \<mapsto> lr'), pending := insert (ID tc) (pending c),
                               connectSem := (connectSem c)(k := connectSem c k + 1)\<rparr>)))"

text \<open>How the wait ends: acknowledged (and whether the success reply could be written), refused, or too late.\<close>

datatype ack_outcome = Acked bool | Refused | AckTimeout

definition remove_conn :: "conn_id \<Rightarrow> link_runtime \<Rightarrow> link_runtime" where
  "remove_conn i lr = lr\<lparr>rt_mux := fst (RemoveConn i (rt_mux lr))\<rparr>"

definition send_close :: "batcher send_frame \<Rightarrow> conn_id \<Rightarrow> link_runtime \<Rightarrow> link_runtime" where
  "send_close add i lr = lr\<lparr>rt_batcher := snd (SendClose add (rt_batcher lr) i)\<rparr>"

definition on_link :: "(link \<Rightarrow> link) \<Rightarrow> link_runtime \<Rightarrow> link_runtime" where
  "on_link f lr = lr\<lparr>rt_link := f (rt_link lr)\<rparr>"

text \<open>
  The second part up to its return, except that a successful attempt goes on to relay (\<open>None\<close>) and
  ends with \<open>relay_end_link\<close>. \<open>Some True\<close>: the request is settled, \<open>Some False\<close>: try another link.
\<close>

definition try_finish ::
  "batcher send_frame \<Rightarrow> time \<Rightarrow> int \<Rightarrow> conn_id \<Rightarrow> ack_outcome \<Rightarrow> client \<Rightarrow> bool option \<times> client" where
  "try_finish add now k i outcome c =
     (let c1 = c\<lparr>connectSem := (connectSem c)(k := connectSem c k - 1)\<rparr>
      in case outcome of
           Acked wrote \<Rightarrow>
             (let c2 = upd_link k (on_link RecordSuccess) c1
              in if \<not> wrote then
                   (Some True, upd_link k (on_link ReleaseStream \<circ> remove_conn i \<circ> send_close add i) c2)
                 else (None, c2))
         | Refused \<Rightarrow>
             (Some False,
              upd_link k (on_link ReleaseStream \<circ> remove_conn i \<circ> on_link (RecordFailure now))
                (c1\<lparr>pending := pending c1 - {i}\<rparr>))
         | AckTimeout \<Rightarrow>
             (Some False,
              upd_link k (on_link ReleaseStream \<circ> remove_conn i \<circ> send_close add i \<circ> on_link (RecordStall now))
                (c1\<lparr>pending := pending c1 - {i}\<rparr>)))"

text \<open>After \<^verbatim>\<open>Relay\<close> has returned, which has taken the connection down itself.\<close>

definition relay_end_link :: "int \<Rightarrow> client \<Rightarrow> client" where
  "relay_end_link k c = upd_link k (on_link ReleaseStream) c"

text \<open>
  A whole attempt, seen from its own goroutine. Its environment says what the others do to the
  client while it waits for a slot, while it waits for the acknowledgement and while it relays,
  and how the wait ends. An attempt that finds no slot free at the end of its admission wait gives
  the request back.
\<close>

record connect_env =
  ce_admit :: "client \<Rightarrow> client"
  ce_wait :: "client \<Rightarrow> client"
  ce_relay :: "client \<Rightarrow> client"
  ce_now :: time
  ce_now' :: time
  ce_draws :: "conn_id list"
  ce_outcome :: ack_outcome

definition tryConnect ::
  "batcher send_frame \<Rightarrow> connect_env \<Rightarrow> connect_request \<Rightarrow> int \<Rightarrow> client \<Rightarrow> bool \<times> client" where
  "tryConnect add e req k c =
     (let c0 = ce_admit e c
      in case try_start add (ce_now e) (ce_draws e) req k c0 of
           None \<Rightarrow> (False, c0)
         | Some (i, c1) \<Rightarrow>
             (case try_finish add (ce_now' e) k i (ce_outcome e) (ce_wait e c1) of
                (Some r, c2) \<Rightarrow> (r, c2)
              | (None, c2) \<Rightarrow> (True, relay_end_link k (ce_relay e c2))))"

subsection \<open>The whole request\<close>

text \<open>The links as the pool sees them, in the order of their specifications.\<close>

definition pool_links :: "client \<Rightarrow> link list" where
  "pool_links c = map pool_view (List.map_filter (c_links c) (c_order c))"

text \<open>
  The loop of \<^verbatim>\<open>handleSOCKS\<close> over any state \<open>'s\<close>: \<open>links_of\<close> gives the clock and the pool's links, and
  \<open>try\<close> an attempt on a link. The result lists the links tried, each with whether it settled the
  request.
\<close>

fun socks_attempts ::
  "('s \<Rightarrow> time \<times> link list) \<Rightarrow> (int \<Rightarrow> 's \<Rightarrow> bool \<times> 's) \<Rightarrow> nat \<Rightarrow> int list \<Rightarrow> 's \<Rightarrow> (int \<times> bool) list \<times> 's" where
  "socks_attempts links_of try 0 excluded s = ([], s)"
| "socks_attempts links_of try (Suc n) excluded s =
     (let (now, ls) = links_of s
      in case PickLeastConnExcluding (\<lambda>k. k \<in> set excluded) now ls of
           None \<Rightarrow> ([], s)
         | Some l \<Rightarrow>
             let (settled, s') = try (L_ID l) s
             in if settled then ([(L_ID l, True)], s')
                else let (ks, s'') = socks_attempts links_of try n (L_ID l # excluded) s'
                     in ((L_ID l, False) # ks, s''))"

text \<open>One environment per attempt; the failure reply is written if no attempt settled the request.\<close>

type_synonym socks_state = "client \<times> (nat \<Rightarrow> connect_env)"

definition links_now :: "socks_state \<Rightarrow> time \<times> link list" where
  "links_now s = (ce_now (snd s 0), pool_links (fst s))"

definition next_attempt :: "batcher send_frame \<Rightarrow> connect_request \<Rightarrow> int \<Rightarrow> socks_state \<Rightarrow> bool \<times> socks_state" where
  "next_attempt add req k s =
     (let (r, c) = tryConnect add (snd s 0) req k (fst s) in (r, (c, \<lambda>n. snd s (Suc n))))"

definition handleSOCKS ::
  "batcher send_frame \<Rightarrow> connect_request \<Rightarrow> (nat \<Rightarrow> connect_env) \<Rightarrow> client \<Rightarrow> ((int \<times> bool) list \<times> bytes) \<times> client" where
  "handleSOCKS add req envs c =
     (let (ks, s) = socks_attempts links_now (next_attempt add req) maxConnectAttempts [] (c, envs)
      in ((ks, if \<exists>k. (k, True) \<in> set ks then [] else SendFailure), fst s))"

subsection \<open>Reports\<close>

record link_status =
  LS_ID :: int
  LS_Healthy :: bool
  LS_ActiveStreams :: int
  LS_BytesPerSec :: int

definition LinkStatuses :: "time \<Rightarrow> client \<Rightarrow> link_status list" where
  "LinkStatuses now c =
     sort_key LS_ID (List.map_filter (\<lambda>k. map_option (\<lambda>lr.
        \<lparr>LS_ID = k, LS_Healthy = Healthy now (rt_link lr), LS_ActiveStreams = activeStreams (rt_link lr),
         LS_BytesPerSec = BytesPerSec (rt_batcher lr)\<rparr>) (c_links c k)) (remdups (c_order c)))"

definition Retry429Counts :: "client \<Rightarrow> int \<Rightarrow> nat option" where
  "Retry429Counts c k = map_option (\<lambda>lr. Retry429Count (rt_sender lr)) (c_links c k)"

subsection \<open>Many attempts\<close>

text \<open>
  The attempts in progress: link, connection identifier, and whether the attempt is already
  relaying.
\<close>

record client_sys =
  cl :: client
  attempts :: "(int \<times> conn_id \<times> bool) list"

text \<open>
  \<open>Other\<close> stands for whatever else happens to a link and leaves its stream count alone: received
  frames, flushes, warm-up probes, garbage collection.
\<close>

inductive client_step :: "batcher send_frame \<Rightarrow> client_sys \<Rightarrow> client_sys \<Rightarrow> bool" for add where
  Start: "try_start add now draws req k (cl s) = Some (i, c) \<Longrightarrow>
    client_step add s (s\<lparr>cl := c, attempts := (k, i, False) # attempts s\<rparr>)"
| Ack: "onConnectACK i (cl s) = (woken, c) \<Longrightarrow> client_step add s (s\<lparr>cl := c\<rparr>)"
| Finish: "attempts s = xs @ (k, i, False) # ys \<Longrightarrow> try_finish add now k i outcome (cl s) = (r, c) \<Longrightarrow>
    (\<And>w. outcome = Acked w \<Longrightarrow> i \<notin> pending (cl s)) \<Longrightarrow>
    client_step add s (s\<lparr>cl := c, attempts := (if r = None then xs @ (k, i, True) # ys else xs @ ys)\<rparr>)"
| RelayEnd: "attempts s = xs @ (k, i, True) # ys \<Longrightarrow>
    client_step add s (s\<lparr>cl := relay_end_link k (cl s), attempts := xs @ ys\<rparr>)"
| Other: "\<forall>lr. activeStreams (rt_link (f lr)) = activeStreams (rt_link lr) \<Longrightarrow>
    client_step add s (s\<lparr>cl := upd_link k f (cl s)\<rparr>)"

inductive client_reach :: "batcher send_frame \<Rightarrow> client_sys \<Rightarrow> bool" for add where
  Init: "client_reach add \<lparr>cl = NewClient specs, attempts = []\<rparr>"
| Step: "client_reach add s \<Longrightarrow> client_step add s s' \<Longrightarrow> client_reach add s'"

definition wcount :: "int \<Rightarrow> (int \<times> conn_id \<times> bool) list \<Rightarrow> nat" where
  "wcount k xs = length (filter (\<lambda>(k', i, r). k' = k \<and> \<not> r) xs)"

definition acount :: "int \<Rightarrow> (int \<times> conn_id \<times> bool) list \<Rightarrow> nat" where
  "acount k xs = length (filter (\<lambda>(k', i, r). k' = k) xs)"

abbreviation waiting_on :: "int \<Rightarrow> client_sys \<Rightarrow> nat" where "waiting_on k s \<equiv> wcount k (attempts s)"
abbreviation attempts_on :: "int \<Rightarrow> client_sys \<Rightarrow> nat" where "attempts_on k s \<equiv> acount k (attempts s)"

definition waiting_ids :: "client_sys \<Rightarrow> conn_id set" where
  "waiting_ids s = {i. \<exists>k. (k, i, False) \<in> set (attempts s)}"

lemma count_simps [simp]:
  "wcount k [] = 0" "wcount k ((k', i, r) # xs) = (if k' = k \<and> \<not> r then 1 else 0) + wcount k xs"
  "wcount k (xs @ ys) = wcount k xs + wcount k ys"
  "acount k [] = 0" "acount k ((k', i, r) # xs) = (if k' = k then 1 else 0) + acount k xs"
  "acount k (xs @ ys) = acount k xs + acount k ys"
  by (simp_all add: wcount_def acount_def)

definition client_inv :: "client_sys \<Rightarrow> bool" where
  "client_inv s \<longleftrightarrow>
     (\<forall>k. connectSem (cl s) k = waiting_on k s \<and> waiting_on k s \<le> maxInFlightConnectsPerLink)
     \<and> (\<forall>k lr. c_links (cl s) k = Some lr \<longrightarrow> activeStreams (rt_link lr) = int (attempts_on k s))
     \<and> pending (cl s) \<subseteq> waiting_ids s"

lemma upd_link_simps [simp]:
  "connectSem (upd_link k f c) = connectSem c" "pending (upd_link k f c) = pending c"
  "c_links (upd_link k f c) k' = (if k' = k then map_option f (c_links c k) else c_links c k')"
  by (simp_all add: upd_link_def)

lemma rt_link_ops [simp]:
  "rt_link (remove_conn i lr) = rt_link lr" "rt_link (send_close add i lr) = rt_link lr"
  "rt_link (on_link g lr) = g (rt_link lr)"
  by (simp_all add: remove_conn_def send_close_def on_link_def)

lemma stream_ops [simp]:
  "activeStreams (ReleaseStream l) = activeStreams l - 1" "activeStreams (AcquireStream l) = activeStreams l + 1"
  "activeStreams (RecordSuccess l) = activeStreams l" "activeStreams (RecordFailure now l) = activeStreams l"
  "activeStreams (RecordStall now l) = activeStreams l"
  by (simp_all add: ReleaseStream_def AcquireStream_def RecordSuccess_def RecordFailure_def RecordStall_def
      recordBad_def Let_def)

lemma buildPool_new_streams:
  "map_of (fst (buildPool specs newClientLink)) k = Some lr \<Longrightarrow> activeStreams (rt_link lr) = 0"
  by (induction specs)
    (auto simp: split_beta Let_def newClientLink_def newLinkRuntime_def split: if_splits)

lemma client_inv_init: "client_inv \<lparr>cl = NewClient specs, attempts = []\<rparr>"
  by (auto simp: client_inv_def waiting_ids_def NewClient_def dest: buildPool_new_streams)

lemma try_start_SomeD:
  assumes "try_start add now draws req k c = Some (i, c')"
  shows "connectSem c k < maxInFlightConnectsPerLink \<and> connectSem c' = (connectSem c)(k := connectSem c k + 1)
    \<and> pending c' = insert i (pending c)
    \<and> (\<exists>lr lr'. c_links c k = Some lr \<and> c_links c' = (c_links c)(k \<mapsto> lr')
         \<and> activeStreams (rt_link lr') = activeStreams (rt_link lr) + 1)"
  using assms by (auto simp: try_start_def Let_def split: option.splits prod.splits if_splits)

lemma client_inv_start:
  assumes "client_inv s" "try_start add now draws req k (cl s) = Some (i, c)"
  shows "client_inv (s\<lparr>cl := c, attempts := (k, i, False) # attempts s\<rparr>)"
  using assms(1) try_start_SomeD [OF assms(2)]
  by (auto simp: client_inv_def waiting_ids_def)

text \<open>What the end of a wait does to the counts, for each outcome.\<close>

lemma try_finish_effect:
  assumes "try_finish add now k i outcome c = (r, c')"
  shows "connectSem c' = (connectSem c)(k := connectSem c k - 1)"
    and "pending c' = (case outcome of Acked _ \<Rightarrow> pending c | _ \<Rightarrow> pending c - {i})"
    and "\<exists>g. c_links c' = (c_links c)(k := map_option g (c_links c k))
      \<and> (\<forall>lr. activeStreams (rt_link (g lr)) = activeStreams (rt_link lr) - (if r = None then 0 else 1))"
proof -
  show "connectSem c' = (connectSem c)(k := connectSem c k - 1)"
    using assms by (auto simp: try_finish_def Let_def split: ack_outcome.splits if_splits)
  show "pending c' = (case outcome of Acked _ \<Rightarrow> pending c | _ \<Rightarrow> pending c - {i})"
    using assms by (auto simp: try_finish_def Let_def split: ack_outcome.splits if_splits)
  show "\<exists>g. c_links c' = (c_links c)(k := map_option g (c_links c k))
      \<and> (\<forall>lr. activeStreams (rt_link (g lr)) = activeStreams (rt_link lr) - (if r = None then 0 else 1))"
  proof (cases outcome)
    case (Acked wrote)
    let ?g = "(if wrote then id else on_link ReleaseStream \<circ> remove_conn i \<circ> send_close add i) \<circ> on_link RecordSuccess"
    show ?thesis using assms Acked
      by (intro exI [of _ ?g]) (auto simp: try_finish_def Let_def upd_link_def option.map_comp comp_def)
  next
    case Refused
    show ?thesis using assms Refused
      by (intro exI [of _ "on_link ReleaseStream \<circ> remove_conn i \<circ> on_link (RecordFailure now)"])
        (auto simp: try_finish_def Let_def upd_link_def)
  next
    case AckTimeout
    show ?thesis using assms AckTimeout
      by (intro exI [of _ "on_link ReleaseStream \<circ> remove_conn i \<circ> send_close add i \<circ> on_link (RecordStall now)"])
        (auto simp: try_finish_def Let_def upd_link_def)
  qed
qed

lemma client_inv_finish:
  assumes "client_inv s" "attempts s = xs @ (k, i, False) # ys"
    and f: "try_finish add now k i outcome (cl s) = (r, c)" and np: "\<And>w. outcome = Acked w \<Longrightarrow> i \<notin> pending (cl s)"
  shows "client_inv (s\<lparr>cl := c, attempts := (if r = None then xs @ (k, i, True) # ys else xs @ ys)\<rparr>)"
proof -
  have inv: "\<And>k'. connectSem (cl s) k' = waiting_on k' s \<and> waiting_on k' s \<le> maxInFlightConnectsPerLink"
      "\<And>k' lr. c_links (cl s) k' = Some lr \<Longrightarrow> activeStreams (rt_link lr) = int (attempts_on k' s)"
      "pending (cl s) \<subseteq> waiting_ids s"
    using assms(1) by (auto simp: client_inv_def)
  obtain g where g: "c_links c = (c_links (cl s))(k := map_option g (c_links (cl s) k))"
      "\<And>lr. activeStreams (rt_link (g lr)) = activeStreams (rt_link lr) - (if r = None then 0 else 1)"
    using try_finish_effect(3) [OF f] by blast
  have "i \<notin> pending c" using try_finish_effect(2) [OF f] np by (cases outcome) auto
  moreover have "pending c \<subseteq> pending (cl s)" using try_finish_effect(2) [OF f] by (cases outcome) auto
  ultimately have "pending c \<subseteq> waiting_ids (s\<lparr>cl := c, attempts := (if r = None then xs @ (k, i, True) # ys else xs @ ys)\<rparr>)"
    using inv(3) assms(2) by (auto simp: waiting_ids_def)
  moreover have "connectSem c k' = wcount k' (xs @ ys) \<and> wcount k' (xs @ ys) \<le> maxInFlightConnectsPerLink" for k'
    using inv(1) [of k'] assms(2) try_finish_effect(1) [OF f] by (auto split: if_splits)
  moreover have "activeStreams (rt_link lr) = int (acount k' (xs @ ys)) + (if r = None \<and> k' = k then 1 else 0)"
    if "c_links c k' = Some lr" for k' lr
    using that inv(2) [of k'] assms(2) g by (auto split: if_splits)
  ultimately show ?thesis unfolding client_inv_def by auto
qed

lemma client_inv_step:
  assumes "client_step add s s'" "client_inv s"
  shows "client_inv s'"
  using assms(1)
proof cases
  case (Start now draws req k i c)
  then show ?thesis using client_inv_start assms(2) by simp
next
  case (Ack i woken c)
  then show ?thesis using assms(2)
    by (auto simp: client_inv_def waiting_ids_def onConnectACK_def split: if_splits)
next
  case (Finish xs k i ys now outcome r c)
  show ?thesis unfolding Finish(1) by (rule client_inv_finish [OF assms(2) Finish(2-)])
next
  case (RelayEnd xs k i ys)
  then show ?thesis using assms(2)
    by (auto simp: client_inv_def waiting_ids_def relay_end_link_def split: if_splits)
next
  case (Other f k)
  then show ?thesis using assms(2) by (auto simp: client_inv_def waiting_ids_def split: if_splits)
qed

lemma client_reach_inv: "client_reach add s \<Longrightarrow> client_inv s"
  by (induction rule: client_reach.induct) (auto intro: client_inv_init client_inv_step)

subsection \<open>Properties\<close>

text \<open>
  C11. No resource of a link leaks: in every state the clients' attempts can reach, the admission
  slots taken on a link are exactly its attempts still waiting for an acknowledgement and never
  more than two, its count of active streams is exactly its attempts waiting or relaying, and an
  acknowledgement is pending only for a waiting attempt. So once all attempts are over, every
  count is back at zero.
\<close>

theorem client_no_leak:
  assumes "client_reach add s"
  shows "connectSem (cl s) k = waiting_on k s \<and> waiting_on k s \<le> 2
    \<and> (c_links (cl s) k = Some lr \<longrightarrow> activeStreams (rt_link lr) = int (attempts_on k s))
    \<and> pending (cl s) \<subseteq> waiting_ids s"
  using client_reach_inv [OF assms] by (auto simp: client_inv_def maxInFlightConnectsPerLink_def)

theorem client_no_leak_witness:
  "\<exists>s. client_reach (\<lambda>b f u. (True, b)) s \<and> attempts s = [(1, 7, False)] \<and> connectSem (cl s) 1 = 1
     \<and> pending (cl s) \<subseteq> {7}"
proof -
  let ?add = "\<lambda>(b :: batcher) (f :: frame) (u :: bool). (True, b)"
  define spec where "spec = \<lparr>SpecID = 1, SpecBotID = 5, SpecPeerBotID = 6, SpecChannelID = -100, Key = [],
    SpecLevel = SpeedFastest, QuietHours = None\<rparr>"
  define req where "req = \<lparr>R_AddrType = 1, R_Addr = [1, 2, 3, 4], R_Port = 80\<rparr>"
  define s0 where "s0 = \<lparr>cl = NewClient [spec], attempts = []\<rparr>"
  have "\<exists>c. try_start ?add 0 [7] req 1 (cl s0) = Some (7, c)"
    by (simp add: try_start_def s0_def NewClient_def spec_def newClientLink_def newLinkRuntime_def
        maxInFlightConnectsPerLink_def NewMux_def newConn_def Let_def)
  then obtain c where c: "try_start ?add 0 [7] req 1 (cl s0) = Some (7, c)" ..
  define s1 where "s1 = s0\<lparr>cl := c, attempts := (1, 7, False) # attempts s0\<rparr>"
  have "client_reach ?add s0" unfolding s0_def by (rule client_reach.Init)
  then have r: "client_reach ?add s1" unfolding s1_def by (rule client_reach.Step) (rule client_step.Start [OF c])
  have a: "attempts s1 = [(1, 7, False)]" by (simp add: s1_def s0_def)
  from client_no_leak [OF r, of 1] r a show ?thesis
    by (intro exI [of _ s1]) (auto simp: waiting_ids_def)
qed

text \<open>
  The loop needs little of the attempts it makes: that they leave the set of links alone. This is
  the contract of an attempt; it holds in the states where the environment keeps to it too.
\<close>

abbreviation ids :: "link list \<Rightarrow> int set" where "ids ls \<equiv> L_ID ` set ls"

locale link_attempts =
  fixes links_of :: "'s \<Rightarrow> time \<times> link list"
    and attempt :: "int \<Rightarrow> 's \<Rightarrow> bool \<times> 's"
    and good :: "'s \<Rightarrow> bool"
  assumes try_good: "good s \<Longrightarrow> good (snd (attempt k s))"
    and try_ids: "good s \<Longrightarrow> ids (snd (links_of (snd (attempt k s)))) = ids (snd (links_of s))"
begin

lemma attempts_spec:
  assumes "good s" "socks_attempts links_of attempt n ex s = (ks, s')"
  shows "length ks \<le> n \<and> distinct (map fst ks) \<and> fst ` set ks \<inter> set ex = {}
    \<and> fst ` set ks \<subseteq> ids (snd (links_of s))
    \<and> (length ks < n \<and> (\<forall>k. (k, True) \<notin> set ks) \<longrightarrow> ids (snd (links_of s)) \<subseteq> fst ` set ks \<union> set ex)"
  using assms
proof (induction n arbitrary: ex s ks s')
  case (Suc n)
  obtain now ls where lo: "links_of s = (now, ls)" by (metis prod.collapse)
  note pick = pick_result [where ex = "\<lambda>k. k \<in> set ex" and now = now and links = ls]
  show ?case
  proof (cases "PickLeastConnExcluding (\<lambda>k. k \<in> set ex) now ls")
    case None
    then have "ks = []" using Suc.prems(2) by (simp add: lo)
    moreover have "ids ls \<subseteq> set ex" using None pick by auto
    ultimately show ?thesis by (simp add: lo)
  next
    case (Some l)
    have l: "l \<in> set ls" "L_ID l \<notin> set ex" using pick Some by auto
    obtain settled s1 where t: "attempt (L_ID l) s = (settled, s1)" by (cases "attempt (L_ID l) s")
    have s1: "good s1" "ids (snd (links_of s1)) = ids ls"
      using try_good [OF Suc.prems(1), of "L_ID l"] try_ids [OF Suc.prems(1), of "L_ID l"] t lo by simp_all
    obtain ks2 s2 where rec: "socks_attempts links_of attempt n (L_ID l # ex) s1 = (ks2, s2)"
      by (metis prod.exhaust)
    have mem: "L_ID l \<in> ids ls" using l(1) by simp
    show ?thesis
    proof (cases settled)
      case True
      then have "ks = [(L_ID l, True)]" using Suc.prems(2) Some t by (simp add: lo)
      then show ?thesis using mem l(2) by (auto simp: lo)
    next
      case False
      then have ks: "ks = (L_ID l, False) # ks2" using Suc.prems(2) Some t rec by (simp add: lo)
      define K where "K = fst ` set ks2"
      define I where "I = ids ls"
      have "length ks2 \<le> n \<and> distinct (map fst ks2) \<and> K \<inter> set (L_ID l # ex) = {} \<and> K \<subseteq> I
          \<and> (length ks2 < n \<and> (\<forall>k. (k, True) \<notin> set ks2) \<longrightarrow> I \<subseteq> K \<union> set (L_ID l # ex))"
        using Suc.IH [OF s1(1) rec] unfolding s1(2) K_def I_def .
      then have "length ks \<le> Suc n \<and> distinct (map fst ks) \<and> insert (L_ID l) K \<inter> set ex = {} \<and> insert (L_ID l) K \<subseteq> I
          \<and> (length ks < Suc n \<and> (\<forall>k. (k, True) \<notin> set ks) \<longrightarrow> I \<subseteq> insert (L_ID l) K \<union> set ex)"
        using mem l(2) by (auto simp: ks I_def K_def [symmetric])
      moreover have "fst ` set ks = insert (L_ID l) K" by (simp add: ks K_def)
      ultimately show ?thesis unfolding lo snd_conv I_def [symmetric] by metis
    qed
  qed
qed auto

lemma attempts_settled:
  assumes "socks_attempts links_of attempt n ex s = (ks, s')" "(k, True) \<in> set ks"
  shows "\<exists>js. ks = js @ [(k, True)] \<and> (\<forall>j \<in> set js. \<not> snd j)"
  using assms
proof (induction n arbitrary: ex s ks s')
  case (Suc n)
  from Suc.prems obtain l settled s1 now ls where
    l: "links_of s = (now, ls)" "PickLeastConnExcluding (\<lambda>k. k \<in> set ex) now ls = Some l" "attempt (L_ID l) s = (settled, s1)"
    by (auto split: prod.splits option.splits)
  show ?case
  proof (cases settled)
    case True
    then show ?thesis using Suc.prems l by auto
  next
    case False
    obtain ks2 s2 where rec: "socks_attempts links_of attempt n (L_ID l # ex) s1 = (ks2, s2)" by (metis prod.exhaust)
    then have ks: "ks = (L_ID l, False) # ks2" using Suc.prems(1) l False by simp
    then obtain js where "ks2 = js @ [(k, True)]" "\<forall>j \<in> set js. \<not> snd j" using Suc.IH [OF rec] Suc.prems(2) by auto
    then show ?thesis using ks by (intro exI [of _ "(L_ID l, False) # js"]) simp
  qed
qed simp

end

text \<open>The client's own attempts keep the contract, as long as the other goroutines do.\<close>

definition keeps_ids :: "(client \<Rightarrow> client) \<Rightarrow> bool" where
  "keeps_ids f \<longleftrightarrow> (\<forall>c. ids (pool_links (f c)) = ids (pool_links c))"

definition env_ok :: "connect_env \<Rightarrow> bool" where
  "env_ok e \<longleftrightarrow> keeps_ids (ce_admit e) \<and> keeps_ids (ce_wait e) \<and> keeps_ids (ce_relay e)"

lemma map_filter_image: "set (List.map_filter f xs) = {y. \<exists>x \<in> set xs. f x = Some y}"
  by (force simp: List.map_filter_def)

lemma ids_pool_links:
  "ids (pool_links c) = {L_ID (rt_link lr) | k lr. k \<in> set (c_order c) \<and> c_links c k = Some lr}"
  unfolding pool_links_def set_map image_image map_filter_image by (auto simp: pool_view_def)

lemma L_ID_ops [simp]:
  "L_ID (ReleaseStream l) = L_ID l" "L_ID (AcquireStream l) = L_ID l" "L_ID (RecordSuccess l) = L_ID l"
  "L_ID (RecordFailure now l) = L_ID l" "L_ID (RecordStall now l) = L_ID l"
  by (simp_all add: ReleaseStream_def AcquireStream_def RecordSuccess_def RecordFailure_def RecordStall_def
      recordBad_def Let_def)

lemma ids_cong:
  assumes "c_order c' = c_order c"
    and "\<And>k. map_option (\<lambda>lr. L_ID (rt_link lr)) (c_links c' k) = map_option (\<lambda>lr. L_ID (rt_link lr)) (c_links c k)"
  shows "ids (pool_links c') = ids (pool_links c)"
proof -
  have "(\<exists>lr. c_links c' k = Some lr \<and> x = L_ID (rt_link lr)) \<longleftrightarrow> (\<exists>lr. c_links c k = Some lr \<and> x = L_ID (rt_link lr))" for k x
    using assms(2) [of k] by (cases "c_links c k"; cases "c_links c' k") auto
  then show ?thesis unfolding ids_pool_links assms(1) by blast
qed

lemma upd_link_ids:
  assumes "\<And>lr. L_ID (rt_link (f lr)) = L_ID (rt_link lr)"
  shows "ids (pool_links (upd_link k f c)) = ids (pool_links c)"
  by (rule ids_cong) (auto simp: upd_link_def assms option.map_comp comp_def)

lemma try_start_ids: "try_start add now draws req k c = Some (i, c') \<Longrightarrow> ids (pool_links c') = ids (pool_links c)"
  by (rule ids_cong) (auto simp: try_start_def Let_def split: option.splits prod.splits if_splits)

lemma ids_slots: "pool_links (c\<lparr>connectSem := x\<rparr>) = pool_links c" "pool_links (c\<lparr>pending := y\<rparr>) = pool_links c"
  by (simp_all add: pool_links_def)

lemma try_finish_ids: "ids (pool_links (snd (try_finish add now k i outcome c))) = ids (pool_links c)"
  by (simp add: try_finish_def Let_def upd_link_ids ids_slots split: ack_outcome.split)

lemma tryConnect_ids:
  assumes "env_ok e"
  shows "ids (pool_links (snd (tryConnect add e req k c))) = ids (pool_links c)"
proof (cases "try_start add (ce_now e) (ce_draws e) req k (ce_admit e c)")
  case None
  then show ?thesis using assms by (simp add: tryConnect_def env_ok_def keeps_ids_def)
next
  case (Some ic)
  obtain i c1 where ic: "ic = (i, c1)" by (cases ic)
  obtain r c2 where f: "try_finish add (ce_now' e) k i (ce_outcome e) (ce_wait e c1) = (r, c2)"
    by (metis prod.exhaust)
  have "ids (pool_links c2) = ids (pool_links c)"
    using try_finish_ids [of add "ce_now' e" k i "ce_outcome e" "ce_wait e c1"] f try_start_ids [OF Some [unfolded ic]] assms
    by (simp add: env_ok_def keeps_ids_def)
  moreover have "ids (pool_links (relay_end_link k (ce_relay e c2))) = ids (pool_links c2)"
    using assms by (simp add: relay_end_link_def upd_link_ids env_ok_def keeps_ids_def)
  ultimately show ?thesis using Some ic f by (cases r) (simp_all add: tryConnect_def)
qed

interpretation socks: link_attempts links_now "next_attempt add req" "\<lambda>s. \<forall>n. env_ok (snd s n)" for add req
proof unfold_locales
  fix s :: socks_state and k assume "\<forall>n. env_ok (snd s n)"
  then show "\<forall>n. env_ok (snd (snd (next_attempt add req k s)) n)"
    by (simp add: next_attempt_def split_beta)
next
  fix s :: socks_state and k assume "\<forall>n. env_ok (snd s n)"
  then show "ids (snd (links_now (snd (next_attempt add req k s)))) = ids (snd (links_now s))"
    by (simp add: links_now_def next_attempt_def split_beta tryConnect_ids)
qed

text \<open>
  C23. A SOCKS request tries at most three links, all of the pool and no link twice. It stops at the
  first link that settles it and then writes no failure reply; if none did, the failure reply is
  written, and fewer than three attempts mean that every link of the pool has been tried.
\<close>

theorem socks_request_attempts:
  assumes "\<forall>n. env_ok (envs n)" "handleSOCKS add req envs c = ((ks, out), c')"
  shows "length ks \<le> 3 \<and> distinct (map fst ks) \<and> fst ` set ks \<subseteq> ids (pool_links c)
    \<and> ((out = [] \<and> (\<exists>js k. ks = js @ [(k, True)] \<and> (\<forall>j \<in> set js. \<not> snd j)))
       \<or> (out = SendFailure \<and> (\<forall>j \<in> set ks. \<not> snd j) \<and> (length ks < 3 \<longrightarrow> fst ` set ks = ids (pool_links c))))"
proof -
  obtain s' where r: "socks_attempts links_now (next_attempt add req) 3 [] (c, envs) = (ks, s')"
      "out = (if \<exists>k. (k, True) \<in> set ks then [] else SendFailure)"
    using assms(2) by (auto simp: handleSOCKS_def maxConnectAttempts_def split: prod.splits)
  note spec = socks.attempts_spec [OF _ r(1), simplified links_now_def fst_conv snd_conv, OF assms(1)]
  show ?thesis
  proof (cases "\<exists>k. (k, True) \<in> set ks")
    case True
    then obtain k js where "ks = js @ [(k, True)]" "\<forall>j \<in> set js. \<not> snd j"
      using socks.attempts_settled [OF r(1)] by blast
    moreover have "out = []" using True r(2) by simp
    ultimately have "out = [] \<and> (\<exists>js k. ks = js @ [(k, True)] \<and> (\<forall>j \<in> set js. \<not> snd j))" by blast
    then show ?thesis using spec by simp
  next
    case False
    then have "\<forall>j \<in> set ks. \<not> snd j" by (metis prod.collapse)
    moreover have "out = SendFailure" using False r(2) by simp
    moreover have "length ks < 3 \<longrightarrow> fst ` set ks = ids (pool_links c)" using spec False by auto
    ultimately show ?thesis using spec by simp
  qed
qed

definition demo_env :: connect_env where
  "demo_env = \<lparr>ce_admit = id, ce_wait = id, ce_relay = id, ce_now = 0, ce_now' = 1, ce_draws = [7], ce_outcome = Refused\<rparr>"

definition demo_client :: client where
  "demo_client = NewClient (map (\<lambda>k. \<lparr>SpecID = k, SpecBotID = 5, SpecPeerBotID = 6, SpecChannelID = -100, Key = [],
    SpecLevel = SpeedFastest, QuietHours = None\<rparr>) [1, 2])"

theorem socks_request_attempts_witness:
  "\<exists>ks out c'. handleSOCKS (\<lambda>b f u. (True, b)) \<lparr>R_AddrType = 1, R_Addr = [1, 2, 3, 4], R_Port = 80\<rparr> (\<lambda>_. demo_env) demo_client
      = ((ks, out), c') \<and> length ks \<le> 3 \<and> fst ` set ks \<subseteq> ids (pool_links demo_client)"
proof -
  let ?h = "handleSOCKS (\<lambda>b f u. (True, b)) \<lparr>R_AddrType = 1, R_Addr = [1, 2, 3, 4], R_Port = 80\<rparr> (\<lambda>_. demo_env) demo_client"
  obtain ks out c' where h: "?h = ((ks, out), c')" by (metis prod.exhaust)
  have "\<forall>n :: nat. env_ok demo_env" by (simp add: demo_env_def env_ok_def keeps_ids_def)
  note r = socks_request_attempts [of "\<lambda>_. demo_env", OF this h]
  show ?thesis
    by (intro exI conjI, rule h, rule r [THEN conjunct1], rule r [THEN conjunct2, THEN conjunct2, THEN conjunct1])
qed

end
