(* ===== verification/Go_Net.thy ===== *)
theory Go_Net
  imports Go_Fmt
begin

text \<open>
  What the code uses of Go's package \<^verbatim>\<open>net\<close>: splitting and joining \<^verbatim>\<open>host:port\<close> strings and parsing
  IP literals, and the integer parser of \<^verbatim>\<open>strconv\<close>. Addresses are the 16 bytes of an \<^verbatim>\<open>IP\<close>; IPv4 addresses are in their mapped form.
\<close>

subsection \<open>Strings\<close>

fun IndexByte :: "string \<Rightarrow> char \<Rightarrow> nat option" where
  "IndexByte [] c = None"
| "IndexByte (x # xs) c = (if x = c then Some 0 else map_option Suc (IndexByte xs c))"

definition LastIndexByte :: "string \<Rightarrow> char \<Rightarrow> nat option" where
  "LastIndexByte s c = map_option (\<lambda>k. length s - Suc k) (IndexByte (rev s) c)"

definition contains :: "string \<Rightarrow> char \<Rightarrow> bool" where
  "contains s c \<longleftrightarrow> c \<in> set s"

text \<open>\<^verbatim>\<open>net.SplitHostPort\<close>; every error of it is \<open>None\<close>.\<close>

definition SplitHostPort :: "string \<Rightarrow> (string \<times> string) option" where
  "SplitHostPort hp =
     (case LastIndexByte hp (CHR '':'') of
        None \<Rightarrow> None
      | Some i \<Rightarrow>
          let port = drop (Suc i) hp
          in if hd hp = CHR ''['' then
               (case IndexByte hp (CHR '']'') of
                  None \<Rightarrow> None
                | Some e \<Rightarrow>
                    if Suc e \<noteq> i then None
                    else if contains (drop 1 hp) (CHR ''['') \<or> contains (drop (Suc e) hp) (CHR '']'') then None
                    else Some (take (e - 1) (drop 1 hp), port))
             else
               let host = take i hp
               in if contains host (CHR '':'') \<or> contains hp (CHR ''['') \<or> contains hp (CHR '']'') then None
                  else Some (host, port))"

definition JoinHostPort :: "string \<Rightarrow> string \<Rightarrow> string" where
  "JoinHostPort host port =
     (if contains host (CHR '':'') then ''['' @ host @ '']:'' @ port else host @ '':'' @ port)"

subsection \<open>IP literals\<close>

fun split_on :: "char \<Rightarrow> string \<Rightarrow> string list" where
  "split_on c [] = [[]]"
| "split_on c (x # xs) =
     (if x = c then [] # split_on c xs
      else (case split_on c xs of [] \<Rightarrow> [[x]] | f # fs \<Rightarrow> (x # f) # fs))"

definition dec_value :: "string \<Rightarrow> nat" where
  "dec_value s = foldl (\<lambda>v c. v * 10 + (of_char c - 48)) 0 s"

definition parse_octet :: "string \<Rightarrow> byte option" where
  "parse_octet s =
     (if s = '''' \<or> \<not> list_all is_digit s \<or> (1 < length s \<and> hd s = CHR ''0'') \<or> 255 < dec_value s
      then None else Some (word_of_nat (dec_value s)))"

definition parseIPv4 :: "string \<Rightarrow> bytes option" where
  "parseIPv4 s =
     (case map parse_octet (split_on (CHR ''.'') s) of
        [Some a, Some b, Some c, Some d] \<Rightarrow> Some [a, b, c, d]
      | _ \<Rightarrow> None)"

definition hex_value :: "char \<Rightarrow> nat option" where
  "hex_value c =
     (let k = of_char c :: nat
      in if 48 \<le> k \<and> k \<le> 57 then Some (k - 48)
         else if 97 \<le> k \<and> k \<le> 102 then Some (k - 87)
         else if 65 \<le> k \<and> k \<le> 70 then Some (k - 55)
         else None)"

definition is_hex :: "char \<Rightarrow> bool" where
  "is_hex c \<longleftrightarrow> hex_value c \<noteq> None"

text \<open>
  The loop over the fields of an IPv6 literal: \<open>acc\<close> are the bytes so far and \<open>ell\<close> the number of
  them before the double colon, if it has been seen. The result is given the unread rest.
\<close>

function ipv6_fields :: "string \<Rightarrow> bytes \<Rightarrow> nat option \<Rightarrow> (bytes \<times> nat option \<times> string) option" where
  "ipv6_fields s acc ell =
     (if 16 \<le> length acc then Some (acc, ell, s)
      else
        let run = takeWhile is_hex s; rest = drop (length run) s
        in if run = [] \<or> 4 < length run then None
           else if rest \<noteq> [] \<and> hd rest = CHR ''.'' then
             (if ell = None \<and> length acc \<noteq> 12 \<or> 16 < length acc + 4 then None
              else (case parseIPv4 s of None \<Rightarrow> None | Some q \<Rightarrow> Some (acc @ q, ell, '''')))
           else
             let v = foldl (\<lambda>v c. v * 16 + the (hex_value c)) 0 run;
                 acc' = acc @ [word_of_nat (v div 256), word_of_nat (v mod 256)]
             in if rest = [] then Some (acc', ell, '''')
                else if hd rest \<noteq> CHR '':'' \<or> length rest = 1 then None
                else
                  let s' = tl rest
                  in if hd s' = CHR '':'' then
                       (if ell \<noteq> None then None
                        else if tl s' = [] then Some (acc', Some (length acc'), '''')
                        else ipv6_fields (tl s') acc' (Some (length acc')))
                     else ipv6_fields s' acc' ell)"
  by pat_completeness auto
termination
  by (relation "measure (\<lambda>(s, acc, ell). 16 - length acc)") auto

definition parseIPv6 :: "string \<Rightarrow> bytes option" where
  "parseIPv6 s =
     (let dbl = HasPrefix s ''::'';
          s1 = (if dbl then drop 2 s else s)
      in if dbl \<and> s1 = '''' then Some (replicate 16 0)
         else case ipv6_fields s1 [] (if dbl then Some 0 else None) of
           None \<Rightarrow> None
         | Some (acc, ell, rest) \<Rightarrow>
             if rest \<noteq> '''' then None
             else if length acc < 16 then
               (case ell of
                  None \<Rightarrow> None
                | Some e \<Rightarrow> Some (take e acc @ replicate (16 - length acc) 0 @ drop e acc))
             else if ell \<noteq> None then None
             else Some acc)"

definition v4_mapped :: "bytes \<Rightarrow> bytes" where
  "v4_mapped q = replicate 10 0 @ [0xFF, 0xFF] @ q"

definition ParseIP :: "string \<Rightarrow> bytes option" where
  "ParseIP s =
     (case filter (\<lambda>c. c = CHR ''.'' \<or> c = CHR '':'' \<or> c = CHR ''%'') s of
        [] \<Rightarrow> None
      | c # _ \<Rightarrow>
          if c = CHR ''.'' then map_option v4_mapped (parseIPv4 s)
          else if c = CHR '':'' then parseIPv6 s
          else None)"

definition To4 :: "bytes \<Rightarrow> bytes option" where
  "To4 ip =
     (if length ip = 4 then Some ip
      else if length ip = 16 \<and> take 10 ip = replicate 10 0 \<and> ip ! 10 = 0xFF \<and> ip ! 11 = 0xFF
      then Some (drop 12 ip) else None)"

subsection \<open>Parsing integers\<close>

text \<open>\<^verbatim>\<open>strconv.ParseInt(s, 10, 64)\<close> and \<^verbatim>\<open>strconv.Atoi\<close>; \<open>None\<close> for a syntax or a range error.\<close>

definition ParseInt :: "string \<Rightarrow> int option" where
  "ParseInt s =
     (let minus = HasPrefix s ''-'';
          ds = (if minus \<or> HasPrefix s ''+'' then drop 1 s else s);
          v = (if minus then - int (dec_value ds) else int (dec_value ds))
      in if ds = '''' \<or> \<not> list_all is_digit ds \<or> v < - (2 ^ 63) \<or> 2 ^ 63 \<le> v then None else Some v)"

lemma dec_value_append: "dec_value (ds @ [d]) = dec_value ds * 10 + (of_char d - 48)"
  by (simp add: dec_value_def)

lemma dec_value_dec_nat [simp]: "dec_value (dec_nat n) = n"
proof (induction n rule: dec_nat.induct)
  case (1 n)
  then show ?case
    by (cases "n < 10") (simp_all add: dec_nat.simps [of n] dec_value_append of_char_digit, simp add: dec_value_def of_char_digit)
qed

lemma dec_nat_hd: "\<not> HasPrefix (dec_nat n) ''-''" "\<not> HasPrefix (dec_nat n) ''+''"
proof -
  have "\<And>c. c \<in> set (dec_nat n) \<Longrightarrow> c \<noteq> CHR ''-'' \<and> c \<noteq> CHR ''+''"
    using dec_nat_digits [of n] by (auto simp: is_digit_def)
  then show "\<not> HasPrefix (dec_nat n) ''-''" "\<not> HasPrefix (dec_nat n) ''+''"
    by (cases "dec_nat n"; simp add: HasPrefix_def)+
qed

lemma ParseInt_fmt_d:
  assumes "- (2 ^ 63) \<le> i" "i < 2 ^ 63"
  shows "ParseInt (fmt_d i) = Some i"
proof (cases "i < 0")
  case True
  have "HasPrefix (CHR ''-'' # dec_nat (nat (- i))) ''-''" by (simp add: HasPrefix_def)
  then show ?thesis using True assms dec_nat_digits [of "nat (- i)"]
    by (simp add: ParseInt_def fmt_d_def Let_def list_all_iff)
next
  case False
  then show ?thesis using assms dec_nat_digits [of "nat i"]
    by (simp add: ParseInt_def fmt_d_def Let_def list_all_iff dec_nat_hd)
qed

subsection \<open>Trimming and splitting\<close>

text \<open>\<^verbatim>\<open>strings.TrimSpace\<close> on ASCII text.\<close>

definition is_space :: "char \<Rightarrow> bool" where
  "is_space c \<longleftrightarrow> c \<in> {CHR '' '', CHR 0x09, CHR 0x0A, CHR 0x0B, CHR 0x0C, CHR 0x0D}"

definition TrimSpace :: "string \<Rightarrow> string" where
  "TrimSpace s = rev (dropWhile is_space (rev (dropWhile is_space s)))"

lemma TrimSpace_plain:
  assumes "\<forall>c \<in> set s. \<not> is_space c"
  shows "TrimSpace s = s"
proof -
  have "dropWhile is_space t = t" if "set t = set s" for t using assms that by (cases t) auto
  then show ?thesis by (simp add: TrimSpace_def)
qed

lemma TrimSpace_fmt_d: "TrimSpace (fmt_d i) = fmt_d i"
  using fmt_d_chars [of i] by (intro TrimSpace_plain) (auto simp: is_digit_def is_space_def)

text \<open>\<^verbatim>\<open>strings.Split\<close> and \<^verbatim>\<open>strings.Join\<close> for a separator of one character.\<close>

fun Split :: "string \<Rightarrow> char \<Rightarrow> string list" where
  "Split [] c = [[]]"
| "Split (x # xs) c = (if x = c then [] # Split xs c else (x # hd (Split xs c)) # tl (Split xs c))"

fun Join :: "string list \<Rightarrow> char \<Rightarrow> string" where
  "Join [] c = []"
| "Join [s] c = s"
| "Join (s # ss) c = s @ c # Join ss c"

lemma Split_plain: "c \<notin> set s \<Longrightarrow> Split s c = [s]"
  by (induction s) auto

lemma Split_step: "c \<notin> set s \<Longrightarrow> Split (s @ c # r) c = s # Split r c"
  by (induction s) auto

lemma Split_Join: "ss \<noteq> [] \<Longrightarrow> \<forall>s \<in> set ss. c \<notin> set s \<Longrightarrow> Split (Join ss c) c = ss"
  by (induction ss c rule: Join.induct) (auto simp: Split_plain Split_step)

end
