(* ===== verification/Dns_Cache.thy ===== *)
theory Dns_Cache
  imports Go_Net Frame "HOL-Library.AList"
begin

text \<open>
  \<^verbatim>\<open>tunnel/dnscache.go\<close>: the cache in front of the resolver and the rewriting of dial targets. The
  entries are an association list with distinct keys. A call of the system resolver is an
  argument: what it answers (\<open>None\<close>: an error) and the clock before and after it.
\<close>

subsection \<open>Definitions\<close>

definition dnsCacheTTL :: duration where "dnsCacheTTL = 300 * Second"
definition dnsCacheNegTTL :: duration where "dnsCacheNegTTL = 5 * Second"
definition dnsCacheMaxEntries :: nat where "dnsCacheMaxEntries = 2048"
definition dnsResolveTimeout :: duration where "dnsResolveTimeout = 5 * Second"

record dns_entry =
  addrs :: "string list"
  expires :: time
  neg :: bool

type_synonym dns_cache = "(string \<times> dns_entry) list"

definition newDNSCache :: dns_cache where "newDNSCache = []"

text \<open>The failure of a lookup: an error, or an empty list of addresses.\<close>

definition no_addrs :: "string list option \<Rightarrow> bool" where
  "no_addrs r \<longleftrightarrow> r = None \<or> r = Some []"

definition store_lookup :: "time \<Rightarrow> string \<Rightarrow> string list option \<Rightarrow> dns_cache \<Rightarrow> dns_cache" where
  "store_lookup now host r c =
     (let c1 = (if dnsCacheMaxEntries \<le> length c then [] else c)
      in if no_addrs r then AList.update host \<lparr>addrs = [], expires = now + dnsCacheNegTTL, neg = True\<rparr> c1
         else AList.update host \<lparr>addrs = the r, expires = now + dnsCacheTTL, neg = False\<rparr> c1)"

definition resolve ::
  "(string \<Rightarrow> string list option) \<Rightarrow> time \<Rightarrow> time \<Rightarrow> string \<Rightarrow> dns_cache
    \<Rightarrow> string list option \<times> dns_cache" where
  "resolve lookup now now' host c =
     (case map_of c host of
        Some e \<Rightarrow>
          if now < expires e then (if neg e then None else Some (addrs e), c)
          else let r = lookup host
               in (if no_addrs r then None else r, store_lookup now' host r c)
      | None \<Rightarrow>
          let r = lookup host
          in (if no_addrs r then None else r, store_lookup now' host r c))"

text \<open>\<^verbatim>\<open>pickAddr\<close> with the random index \<open>k\<close>, reduced to the number of candidates as \<^verbatim>\<open>rand.Intn\<close> does.\<close>

definition is_v4 :: "string \<Rightarrow> bool" where
  "is_v4 a = (case ParseIP a of None \<Rightarrow> False | Some ip \<Rightarrow> To4 ip \<noteq> None)"

definition pickAddr :: "nat \<Rightarrow> string list \<Rightarrow> string" where
  "pickAddr k as =
     (let v4 = filter is_v4 as
      in if v4 \<noteq> [] then v4 ! (k mod length v4) else as ! (k mod length as))"

definition resolveTarget ::
  "(string \<Rightarrow> string list option) \<Rightarrow> time \<Rightarrow> time \<Rightarrow> nat \<Rightarrow> string \<Rightarrow> dns_cache \<Rightarrow> string \<times> dns_cache" where
  "resolveTarget lookup now now' k target c =
     (case SplitHostPort target of
        None \<Rightarrow> (target, c)
      | Some (host, port) \<Rightarrow>
          if ParseIP host \<noteq> None then (target, c)
          else (case resolve lookup now now' host c of
            (None, c') \<Rightarrow> (target, c')
          | (Some as, c') \<Rightarrow>
              if as = [] then (target, c') else (JoinHostPort (pickAddr k as) port, c')))"

subsection \<open>Size and freshness\<close>

text \<open>
  The history of resolver calls, each with the time at which its answer was stored. A cache is
  sound for a history if each entry is the answer of a call in it, with the lifetime of its kind.
\<close>

type_synonym lookup_log = "(string \<times> time \<times> string list option) list"

definition ttl_of :: "string list option \<Rightarrow> duration" where
  "ttl_of r = (if no_addrs r then dnsCacheNegTTL else dnsCacheTTL)"

definition cache_ok :: "lookup_log \<Rightarrow> dns_cache \<Rightarrow> bool" where
  "cache_ok log c \<longleftrightarrow> distinct (map fst c) \<and> length c \<le> dnsCacheMaxEntries
     \<and> (\<forall>host e. map_of c host = Some e \<longrightarrow>
          (\<exists>t r. (host, t, r) \<in> set log \<and> expires e = t + ttl_of r
             \<and> (if neg e then no_addrs r else r = Some (addrs e) \<and> addrs e \<noteq> [])))"

definition log_step :: "(string \<Rightarrow> string list option) \<Rightarrow> time \<Rightarrow> time \<Rightarrow> string \<Rightarrow> dns_cache \<Rightarrow> lookup_log" where
  "log_step lookup now now' host c =
     (case map_of c host of
        Some e \<Rightarrow> if now < expires e then [] else [(host, now', lookup host)]
      | None \<Rightarrow> [(host, now', lookup host)])"

lemma length_alist_update: "length (AList.update k v al) \<le> Suc (length al)"
  by (induction al) auto

lemma store_lookup_ok:
  assumes "cache_ok log c"
  shows "cache_ok ((host, now, r) # log) (store_lookup now host r c)"
proof -
  define c1 where "c1 = (if dnsCacheMaxEntries \<le> length c then [] else c)"
  define e where "e = (if no_addrs r then \<lparr>addrs = [], expires = now + dnsCacheNegTTL, neg = True\<rparr>
      else \<lparr>addrs = the r, expires = now + dnsCacheTTL, neg = False\<rparr>)"
  have s: "store_lookup now host r c = AList.update host e c1"
    by (simp add: store_lookup_def Let_def c1_def e_def)
  have c1: "distinct (map fst c1)" "length c1 < dnsCacheMaxEntries"
      "map_of c1 h = Some x \<Longrightarrow> map_of c h = Some x" for h x
    using assms by (auto simp: c1_def cache_ok_def dnsCacheMaxEntries_def split: if_splits)
  have new: "expires e = now + ttl_of r \<and> (if neg e then no_addrs r else r = Some (addrs e) \<and> addrs e \<noteq> [])"
    by (auto simp: e_def ttl_of_def no_addrs_def)
  show ?thesis
    unfolding cache_ok_def s
  proof (intro conjI allI impI)
    show "distinct (map fst (AList.update host e c1))" using c1(1) by (simp add: distinct_update)
    show "length (AList.update host e c1) \<le> dnsCacheMaxEntries"
      using length_alist_update [of host e c1] c1(2) by simp
    fix h x assume m: "map_of (AList.update host e c1) h = Some x"
    show "\<exists>t r'. (h, t, r') \<in> set ((host, now, r) # log) \<and> expires x = t + ttl_of r'
        \<and> (if neg x then no_addrs r' else r' = Some (addrs x) \<and> addrs x \<noteq> [])"
    proof (cases "h = host")
      case True
      then have "x = e" using m by (simp add: update_conv')
      then show ?thesis using True new by (intro exI [of _ now] exI [of _ r]) simp
    next
      case False
      then have "map_of c h = Some x" using m c1(3) by (simp add: update_conv')
      then have "\<exists>t r'. (h, t, r') \<in> set log \<and> expires x = t + ttl_of r'
          \<and> (if neg x then no_addrs r' else r' = Some (addrs x) \<and> addrs x \<noteq> [])"
        using assms unfolding cache_ok_def by blast
      then show ?thesis by (meson list.set_intros(2))
    qed
  qed
qed

lemma resolve_ok:
  assumes "cache_ok log c"
  shows "cache_ok (log_step lookup now now' host c @ log) (snd (resolve lookup now now' host c))"
  using assms store_lookup_ok [OF assms, of host now' "lookup host"]
  by (auto simp: resolve_def log_step_def Let_def split: option.split)

text \<open>A run of the cache: every call with its resolver, clock readings and host.\<close>

fun dns_run ::
  "((string \<Rightarrow> string list option) \<times> time \<times> time \<times> string) list \<Rightarrow> lookup_log \<Rightarrow> dns_cache \<Rightarrow> lookup_log \<times> dns_cache" where
  "dns_run [] log c = (log, c)"
| "dns_run ((lookup, now, now', host) # calls) log c =
     dns_run calls (log_step lookup now now' host c @ log) (snd (resolve lookup now now' host c))"

lemma dns_run_ok: "cache_ok log c \<Longrightarrow> dns_run calls log c = (log', c') \<Longrightarrow> cache_ok log' c'"
  by (induction calls log c rule: dns_run.induct) (auto dest: resolve_ok)

lemma resolve_answer:
  assumes "cache_ok log c" "resolve lookup now now' host c = (r, c')"
  shows "(r = (if no_addrs (lookup host) then None else lookup host) \<and> log_step lookup now now' host c \<noteq> [])
    \<or> (\<exists>t a. (host, t, a) \<in> set log \<and> now < t + ttl_of a \<and> r = (if no_addrs a then None else a))"
proof (cases "\<exists>e. map_of c host = Some e \<and> now < expires e")
  case True
  then obtain e where e: "map_of c host = Some e" "now < expires e" by blast
  then obtain t a where a: "(host, t, a) \<in> set log" "expires e = t + ttl_of a"
      "if neg e then no_addrs a else a = Some (addrs e) \<and> addrs e \<noteq> []"
    using assms(1) unfolding cache_ok_def by blast
  have "r = (if neg e then None else Some (addrs e))" using assms(2) e by (auto simp: resolve_def)
  then have "r = (if no_addrs a then None else a)" using a(3) by (auto simp: no_addrs_def split: if_splits)
  then show ?thesis using a e(2) by auto
next
  case False
  then show ?thesis using assms(2) by (auto simp: resolve_def log_step_def Let_def split: option.splits)
qed

subsection \<open>Properties\<close>

text \<open>
  C27. The DNS cache is bounded and fresh: after any sequence of resolutions it has at most 2048
  entries, and every answer is either that of the resolver call just made or that of an earlier
  call for the same host which is younger than 300 seconds, or 5 seconds if it had failed.
\<close>

theorem dns_cache_fresh:
  assumes "dns_run calls [] newDNSCache = (log, c)" "resolve lookup now now' host c = (r, c')"
  shows "length c' \<le> 2048 \<and>
    (r = (if no_addrs (lookup host) then None else lookup host)
     \<or> (\<exists>t a. (host, t, a) \<in> set log \<and> now < t + (if no_addrs a then 5 * Second else 300 * Second)
          \<and> r = (if no_addrs a then None else a)))"
proof -
  have "cache_ok [] newDNSCache" by (simp add: cache_ok_def newDNSCache_def)
  then have ok: "cache_ok log c" using dns_run_ok assms(1) by blast
  have "length c' \<le> 2048"
    using resolve_ok [OF ok, of lookup now now' host] assms(2) by (simp add: cache_ok_def dnsCacheMaxEntries_def)
  then show ?thesis
    using resolve_answer [OF ok assms(2)] unfolding ttl_of_def dnsCacheNegTTL_def dnsCacheTTL_def by blast
qed

theorem dns_cache_fresh_witness:
  "\<exists>c. dns_run [(\<lambda>_. Some [''10.0.0.1''], 0, 1, ''a'')] [] newDNSCache = ([(''a'', 1, Some [''10.0.0.1''])], c)
     \<and> resolve (\<lambda>_. None) 2 3 ''a'' c = (Some [''10.0.0.1''], c) \<and> length c \<le> 2048"
proof -
  define c where "c = [(''a'', \<lparr>addrs = [''10.0.0.1''], expires = 1 + dnsCacheTTL, neg = False\<rparr>)]"
  have run: "dns_run [(\<lambda>_. Some [''10.0.0.1''], 0, 1, ''a'')] [] newDNSCache = ([(''a'', 1, Some [''10.0.0.1''])], c)"
    by (simp add: c_def newDNSCache_def log_step_def resolve_def store_lookup_def no_addrs_def Let_def
        dnsCacheMaxEntries_def)
  have r: "resolve (\<lambda>_. None) 2 3 ''a'' c = (Some [''10.0.0.1''], c)"
    by (simp add: c_def resolve_def dnsCacheTTL_def)
  from dns_cache_fresh [OF run r] run r show ?thesis by blast
qed

text \<open>
  A dial target whose host is an IP literal is left as it is; otherwise a successful resolution
  gives one of the resolved addresses with the same port, an IPv4 one whenever there is one.
\<close>

lemma resolve_target_spec:
  assumes "SplitHostPort target = Some (host, port)"
    and "resolve lookup now now' host c = (r, c')"
  shows "if ParseIP host \<noteq> None then resolveTarget lookup now now' k target c = (target, c)
    else case r of
        Some (a # as) \<Rightarrow> (\<exists>x \<in> set (a # as). resolveTarget lookup now now' k target c = (JoinHostPort x port, c')
            \<and> ((\<exists>y \<in> set (a # as). is_v4 y) \<longrightarrow> is_v4 x))
      | _ \<Rightarrow> resolveTarget lookup now now' k target c = (target, c')"
proof -
  have pick: "pickAddr k as \<in> set as \<and> ((\<exists>y \<in> set as. is_v4 y) \<longrightarrow> is_v4 (pickAddr k as))" if "as \<noteq> []" for as
  proof (cases "filter is_v4 as = []")
    case True
    then have "pickAddr k as = as ! (k mod length as)" by (simp add: pickAddr_def)
    moreover have "k mod length as < length as" using that by simp
    ultimately show ?thesis using True by (auto simp: filter_empty_conv)
  next
    case False
    then have "pickAddr k as = filter is_v4 as ! (k mod length (filter is_v4 as))"
      by (simp add: pickAddr_def Let_def)
    moreover have "k mod length (filter is_v4 as) < length (filter is_v4 as)" using False by simp
    ultimately have "pickAddr k as \<in> set (filter is_v4 as)" using nth_mem by metis
    then show ?thesis by auto
  qed
  show ?thesis
  proof (cases "ParseIP host = None \<and> (\<exists>a as. r = Some (a # as))")
    case True
    then obtain a as where r: "r = Some (a # as)" by blast
    then have t: "resolveTarget lookup now now' k target c = (JoinHostPort (pickAddr k (a # as)) port, c')"
      using assms True by (simp add: resolveTarget_def)
    have "\<exists>x \<in> set (a # as). resolveTarget lookup now now' k target c = (JoinHostPort x port, c')
        \<and> ((\<exists>y \<in> set (a # as). is_v4 y) \<longrightarrow> is_v4 x)"
      using pick [of "a # as"] t by blast
    then show ?thesis using True r by simp
  next
    case False
    then show ?thesis using assms by (auto simp: resolveTarget_def split: option.split list.split)
  qed
qed

text \<open>
  An IPv6 target never reaches the dialer as an IPv6 literal: the address is printed as 32 hex
  digits without colons, which no IP parser accepts, so the server looks the digits up as a
  host name.
\<close>

lemma ipv6_target_not_literal:
  assumes "AddrType cp = 0x04" "length (Addr cp) = 16"
  shows "\<exists>host port. ConnectPayload_String cp = Some (''['' @ host @ '']:'' @ port)
    \<and> length host = 32 \<and> ParseIP host = None"
proof -
  have hexc: "hex_digit d \<noteq> CHR ''.'' \<and> hex_digit d \<noteq> CHR '':'' \<and> hex_digit d \<noteq> CHR ''%''" if "d < 16" for d
  proof -
    have "list_all (\<lambda>d. hex_digit d \<noteq> CHR ''.'' \<and> hex_digit d \<noteq> CHR '':'' \<and> hex_digit d \<noteq> CHR ''%'') [0..<16]"
      by code_simp
    then show ?thesis using that by (simp add: list_all_iff)
  qed
  have "unat b div 16 < 16" for b :: byte using unat_byte_less [of b] by (simp add: div_less_iff_less_mult)
  then have "filter (\<lambda>c. c = CHR ''.'' \<or> c = CHR '':'' \<or> c = CHR ''%'') (fmt_x (Addr cp)) = []"
    using hexc by (auto simp: fmt_x_def filter_empty_conv)
  then have "ParseIP (fmt_x (Addr cp)) = None" by (simp add: ParseIP_def)
  moreover have "length (fmt_x bs) = 2 * length bs" for bs by (induction bs) (simp_all add: fmt_x_def)
  ultimately show ?thesis
    using assms by (intro exI [of _ "fmt_x (Addr cp)"] exI [of _ "fmt_d (int (unat (Port cp)))"])
      (simp add: ConnectPayload_String_def Let_def)
qed

end
