(* ===== verification/Server.thy ===== *)
theory Server
  imports Link_Runtime Dns_Cache
begin

text \<open>
  \<^verbatim>\<open>tunnel/server.go\<close>: the server side of a CONNECT. The connection is registered first, then the
  target is resolved and dialled; \<open>dial\<close> tells which targets answer. \<open>add\<close> is the link's
  \<^verbatim>\<open>Batcher.Add\<close>.
\<close>

subsection \<open>Definitions\<close>

record server =
  sv_links :: "int \<Rightarrow> link_runtime option"
  dns :: dns_cache

definition newServerLink :: "link_spec \<Rightarrow> link_runtime" where
  "newServerLink spec =
     (let lr = newLinkRuntime spec in lr\<lparr>rt_mux := (rt_mux lr)\<lparr>has_onConnect := True\<rparr>\<rparr>)"

definition NewServer :: "link_spec list \<Rightarrow> server" where
  "NewServer specs = \<lparr>sv_links = map_of (fst (buildPool specs newServerLink)), dns = newDNSCache\<rparr>"

record dial_env =
  env_lookup :: "string \<Rightarrow> string list option"
  env_now :: time
  env_now' :: time
  env_rand :: nat
  env_dial :: "string \<Rightarrow> bool"

text \<open>
  \<^verbatim>\<open>handleConnect\<close> up to the start of the relay: the answer tells whether it relays. A payload whose
  \<^verbatim>\<open>String\<close> panics cannot occur, since only parsed payloads arrive here; the model does nothing
  then.
\<close>

definition handleConnect ::
  "batcher send_frame \<Rightarrow> dial_env \<Rightarrow> int \<Rightarrow> conn_id \<Rightarrow> connect_payload \<Rightarrow> server \<Rightarrow> bool \<times> server" where
  "handleConnect add env k connID cp sv =
     (case (sv_links sv k, ConnectPayload_String cp) of
        (Some lr, Some target) \<Rightarrow>
          let (tc, m1) = RegisterConn (env_now env) connID (rt_mux lr);
              (dialTarget, dns') =
                resolveTarget (env_lookup env) (env_now env) (env_now' env) (env_rand env) target (dns sv)
          in if \<not> env_dial env dialTarget then
               let m2 = fst (RemoveConn connID m1);
                   b = snd (SendReset add (rt_batcher lr) connID)
               in (False, sv\<lparr>sv_links := (sv_links sv)(k \<mapsto> lr\<lparr>rt_mux := m2, rt_batcher := b\<rparr>), dns := dns'\<rparr>)
             else
               let b = snd (add (rt_batcher lr)
                         \<lparr>FType = TypeConnectACK, ConnID = connID, SeqNum = 0, Payload = []\<rparr> True)
               in (True, sv\<lparr>sv_links := (sv_links sv)(k \<mapsto> lr\<lparr>rt_mux := m1, rt_batcher := b\<rparr>), dns := dns'\<rparr>)
      | _ \<Rightarrow> (False, sv))"

subsection \<open>Lemmas\<close>

lemma ParseConnectPayload_String:
  "ParseConnectPayload d = Inr cp \<Longrightarrow> ConnectPayload_String cp \<noteq> None"
  using Parse_InrD [of d cp] by (auto simp: wf_connect_def ConnectPayload_String_def Let_def)

lemma GetConn_Register: "GetConn (snd (RegisterConn now i m)) j = (if j = i then Some (newConn now i) else GetConn m j)"
  by (simp add: RegisterConn_def GetConn_def put_conn_def update_conv' Let_def)

lemma recv_run_not_first:
  assumes "recvExpected c = 0" "\<forall>(q, d) \<in> set fs. q \<noteq> 0"
  shows "snd (recv_run c fs) = []"
  using assms
proof (induction fs arbitrary: c)
  case (Cons f fs)
  obtain q d where f: "f = (q, d)" by (cases f)
  have "q \<noteq> 0" using Cons.prems(2) f by simp
  then obtain c1 where c1: "deliverOrdered c q d = (c1, [])" "recvExpected c1 = 0"
    using Cons.prems(1) by (auto simp: deliverOrdered_def)
  show ?case using Cons.IH [OF c1(2)] Cons.prems(2) by (simp add: f c1 split_beta)
qed simp

subsection \<open>Properties\<close>

text \<open>
  Every CONNECT a server accepts for parsing is answered: with an acknowledgement and a fresh
  registered connection when the target could be dialled, otherwise with a RESET and without a
  connection; no other connection of the link is touched.
\<close>

lemma connect_answered:
  assumes "ParseConnectPayload d = Inr cp" "sv_links sv k = Some lr"
    and "\<forall>b f u. add b f u = (True, b\<lparr>buf := buf b @ Frame_Marshal f\<rparr>)"
  shows "\<exists>ok sv' lr' t. handleConnect add env k i cp sv = (ok, sv') \<and> sv_links sv' k = Some lr'
    \<and> buf (rt_batcher lr') = buf (rt_batcher lr) @ Frame_Marshal \<lparr>FType = t, ConnID = i, SeqNum = 0, Payload = []\<rparr>
    \<and> (if ok then t = TypeConnectACK \<and> GetConn (rt_mux lr') i = Some (newConn (env_now env) i)
       else t = TypeReset \<and> GetConn (rt_mux lr') i = None)
    \<and> (\<forall>j. j \<noteq> i \<longrightarrow> GetConn (rt_mux lr') j = GetConn (rt_mux lr) j)"
proof -
  obtain target where t: "ConnectPayload_String cp = Some target"
    using ParseConnectPayload_String [OF assms(1)] by blast
  obtain dt dns' where r: "resolveTarget (env_lookup env) (env_now env) (env_now' env) (env_rand env) target (dns sv)
      = (dt, dns')" by (metis prod.exhaust)
  obtain tc m1 where m1: "RegisterConn (env_now env) i (rt_mux lr) = (tc, m1)" by (metis prod.exhaust)
  have g: "GetConn m1 j = (if j = i then Some (newConn (env_now env) i) else GetConn (rt_mux lr) j)" for j
    using GetConn_Register [of "env_now env" i "rt_mux lr" j] m1 by simp
  have rm: "GetConn (fst (RemoveConn i m1)) j = (if j = i then None else GetConn m1 j)" for j
    using g [of i] by (auto simp: GetConn_def RemoveConn_def delete_conv' split: option.splits)
  show ?thesis
  proof (cases "env_dial env dt")
    case True
    let ?f = "\<lparr>FType = TypeConnectACK, ConnID = i, SeqNum = 0, Payload = []\<rparr>"
    let ?lr = "lr\<lparr>rt_mux := m1, rt_batcher := (rt_batcher lr)\<lparr>buf := buf (rt_batcher lr) @ Frame_Marshal ?f\<rparr>\<rparr>"
    have "handleConnect add env k i cp sv =
        (True, sv\<lparr>sv_links := (sv_links sv)(k \<mapsto> ?lr), dns := dns'\<rparr>)"
      using True assms t r m1 by (simp add: handleConnect_def Let_def)
    then show ?thesis using g
      by (intro exI [of _ True] exI [of _ ?lr] exI [of _ TypeConnectACK] exI) (auto intro: refl)
  next
    case False
    let ?f = "\<lparr>FType = TypeReset, ConnID = i, SeqNum = 0, Payload = []\<rparr>"
    let ?lr = "lr\<lparr>rt_mux := fst (RemoveConn i m1),
      rt_batcher := (rt_batcher lr)\<lparr>buf := buf (rt_batcher lr) @ Frame_Marshal ?f\<rparr>\<rparr>"
    have "handleConnect add env k i cp sv =
        (False, sv\<lparr>sv_links := (sv_links sv)(k \<mapsto> ?lr), dns := dns'\<rparr>)"
      using False assms t r m1 by (simp add: handleConnect_def Let_def SendReset_def)
    then show ?thesis using g rm
      by (intro exI [of _ False] exI [of _ ?lr] exI [of _ TypeReset] exI) (auto intro: refl)
  qed
qed

text \<open>
  C34. A repeated CONNECT restarts the stream: when the CONNECT of a running connection is processed
  again (a redelivered batch), the registered connection is replaced by a fresh one that expects
  frame 0, so none of the later frames of the peer, which go on counting, is ever delivered.
\<close>

theorem repeated_connect_stalls:
  assumes "sv_links sv k = Some lr" "GetConn (rt_mux lr) i = Some c" "0 < recvExpected c"
    and "handleConnect add env k i cp sv = (True, sv')"
    and "\<forall>(q, d) \<in> set fs. recvExpected c \<le> q"
  shows "\<exists>lr' c'. sv_links sv' k = Some lr' \<and> GetConn (rt_mux lr') i = Some c' \<and> snd (recv_run c' fs) = []"
proof -
  have "\<exists>lr'. sv_links sv' k = Some lr' \<and> GetConn (rt_mux lr') i = Some (newConn (env_now env) i)"
    using assms(1,4) GetConn_Register [of "env_now env" i "rt_mux lr" i]
    by (auto simp: handleConnect_def Let_def split: option.splits prod.splits if_splits)
  moreover have "\<forall>(q, d) \<in> set fs. q \<noteq> 0" using assms(3,5) by auto
  then have "snd (recv_run (newConn (env_now env) i) fs) = []"
    by (intro recv_run_not_first) (simp_all add: newConn_def)
  ultimately show ?thesis by blast
qed

theorem repeated_connect_stalls_witness:
  "let lr = (newLinkRuntime \<lparr>SpecID = 3, SpecBotID = 5, SpecPeerBotID = 6, SpecChannelID = -100, Key = [],
                 SpecLevel = SpeedFastest, QuietHours = None\<rparr>)\<lparr>rt_mux := put_conn 7 ((newConn 0 7)\<lparr>recvExpected := 1\<rparr>) NewMux\<rparr>;
       sv = \<lparr>sv_links = [3 \<mapsto> lr], dns = []\<rparr>;
       env = \<lparr>env_lookup = (\<lambda>_. None), env_now = 0, env_now' = 1, env_rand = 0, env_dial = (\<lambda>_. True)\<rparr>;
       sv' = snd (handleConnect (\<lambda>b f u. (True, b)) env 3 7 \<lparr>AddrType = 1, Addr = [1, 2, 3, 4], Port = 80\<rparr> sv)
   in \<exists>lr' c'. sv_links sv' 3 = Some lr' \<and> GetConn (rt_mux lr') 7 = Some c' \<and> snd (recv_run c' [(1, [9])]) = []"
proof -
  define lr where "lr = (newLinkRuntime \<lparr>SpecID = 3, SpecBotID = 5, SpecPeerBotID = 6, SpecChannelID = -100, Key = [],
      SpecLevel = SpeedFastest, QuietHours = None\<rparr>)\<lparr>rt_mux := put_conn 7 ((newConn 0 7)\<lparr>recvExpected := 1\<rparr>) NewMux\<rparr>"
  define sv where "sv = \<lparr>sv_links = [3 \<mapsto> lr], dns = []\<rparr>"
  define env where "env = \<lparr>env_lookup = (\<lambda>_. None), env_now = 0, env_now' = 1, env_rand = 0, env_dial = (\<lambda>_. True)\<rparr>"
  define cp where "cp = \<lparr>AddrType = 1, Addr = [1, 2, 3, 4 :: byte], Port = 80\<rparr>"
  define add where "add = (\<lambda>(b :: batcher) (f :: frame) (u :: bool). (True, b))"
  have g: "sv_links sv 3 = Some lr" "GetConn (rt_mux lr) 7 = Some ((newConn 0 7)\<lparr>recvExpected := 1\<rparr>)"
    by (simp_all add: sv_def lr_def GetConn_def put_conn_def update_conv')
  have "fst (handleConnect add env 3 7 cp sv)"
    using g(1) by (simp add: handleConnect_def ConnectPayload_String_def cp_def Let_def env_def split: prod.split)
  then obtain sv' where h: "handleConnect add env 3 7 cp sv = (True, sv')" by (metis prod.collapse)
  from repeated_connect_stalls [OF g _ h, of "[(1, [9])]"] show ?thesis
    unfolding Let_def lr_def [symmetric] env_def [symmetric] cp_def [symmetric] add_def [symmetric] sv_def [symmetric]
    by (simp add: h)
qed

end
