(* ===== verification/Tunnel_Session.thy ===== *)
theory Tunnel_Session
  imports Client Server
begin

text \<open>
  Where \<^verbatim>\<open>tunnel/client.go\<close> and \<^verbatim>\<open>tunnel/server.go\<close> meet: the two receive loops with their callbacks,
  a flush of a link's batcher, one CONNECT exchanged between a client and a server, \<^verbatim>\<open>Stop\<close> and \<^verbatim>\<open>Run\<close>. What
  both sides rely on is the contract of \<^verbatim>\<open>Batcher.Add\<close>, stated as the locale \<open>frame_queue\<close>; it is
  interpreted on the model of \<^verbatim>\<open>Add\<close>. Shown is that a SOCKS request reaches the dialler of the server
  unchanged and comes back as the right outcome, and that a stopped side closes the peer's streams.
\<close>

subsection \<open>The batcher of a link\<close>

text \<open>\<^verbatim>\<open>Add\<close> where the admission is settled by the first poll; a frame that would have to wait is refused.\<close>

definition Add_poll :: "rat \<Rightarrow> time \<Rightarrow> batcher send_frame" where
  "Add_poll u now b f urgent =
     (case Add [(b, now)] now u now f urgent b of None \<Rightarrow> (False, b) | Some r \<Rightarrow> r)"

text \<open>
  A flush of the link's batcher with the goroutine it starts, the network apart: the envelopes it
  hands to the send, without those whose sealing failed.
\<close>

definition ship ::
  "(bytes \<Rightarrow> bytes) \<Rightarrow> (64 word \<Rightarrow> bytes option) \<Rightarrow> (nat \<Rightarrow> nat \<Rightarrow> nat) \<Rightarrow> time \<Rightarrow> link_runtime
    \<Rightarrow> bytes list \<times> link_runtime" where
  "ship enc rnd grow now lr =
     (case Flush grow now (rt_batcher lr) of
        (None, b) \<Rightarrow> ([], lr\<lparr>rt_batcher := b\<rparr>)
      | (Some j, b) \<Rightarrow>
          (case flushRaw enc rnd (b_key b) (j_seq j) (j_raw j) (seqNum b) of
             None \<Rightarrow> ([], lr\<lparr>rt_batcher := b\<rparr>)
           | Some (ps, ctr) \<Rightarrow>
               (List.map_filter (\<lambda>(q, r). case r of Inl _ \<Rightarrow> None | Inr s \<Rightarrow> Some s) ps,
                lr\<lparr>rt_batcher := job_done j (b\<lparr>seqNum := ctr\<rparr>)\<rparr>)))"

subsection \<open>The receive loops with their callbacks\<close>

text \<open>On the client an acknowledgement wakes the attempt that waits for it; the result lists those.\<close>

fun client_actions :: "mux_action list \<Rightarrow> client \<Rightarrow> conn_id list \<times> client" where
  "client_actions [] c = ([], c)"
| "client_actions (a # as) c =
     (case a of
        OnConnectACK i \<Rightarrow>
          (let (w, c1) = onConnectACK i c; (ws, c2) = client_actions as c1
           in (if w then i # ws else ws, c2))
      | _ \<Rightarrow> client_actions as c)"

definition client_recv ::
  "(bytes \<Rightarrow> bytes option) \<Rightarrow> time \<Rightarrow> int \<Rightarrow> bytes list \<Rightarrow> client \<Rightarrow> conn_id list \<times> client" where
  "client_recv dec now k datas c =
     (case c_links c k of
        None \<Rightarrow> ([], c)
      | Some lr \<Rightarrow>
          (let (lr', as) = recvLoop dec now datas lr
           in client_actions as (c\<lparr>c_links := (c_links c)(k \<mapsto> lr')\<rparr>)))"

text \<open>
  On the server a CONNECT starts \<^verbatim>\<open>handleConnect\<close>, which the code runs on a goroutine of its own; here
  the goroutines run one after the other, in the order the frames came.
\<close>

fun server_actions :: "batcher send_frame \<Rightarrow> dial_env \<Rightarrow> int \<Rightarrow> mux_action list \<Rightarrow> server \<Rightarrow> server" where
  "server_actions add env k [] sv = sv"
| "server_actions add env k (a # as) sv =
     server_actions add env k as
       (case a of OnConnect i cp \<Rightarrow> snd (handleConnect add env k i cp sv) | _ \<Rightarrow> sv)"

definition server_recv ::
  "(bytes \<Rightarrow> bytes option) \<Rightarrow> batcher send_frame \<Rightarrow> dial_env \<Rightarrow> int \<Rightarrow> bytes list \<Rightarrow> server \<Rightarrow> server" where
  "server_recv dec add env k datas sv =
     (case sv_links sv k of
        None \<Rightarrow> sv
      | Some lr \<Rightarrow>
          (let (lr', as) = recvLoop dec (env_now env) datas lr
           in server_actions add env k as (sv\<lparr>sv_links := (sv_links sv)(k \<mapsto> lr')\<rparr>)))"

subsection \<open>One CONNECT, there and back\<close>

definition ship_client where
  "ship_client enc rnd grow now k c =
     (case c_links c k of
        None \<Rightarrow> ([], c)
      | Some lr \<Rightarrow> (let (es, lr') = ship enc rnd grow now lr in (es, c\<lparr>c_links := (c_links c)(k \<mapsto> lr')\<rparr>)))"

definition ship_server where
  "ship_server enc rnd grow now k sv =
     (case sv_links sv k of
        None \<Rightarrow> ([], sv)
      | Some lr \<Rightarrow> (let (es, lr') = ship enc rnd grow now lr in (es, sv\<lparr>sv_links := (sv_links sv)(k \<mapsto> lr')\<rparr>)))"

text \<open>
  The client starts an attempt and flushes, the server handles what arrives and flushes, the client
  handles the answer: the connection's identifier, the attempts woken, and both sides afterwards.
\<close>

definition connect_exchange ::
  "(bytes \<Rightarrow> bytes) \<Rightarrow> (bytes \<Rightarrow> bytes option) \<Rightarrow> (64 word \<Rightarrow> bytes option) \<Rightarrow> (nat \<Rightarrow> nat \<Rightarrow> nat) \<Rightarrow> rat \<Rightarrow> dial_env
    \<Rightarrow> time \<Rightarrow> conn_id list \<Rightarrow> connect_request \<Rightarrow> int \<Rightarrow> int \<Rightarrow> client \<Rightarrow> server
    \<Rightarrow> (conn_id \<times> conn_id list \<times> client \<times> server) option" where
  "connect_exchange enc dec rnd grow u env now draws req k k' c sv =
     (case try_start (Add_poll u now) now draws req k c of
        None \<Rightarrow> None
      | Some (i, c1) \<Rightarrow>
          (let (there, c2) = ship_client enc rnd grow now k c1;
               sv1 = server_recv dec (Add_poll u (env_now env)) env k' there sv;
               (back, sv2) = ship_server enc rnd grow (env_now env) k' sv1;
               (woken, c3) = client_recv dec now k back c2
           in Some (i, woken, c3, sv2)))"

subsection \<open>Stop\<close>

text \<open>
  \<^verbatim>\<open>Stop\<close> of either side does the same for every link: announce the end of all connections, stop the
  batcher, which flushes and waits for the sends, then end the poller and the multiplexer's garbage
  collection. The events are those visible outside, in order.
\<close>

datatype stop_event = WarmupCancelled | FinalBatch int "bytes list" | PollerStopped int | MuxStopped int

definition Batcher_Stop where
  "Batcher_Stop enc rnd grow now lr = ship enc rnd grow now lr"

definition stop_link where
  "stop_link enc rnd grow u now k lr =
     (let lr1 = lr\<lparr>rt_batcher := CloseAllNotify (Add_poll u now) (rt_mux lr) (rt_batcher lr)\<rparr>;
          (es, lr2) = Batcher_Stop enc rnd grow now lr1
      in ([FinalBatch k es, PollerStopped k, MuxStopped k], lr2))"

fun stop_links where
  "stop_links enc rnd grow u now [] links = ([], links)"
| "stop_links enc rnd grow u now (k # ks) links =
     (case links k of
        None \<Rightarrow> stop_links enc rnd grow u now ks links
      | Some lr \<Rightarrow>
          (let (es, lr') = stop_link enc rnd grow u now k lr;
               (es', links') = stop_links enc rnd grow u now ks (links(k \<mapsto> lr'))
           in (es @ es', links')))"

text \<open>\<open>order\<close> is the order in which the links are visited, which Go leaves open; \<open>warm\<close>: the warm-up was started.\<close>

definition Client_Stop where
  "Client_Stop enc rnd grow u now warm order c =
     (let (es, ls) = stop_links enc rnd grow u now order (c_links c)
      in ((if warm then [WarmupCancelled] else []) @ es, c\<lparr>c_links := ls\<rparr>))"

definition Server_Stop where
  "Server_Stop enc rnd grow u now warm order sv =
     (let (es, ls) = stop_links enc rnd grow u now order (sv_links sv)
      in ((if warm then [WarmupCancelled] else []) @ es, sv\<lparr>sv_links := ls\<rparr>))"

subsection \<open>The contract of Add\<close>

definition close_frame :: "conn_id \<Rightarrow> frame" where
  "close_frame i = \<lparr>FType = TypeClose, ConnID = i, SeqNum = 0, Payload = []\<rparr>"


text \<open>
  A frame is queued whole behind the others or not at all, and nothing that identifies the batch
  changes.
\<close>

locale frame_queue =
  fixes add :: "batcher send_frame"
  assumes taken: "add b f urgent = (True, b') \<Longrightarrow> buf b' = buf b @ Frame_Marshal f"
    and refused: "add b f urgent = (False, b') \<Longrightarrow> b' = b"
    and keeps: "add b f urgent = (ok, b') \<Longrightarrow>
      seqNum b' = seqNum b \<and> b_key b' = b_key b \<and> inFlightBytes b' = inFlightBytes b"
begin

lemma queued:
  "buf (snd (add b f urgent)) = buf b @ (if fst (add b f urgent) then Frame_Marshal f else [])"
proof (cases "fst (add b f urgent)")
  case True
  then show ?thesis using taken [of b f urgent "snd (add b f urgent)"] by (simp add: prod_eq_iff)
next
  case False
  then show ?thesis using refused [of b f urgent "snd (add b f urgent)"] by (simp add: prod_eq_iff)
qed

lemma kept [simp]:
  "seqNum (snd (add b f urgent)) = seqNum b" "b_key (snd (add b f urgent)) = b_key b"
  "inFlightBytes (snd (add b f urgent)) = inFlightBytes b"
  using keeps [of b f urgent "fst (add b f urgent)" "snd (add b f urgent)"] by simp_all

end

text \<open>The queue also never refuses a frame that the byte budget has room for.\<close>

locale budget_queue = frame_queue +
  assumes admits: "admit_ok b (length (Frame_Marshal f)) \<Longrightarrow> fst (add b f urgent)"
begin

lemma closes_queued:
  assumes "admit_ok b (13 * length is)"
  shows "buf (fold (\<lambda>i b. snd (SendClose add b i)) is b) = buf b @ concat (map (Frame_Marshal \<circ> close_frame) is)
    \<and> seqNum (fold (\<lambda>i b. snd (SendClose add b i)) is b) = seqNum b
    \<and> b_key (fold (\<lambda>i b. snd (SendClose add b i)) is b) = b_key b"
  using assms
proof (induction "is" arbitrary: b)
  case (Cons i "is")
  let ?b = "snd (SendClose add b i)"
  have s: "SendClose add b i = add b (close_frame i) True" by (simp add: SendClose_def close_frame_def)
  have "fst (SendClose add b i)"
    unfolding s by (rule admits) (use Cons.prems in \<open>simp add: admit_ok_def close_frame_def HeaderSize_def\<close>)
  then have q: "buf ?b = buf b @ Frame_Marshal (close_frame i)" using queued s by simp
  then have "admit_ok ?b (13 * length is)"
    using Cons.prems by (simp add: admit_ok_def s close_frame_def HeaderSize_def)
  from Cons.IH [OF this] show ?case using q s by simp
qed simp

end

lemma Add_poll_cases:
  "Add_poll u now b f urgent =
     (if admit_ok b (length (Frame_Marshal f))
      then (True, add_signal (should_flush f (add_locked u now f urgent b)) (add_locked u now f urgent b))
      else (False, b))"
  by (simp add: Add_poll_def Add_def admitTimeout_def Let_def)

interpretation admitted: budget_queue "Add_poll u now" for u now
  by unfold_locales (auto simp: Add_poll_cases split: if_splits)

subsection \<open>What a flush carries across\<close>

abbreviation keyed :: "bytes \<Rightarrow> link_runtime \<Rightarrow> bool" where
  "keyed key lr \<equiv> rt_key lr = key \<and> b_key (rt_batcher lr) = key"

lemma ship_opens:
  assumes "\<forall>x. dec (enc x) = Some x" "length key = keyLen" "\<forall>q. \<exists>n. rnd q = Some n \<and> length n = nonceLen"
    and "b_key (rt_batcher lr) = key" "buf (rt_batcher lr) = concat (map Frame_Marshal fs)" "fs \<noteq> []"
    and "\<forall>f \<in> set fs. length (Payload f) < 2 ^ 24"
    and "length (enc (concat (map Frame_Marshal fs))) \<le> MaxCompressedSize"
  shows "\<exists>sealed b. ship enc rnd grow now lr = ([sealed], lr\<lparr>rt_batcher := b\<rparr>)
    \<and> open_batch dec key sealed = fs \<and> buf b = [] \<and> b_key b = key"
proof -
  let ?raw = "concat (map Frame_Marshal fs)"
  have ne: "buf (rt_batcher lr) \<noteq> []"
    using assms(5,6) by (cases fs) (auto simp: Frame_Marshal_header frame_header_def)
  obtain j b where j: "Flush grow now (rt_batcher lr) = (Some j, b)" "j_raw j = ?raw" "buf b = []" "b_key b = key"
    using Flush_nonempty [OF ne, of grow now] assms(4,5) by auto
  obtain n where n: "rnd (j_seq j) = Some n" "length n = nonceLen" using assms(3) by blast
  let ?s = "seal_layout (gcm_Seal key) n (enc ?raw)"
  have fl: "flushRaw enc rnd key (j_seq j) ?raw (seqNum b) = Some ([(j_seq j, Inr ?s)], seqNum b)"
    using flushRaw_fits [of enc ?raw rnd key, OF assms(8)] n assms(2) by (simp add: SealEnvelope_key)
  have "open_batch dec key ?s = fs"
    by (rule open_batch_sealed [OF assms(1,2) _ assms(7,8) fl]) (simp add: n)
  then show ?thesis
    by (intro exI [of _ ?s] exI [of _ "job_done j (b\<lparr>seqNum := seqNum b\<rparr>)"])
      (simp add: ship_def j fl List.map_filter_simps job_done_def putBuf_def Let_def)
qed

lemma recvLoop_opened:
  "open_batch dec (rt_key lr) sealed = fs \<Longrightarrow>
     recvLoop dec now [sealed] lr = (case handle_frames now fs (rt_mux lr) of (m, as) \<Rightarrow> (lr\<lparr>rt_mux := m\<rparr>, as))"
  by (simp add: recvLoop_def split_beta)

subsection \<open>The last batch of a side that stops\<close>

lemma Conn_Close_idem [simp]: "Conn_Close (Conn_Close c) = Conn_Close c"
  by (simp add: Conn_Close_def)

lemma handle_close_frame:
  "HandleFrame now m (close_frame i) =
     (case GetConn m i of None \<Rightarrow> (m, NoAction) | Some c \<Rightarrow> (put_conn i (Conn_Close c) m, NoAction))"
  by (simp add: HandleFrame_def close_frame_def frame_type_defs split: option.split)

lemma handle_closes:
  "GetConn (fst (handle_frames now (map close_frame is) m)) j =
     (if j \<in> set is then map_option Conn_Close (GetConn m j) else GetConn m j)
   \<and> snd (handle_frames now (map close_frame is) m) = replicate (length is) NoAction"
proof (induction "is" arbitrary: m)
  case (Cons i "is")
  show ?case
    using Cons.IH [of "fst (HandleFrame now m (close_frame i))"]
    by (auto simp: handle_close_frame split_beta Let_def option.map_comp comp_def
        GetConn_def put_conn_def update_conv' split: option.splits)
qed simp

lemma HandleFrame_dom: "GetConn (fst (HandleFrame now m f)) j = None \<longleftrightarrow> GetConn m j = None"
  by (auto simp: HandleFrame_def GetConn_def put_conn_def update_conv' split: option.splits sum.splits prod.splits)

lemma handle_frames_dom: "GetConn (fst (handle_frames now fs m)) j = None \<longleftrightarrow> GetConn m j = None"
  by (induction fs arbitrary: m) (auto simp: split_beta Let_def HandleFrame_dom)

lemma stop_links_at:
  assumes "distinct ks" "k \<in> set ks" "links k = Some lr"
  shows "\<exists>pre post. fst (stop_links enc rnd grow u now ks links) = pre @ fst (stop_link enc rnd grow u now k lr) @ post"
  using assms
proof (induction ks arbitrary: links)
  case (Cons k' ks)
  show ?case
  proof (cases "k' = k")
    case True
    then show ?thesis using Cons.prems by (auto simp: split_beta Let_def intro: exI [of _ "[]"])
  next
    case False
    have rest: "\<exists>pre post. fst (stop_links enc rnd grow u now ks links') = pre @ fst (stop_link enc rnd grow u now k lr) @ post"
      if "links' k = Some lr" for links'
      using Cons.IH [of links'] that Cons.prems(1,2) False by simp
    show ?thesis
    proof (cases "links k'")
      case None
      then show ?thesis using rest Cons.prems(3) by simp
    next
      case (Some lr0)
      let ?r = "stop_link enc rnd grow u now k' lr0"
      obtain pre post where "fst (stop_links enc rnd grow u now ks (links(k' \<mapsto> snd ?r)))
          = pre @ fst (stop_link enc rnd grow u now k lr) @ post"
        using rest [of "links(k' \<mapsto> snd ?r)"] Cons.prems(3) False by auto
      then show ?thesis using Some
        by (intro exI [of _ "fst ?r @ pre"] exI [of _ post]) (simp add: split_beta Let_def)
    qed
  qed
qed simp

lemma stop_link_batch:
  assumes "\<forall>x. dec (enc x) = Some x" "length key = keyLen" "\<forall>q. \<exists>n. rnd q = Some n \<and> length n = nonceLen"
    and "keyed key lr" "buf (rt_batcher lr) = concat (map Frame_Marshal fs)" "\<forall>f \<in> set fs. length (Payload f) < 2 ^ 24"
    and "admit_ok (rt_batcher lr) (13 * length (conns (rt_mux lr)))"
    and "length (enc (concat (map Frame_Marshal (fs @ map (close_frame \<circ> fst) (conns (rt_mux lr)))))) \<le> MaxCompressedSize"
  shows "\<exists>es. fst (stop_link enc rnd grow u now k lr) = [FinalBatch k es, PollerStopped k, MuxStopped k]
    \<and> concat (map (open_batch dec key) es) = fs @ map (close_frame \<circ> fst) (conns (rt_mux lr))"
proof -
  let ?cs = "map (close_frame \<circ> fst) (conns (rt_mux lr))"
  let ?b = "CloseAllNotify (Add_poll u now) (rt_mux lr) (rt_batcher lr)"
  let ?lr = "lr\<lparr>rt_batcher := ?b\<rparr>"
  have b: "buf ?b = concat (map Frame_Marshal (fs @ ?cs))" "b_key ?b = key"
    using admitted.closes_queued [of "rt_batcher lr" "map fst (conns (rt_mux lr))" u now] assms(4,5,7)
    by (simp_all add: CloseAllNotify_def comp_def)
  show ?thesis
  proof (cases "fs @ ?cs = []")
    case True
    then have "ship enc rnd grow now ?lr = ([], ?lr)" using b(1) by (simp add: ship_def Flush_def flush_take_def)
    then show ?thesis using True by (simp add: stop_link_def Batcher_Stop_def)
  next
    case False
    have lrb: "b_key (rt_batcher ?lr) = key" "buf (rt_batcher ?lr) = concat (map Frame_Marshal (fs @ ?cs))"
      using b by simp_all
    have "\<forall>f \<in> set (fs @ ?cs). length (Payload f) < 2 ^ 24" using assms(6) by (auto simp: close_frame_def)
    then obtain sealed b' where "ship enc rnd grow now ?lr = ([sealed], ?lr\<lparr>rt_batcher := b'\<rparr>)"
        "open_batch dec key sealed = fs @ ?cs"
      using ship_opens [where dec = dec and enc = enc and rnd = rnd, OF assms(1-3) lrb False _ assms(8)] by blast
    then show ?thesis by (simp add: stop_link_def Batcher_Stop_def)
  qed
qed

text \<open>
  C22. A client that stops takes its peer along: for every link, the batch \<^verbatim>\<open>Stop\<close> sends before it ends
  the poller carries everything that was still queued and a CLOSE for every open connection. The
  peer processes the queued frames as it would have, and afterwards every connection that was open
  on the stopping side is closed on the peer. Assumed are the shared key, the zstd law, and that the
  batch fits the byte budget and the size limit.
\<close>

theorem stop_closes_peer:
  assumes "\<forall>x. dec (enc x) = Some x" "length key = keyLen" "\<forall>q. \<exists>n. rnd q = Some n \<and> length n = nonceLen"
    and "c_links c k = Some lr" "k \<in> set order" "distinct order"
    and "keyed key lr" "rt_key peer = key"
    and "buf (rt_batcher lr) = concat (map Frame_Marshal fs)" "\<forall>f \<in> set fs. length (Payload f) < 2 ^ 24"
    and "admit_ok (rt_batcher lr) (13 * length (conns (rt_mux lr)))"
    and "length (enc (concat (map Frame_Marshal (fs @ map (close_frame \<circ> fst) (conns (rt_mux lr)))))) \<le> MaxCompressedSize"
  shows "\<exists>pre es post peer' as n.
    fst (Client_Stop enc rnd grow u now warm order c) = pre @ [FinalBatch k es, PollerStopped k, MuxStopped k] @ post
    \<and> recvLoop dec t es peer = (peer', as) \<and> as = snd (handle_frames t fs (rt_mux peer)) @ replicate n NoAction
    \<and> (\<forall>i. GetConn (rt_mux lr) i \<noteq> None \<longrightarrow> GetConn (rt_mux peer) i \<noteq> None \<longrightarrow>
         (\<exists>tc. GetConn (rt_mux peer') i = Some tc \<and> IsClosed tc))"
proof -
  let ?is = "map fst (conns (rt_mux lr))"
  obtain es where es: "fst (stop_link enc rnd grow u now k lr) = [FinalBatch k es, PollerStopped k, MuxStopped k]"
      "concat (map (open_batch dec key) es) = fs @ map close_frame ?is"
    using stop_link_batch [where dec = dec and enc = enc and rnd = rnd and key = key and fs = fs and lr = lr
        and grow = grow and u = u and now = now and k = k] assms by auto
  obtain pre post where p: "fst (stop_links enc rnd grow u now order (c_links c)) =
      pre @ [FinalBatch k es, PollerStopped k, MuxStopped k] @ post"
    using stop_links_at [where links = "c_links c", OF assms(6,5,4), of enc rnd grow u now] es(1) by auto
  let ?m = "fst (handle_frames t fs (rt_mux peer))" and ?h = "handle_frames t (fs @ map close_frame ?is) (rt_mux peer)"
  have h: "fst ?h = fst (handle_frames t (map close_frame ?is) ?m)"
      "snd ?h = snd (handle_frames t fs (rt_mux peer)) @ replicate (length ?is) NoAction"
    using handle_closes [of t ?is ?m] by (simp_all add: handle_frames_append split_beta Let_def)
  have r: "recvLoop dec t es peer = (peer\<lparr>rt_mux := fst ?h\<rparr>, snd ?h)"
    using es(2) assms(8) by (simp add: recvLoop_def split_beta)
  have "\<exists>tc. GetConn (fst ?h) i = Some tc \<and> IsClosed tc"
    if g: "GetConn (rt_mux lr) i \<noteq> None" "GetConn (rt_mux peer) i \<noteq> None" for i
  proof -
    have "i \<in> set ?is" using g(1) by (force simp: GetConn_def dest!: map_of_SomeD)
    moreover obtain c where "GetConn ?m i = Some c" using g(2) handle_frames_dom [of t fs "rt_mux peer" i] by auto
    ultimately have "GetConn (fst ?h) i = Some (Conn_Close c)"
      using handle_closes [of t ?is ?m i] unfolding h(1) by simp
    then show ?thesis by (auto simp: IsClosed_def Conn_Close_def)
  qed
  then show ?thesis using p r h(2)
    by (intro exI [of _ "(if warm then [WarmupCancelled] else []) @ pre"] exI [of _ es] exI [of _ post]
        exI [of _ "peer\<lparr>rt_mux := fst ?h\<rparr>"] exI [of _ "snd ?h"] exI [of _ "length ?is"])
      (simp add: Client_Stop_def split_beta Let_def)
qed

subsection \<open>A request and its answer\<close>

text \<open>The payload the client makes of a request; both print as the same target.\<close>

definition request_payload :: "connect_request \<Rightarrow> connect_payload" where
  "request_payload req = \<lparr>AddrType = R_AddrType req, Addr = R_Addr req, Port = R_Port req\<rparr>"

lemma request_payload_String: "ConnectPayload_String (request_payload req) = ConnectRequest_String req"
  by (simp add: ConnectPayload_String_def ConnectRequest_String_def request_payload_def Let_def)

lemma connect_frame_payload: "connect_frame i req = \<lparr>FType = TypeConnect, ConnID = i, SeqNum = 0,
    Payload = ConnectPayload_Marshal (request_payload req)\<rparr>"
  by (simp add: connect_frame_def request_payload_def)

lemma wf_request_payload: "wf_request req \<Longrightarrow> wf_connect (request_payload req)"
  by (auto simp: wf_request_def wf_connect_def request_payload_def)

lemma ConnectRequest_String_wf: "wf_request req \<Longrightarrow> \<exists>target. ConnectRequest_String req = Some target"
  by (auto simp: wf_request_def ConnectRequest_String_def Let_def)

lemma connect_frame_size:
  assumes "wf_request req"
  shows "length (Payload (connect_frame i req)) \<le> 259" "length (Frame_Marshal (connect_frame i req)) \<le> 300"
proof -
  show 1: "length (Payload (connect_frame i req)) \<le> 259"
    using assms by (auto simp: connect_frame_def wf_request_def ConnectPayload_Marshal_def)
  then show "length (Frame_Marshal (connect_frame i req)) \<le> 300" by (simp add: HeaderSize_def)
qed

text \<open>A CONNECT on the server and its answer on the client, as single frames.\<close>

lemma handle_connect_frame:
  assumes "wf_request req" "has_onConnect m"
  shows "handle_frames now [connect_frame i req] m = (m, [OnConnect i (request_payload req)])"
  using assms Parse_Marshal_append [OF wf_request_payload [OF assms(1)], of "[]"]
  by (simp add: HandleFrame_def connect_frame_payload frame_type_defs)

definition answer_frame :: "bool \<Rightarrow> conn_id \<Rightarrow> frame" where
  "answer_frame ok i = \<lparr>FType = (if ok then TypeConnectACK else TypeReset), ConnID = i, SeqNum = 0, Payload = []\<rparr>"

lemma handle_answer_frame:
  assumes "has_onConnectACK m" "GetConn m i = Some tc"
  shows "handle_frames now [answer_frame ok i] m =
    (if ok then (m, [OnConnectACK i]) else (put_conn i (Conn_Close tc) m, [NoAction]))"
  using assms by (simp add: HandleFrame_def answer_frame_def frame_type_defs)

text \<open>A link with one frame queued and otherwise, as far as the channel sees it, the same as before.\<close>

definition loaded :: "frame \<Rightarrow> link_runtime \<Rightarrow> link_runtime \<Rightarrow> bool" where
  "loaded f lr lr1 \<longleftrightarrow> buf (rt_batcher lr1) = Frame_Marshal f \<and> b_key (rt_batcher lr1) = b_key (rt_batcher lr) \<and>
     seqNum (rt_batcher lr1) = seqNum (rt_batcher lr) \<and> inFlightBytes (rt_batcher lr1) = inFlightBytes (rt_batcher lr) \<and>
     rt_key lr1 = rt_key lr \<and> rt_sender lr1 = rt_sender lr \<and> rt_poller lr1 = rt_poller lr"

lemma try_start_queued:
  assumes "c_links c k = Some lr" "connectSem c k < maxInFlightConnectsPerLink" "GetConn (rt_mux lr) i = None"
    and "buf (rt_batcher lr) = []" "admit_ok (rt_batcher lr) 300" "wf_request req"
  shows "\<exists>lr1. try_start (Add_poll u now) now (i # draws) req k c =
      Some (i, c\<lparr>c_links := (c_links c)(k \<mapsto> lr1), pending := insert i (pending c),
                 connectSem := (connectSem c)(k := connectSem c k + 1)\<rparr>)
    \<and> loaded (connect_frame i req) lr lr1 \<and> rt_mux lr1 = put_conn i (newConn now i) (rt_mux lr)"
proof -
  let ?b = "snd (Add_poll u now (rt_batcher lr) (connect_frame i req) True)"
  let ?lr = "lr\<lparr>rt_link := AcquireStream (rt_link lr), rt_mux := put_conn i (newConn now i) (rt_mux lr), rt_batcher := ?b\<rparr>"
  have "fst (Add_poll u now (rt_batcher lr) (connect_frame i req) True)"
    using connect_frame_size(2) [OF assms(6), of i] assms(5) by (intro admitted.admits) (simp add: admit_ok_def)
  then have "buf ?b = Frame_Marshal (connect_frame i req)" using admitted.queued assms(4) by simp
  moreover have "ID (newConn now i) = i" by (simp add: newConn_def)
  ultimately show ?thesis using assms(1-3)
    by (intro exI [of _ ?lr]) (simp add: try_start_def GetConn_def Let_def split_beta loaded_def)
qed

lemma handleConnect_queued:
  assumes "sv_links sv k = Some lr" "ConnectPayload_String cp = Some target"
    and "resolveTarget (env_lookup env) (env_now env) (env_now' env) (env_rand env) target (dns sv) = (dt, dns')"
    and "buf (rt_batcher lr) = []" "admit_ok (rt_batcher lr) 300"
  shows "\<exists>lr1. handleConnect (Add_poll u now) env k i cp sv =
      (env_dial env dt, sv\<lparr>sv_links := (sv_links sv)(k \<mapsto> lr1), dns := dns'\<rparr>)
    \<and> loaded (answer_frame (env_dial env dt) i) lr lr1
    \<and> GetConn (rt_mux lr1) i = (if env_dial env dt then Some (newConn (env_now env) i) else None)"
proof -
  let ?f = "answer_frame (env_dial env dt) i"
  let ?b = "snd (Add_poll u now (rt_batcher lr) ?f True)"
  let ?m = "put_conn i (newConn (env_now env) i) (rt_mux lr)"
  let ?lr = "lr\<lparr>rt_mux := (if env_dial env dt then ?m else fst (RemoveConn i ?m)), rt_batcher := ?b\<rparr>"
  have "fst (Add_poll u now (rt_batcher lr) ?f True)"
    using assms(5) by (intro admitted.admits) (simp add: admit_ok_def answer_frame_def HeaderSize_def)
  then have "buf ?b = Frame_Marshal ?f" using admitted.queued assms(4) by simp
  then show ?thesis using assms(1-3)
    by (intro exI [of _ ?lr])
      (auto simp: loaded_def handleConnect_def RegisterConn_def Let_def SendReset_def answer_frame_def
        GetConn_def put_conn_def RemoveConn_def update_conv' delete_conv' split: if_splits)
qed

text \<open>The three legs of the exchange: the request goes out, the server answers, the client hears it.\<close>

lemma ship_small_frame:
  assumes "\<forall>x. dec (enc x) = Some x" "\<forall>x. length x \<le> 300 \<longrightarrow> length (enc x) \<le> MaxCompressedSize"
    and "length key = keyLen" "\<forall>q. \<exists>n. rnd q = Some n \<and> length n = nonceLen"
    and "b_key (rt_batcher lr) = key" "buf (rt_batcher lr) = Frame_Marshal f" "length (Frame_Marshal f) \<le> 300"
  shows "\<exists>s b. ship enc rnd grow now lr = ([s], lr\<lparr>rt_batcher := b\<rparr>) \<and> open_batch dec key s = [f]"
proof -
  have "length (Payload f) < 2 ^ 24" using assms(7) by simp
  then show ?thesis
    using ship_opens [where fs = "[f]" and lr = lr and dec = dec and enc = enc and rnd = rnd and key = key
        and grow = grow and now = now] assms by (simp del: length_Frame_Marshal) blast
qed

lemma client_asks:
  assumes "\<forall>x. dec (enc x) = Some x" "\<forall>x. length x \<le> 300 \<longrightarrow> length (enc x) \<le> MaxCompressedSize"
    and "length key = keyLen" "\<forall>q. \<exists>n. rnd q = Some n \<and> length n = nonceLen" "keyed key lr"
    and cl: "c_links c k = Some lr" "connectSem c k < maxInFlightConnectsPerLink" "has_onConnectACK (rt_mux lr)"
      "GetConn (rt_mux lr) i = None" "buf (rt_batcher lr) = []" "admit_ok (rt_batcher lr) 300" "wf_request req"
  shows "\<exists>c1 s c2 lr2. try_start (Add_poll u now) now (i # draws) req k c = Some (i, c1)
    \<and> ship_client enc rnd grow now k c1 = ([s], c2) \<and> open_batch dec key s = [connect_frame i req]
    \<and> i \<in> pending c2 \<and> c_links c2 k = Some lr2 \<and> rt_key lr2 = key \<and> has_onConnectACK (rt_mux lr2)
    \<and> GetConn (rt_mux lr2) i = Some (newConn now i)"
proof -
  obtain lr1 where st: "try_start (Add_poll u now) now (i # draws) req k c =
      Some (i, c\<lparr>c_links := (c_links c)(k \<mapsto> lr1), pending := insert i (pending c),
                 connectSem := (connectSem c)(k := connectSem c k + 1)\<rparr>)"
    and lr1: "buf (rt_batcher lr1) = Frame_Marshal (connect_frame i req)" "b_key (rt_batcher lr1) = key"
      "rt_key lr1 = key" "rt_mux lr1 = put_conn i (newConn now i) (rt_mux lr)"
    using try_start_queued [OF cl(1,2,4-7), of u now draws] assms(5) by (auto simp: loaded_def)
  obtain s b where "ship enc rnd grow now lr1 = ([s], lr1\<lparr>rt_batcher := b\<rparr>)" "open_batch dec key s = [connect_frame i req]"
    using ship_small_frame [where dec = dec and enc = enc and rnd = rnd, OF assms(1-4) lr1(2,1) connect_frame_size(2) [OF cl(7)]]
    by blast
  then show ?thesis using st lr1 cl(3)
    by (simp add: ship_client_def put_conn_def GetConn_def update_conv')
qed

lemma server_answers:
  assumes "\<forall>x. dec (enc x) = Some x" "\<forall>x. length x \<le> 300 \<longrightarrow> length (enc x) \<le> MaxCompressedSize"
    and "length key = keyLen" "\<forall>q. \<exists>n. rnd q = Some n \<and> length n = nonceLen" "keyed key lr"
    and sv: "sv_links sv k = Some lr" "has_onConnect (rt_mux lr)" "buf (rt_batcher lr) = []" "admit_ok (rt_batcher lr) 300"
    and "wf_request req" "open_batch dec key s = [connect_frame i req]" "ConnectRequest_String req = Some target"
    and dt: "resolveTarget (env_lookup env) (env_now env) (env_now' env) (env_rand env) target (dns sv) = (dt, dns')"
  shows "\<exists>s' sv' lr'. ship_server enc rnd grow now k (server_recv dec (Add_poll u now) env k [s] sv) = ([s'], sv')
    \<and> open_batch dec key s' = [answer_frame (env_dial env dt) i] \<and> sv_links sv' k = Some lr'
    \<and> GetConn (rt_mux lr') i = (if env_dial env dt then Some (newConn (env_now env) i) else None)"
proof -
  let ?a = "answer_frame (env_dial env dt) i" and ?cp = "request_payload req"
  have "recvLoop dec (env_now env) [s] lr = (lr, [OnConnect i ?cp])"
    using recvLoop_opened [of dec lr s _ "env_now env"] assms(5,11) handle_connect_frame [OF assms(10) sv(2)] by simp
  then have recv: "server_recv dec (Add_poll u now) env k [s] sv = snd (handleConnect (Add_poll u now) env k i ?cp sv)"
    using sv(1) by (simp add: server_recv_def map_upd_triv)
  obtain lr1 where h: "snd (handleConnect (Add_poll u now) env k i ?cp sv) = sv\<lparr>sv_links := (sv_links sv)(k \<mapsto> lr1), dns := dns'\<rparr>"
    and lr1: "buf (rt_batcher lr1) = Frame_Marshal ?a" "b_key (rt_batcher lr1) = key"
      "GetConn (rt_mux lr1) i = (if env_dial env dt then Some (newConn (env_now env) i) else None)"
    using handleConnect_queued [OF sv(1) _ dt sv(3,4), of ?cp u now i] assms(5,12) request_payload_String [of req] by (auto simp: loaded_def)
  have "length (Frame_Marshal ?a) \<le> 300" by (simp add: answer_frame_def HeaderSize_def)
  then obtain s' b where "ship enc rnd grow now lr1 = ([s'], lr1\<lparr>rt_batcher := b\<rparr>)" "open_batch dec key s' = [?a]"
    using ship_small_frame [where dec = dec and enc = enc and rnd = rnd, OF assms(1-4) lr1(2,1)] by blast
  then show ?thesis using recv h lr1(3)
    by (simp add: ship_server_def)
qed

lemma client_hears:
  assumes "open_batch dec key s = [answer_frame ok i]" "c_links c k = Some lr" "rt_key lr = key"
    and "has_onConnectACK (rt_mux lr)" "GetConn (rt_mux lr) i = Some (newConn t i)" "i \<in> pending c"
  shows "\<exists>c' lr' tc. client_recv dec now k [s] c = (if ok then [i] else [], c') \<and> (i \<in> pending c' \<longleftrightarrow> \<not> ok)
    \<and> c_links c' k = Some lr' \<and> GetConn (rt_mux lr') i = Some tc \<and> (IsClosed tc \<longleftrightarrow> \<not> ok)"
  using recvLoop_opened [of dec lr s "[answer_frame ok i]" now] assms handle_answer_frame [OF assms(4,5), of now ok]
  by (cases ok) (auto simp: client_recv_def onConnectACK_def newConn_def IsClosed_def Conn_Close_def
      GetConn_def put_conn_def update_conv')

text \<open>
  C21. A CONNECT there and back: the target a SOCKS client asks for is the very string the server
  resolves and dials. When the dial succeeds, the attempt that waits for this connection is woken,
  and both sides hold the connection open; when it fails, nobody is woken, the client finds the
  connection closed, which ends its attempt as refused, and the server has forgotten it. The frames
  travel in sealed batches under the shared key; the links are idle and within the byte budget.
\<close>

theorem connect_exchange_outcome:
  assumes zstd: "\<forall>x. dec (enc x) = Some x" "\<forall>x. length x \<le> 300 \<longrightarrow> length (enc x) \<le> MaxCompressedSize"
    and key: "length key = keyLen" "\<forall>q. \<exists>n. rnd q = Some n \<and> length n = nonceLen" "keyed key clr" "keyed key slr"
    and cl: "c_links c k = Some clr" "connectSem c k < maxInFlightConnectsPerLink" "has_onConnectACK (rt_mux clr)"
      "GetConn (rt_mux clr) i = None" "buf (rt_batcher clr) = []" "admit_ok (rt_batcher clr) 300"
    and sv: "sv_links sv k' = Some slr" "has_onConnect (rt_mux slr)" "buf (rt_batcher slr) = []"
      "admit_ok (rt_batcher slr) 300"
    and req: "handleConn rej wrote inp = (out, SHandled req rest)"
  shows "\<exists>target dt dns' c' sv' clr' slr' tc.
    ConnectRequest_String req = Some target
    \<and> resolveTarget (env_lookup env) (env_now env) (env_now' env) (env_rand env) target (dns sv) = (dt, dns')
    \<and> connect_exchange enc dec rnd grow u env now (i # draws) req k k' c sv =
        Some (i, if env_dial env dt then [i] else [], c', sv')
    \<and> (i \<in> pending c' \<longleftrightarrow> \<not> env_dial env dt)
    \<and> c_links c' k = Some clr' \<and> GetConn (rt_mux clr') i = Some tc \<and> (IsClosed tc \<longleftrightarrow> \<not> env_dial env dt)
    \<and> sv_links sv' k' = Some slr'
    \<and> GetConn (rt_mux slr') i = (if env_dial env dt then Some (newConn (env_now env) i) else None)"
proof -
  have wf: "wf_request req" using req by (simp add: handleConn_iff)
  obtain target where target: "ConnectRequest_String req = Some target" using ConnectRequest_String_wf [OF wf] by blast
  obtain dt dns' where dt: "resolveTarget (env_lookup env) (env_now env) (env_now' env) (env_rand env) target (dns sv) = (dt, dns')"
    by fastforce
  obtain c1 s c2 lr2 where out: "try_start (Add_poll u now) now (i # draws) req k c = Some (i, c1)"
      "ship_client enc rnd grow now k c1 = ([s], c2)" "open_batch dec key s = [connect_frame i req]"
      "i \<in> pending c2" "c_links c2 k = Some lr2" "rt_key lr2 = key" "has_onConnectACK (rt_mux lr2)"
      "GetConn (rt_mux lr2) i = Some (newConn now i)"
    using client_asks [where dec = dec and enc = enc and rnd = rnd, OF zstd key(1-3) cl wf] by blast
  obtain s' sv' slr' where ans: "ship_server enc rnd grow (env_now env) k' (server_recv dec (Add_poll u (env_now env)) env k' [s] sv) = ([s'], sv')"
      "open_batch dec key s' = [answer_frame (env_dial env dt) i]" "sv_links sv' k' = Some slr'"
      "GetConn (rt_mux slr') i = (if env_dial env dt then Some (newConn (env_now env) i) else None)"
    using server_answers [where dec = dec and enc = enc and rnd = rnd, OF zstd key(1,2,4) sv wf out(3) target dt] by blast
  obtain c' clr' tc where hear: "client_recv dec now k [s'] c2 = (if env_dial env dt then [i] else [], c')"
      "i \<in> pending c' \<longleftrightarrow> \<not> env_dial env dt" "c_links c' k = Some clr'" "GetConn (rt_mux clr') i = Some tc"
      "IsClosed tc \<longleftrightarrow> \<not> env_dial env dt"
    using client_hears [OF ans(2) out(5-8) out(4)] by blast
  have "connect_exchange enc dec rnd grow u env now (i # draws) req k k' c sv =
      Some (i, if env_dial env dt then [i] else [], c', sv')"
    by (simp add: connect_exchange_def out(1,2) ans(1) hear(1))
  then show ?thesis using target dt hear(2-5) ans(3,4) by blast
qed

definition spec1 :: link_spec where
  "spec1 = \<lparr>SpecID = 3, SpecBotID = 5, SpecPeerBotID = 6, SpecChannelID = -100, Key = replicate 32 9,
     SpecLevel = SpeedFastest, QuietHours = None\<rparr>"

lemma spec1_links:
  "c_links (NewClient [spec1]) 3 = Some (newClientLink spec1)"
  "sv_links (NewServer [spec1]) 3 = Some (newServerLink spec1)"
  by (simp_all add: NewClient_def NewServer_def spec1_def Let_def)

lemma spec1_runtime:
  "keyed (replicate 32 9) (newClientLink spec1)" "keyed (replicate 32 9) (newServerLink spec1)"
  "buf (rt_batcher (newClientLink spec1)) = []" "buf (rt_batcher (newServerLink spec1)) = []"
  "admit_ok (rt_batcher (newClientLink spec1)) 300" "admit_ok (rt_batcher (newServerLink spec1)) 300"
  "has_onConnectACK (rt_mux (newClientLink spec1))" "has_onConnect (rt_mux (newServerLink spec1))"
  "conns (rt_mux (newClientLink spec1)) = []" "rt_key (newServerLink spec1) = replicate 32 9"
  by (simp_all add: newClientLink_def newServerLink_def newLinkRuntime_def spec1_def NewBatcher_def newBatcher_def
      admit_ok_def maxQueuedAndInFlightBytes_def MaxBatchSize_def NewMux_def Let_def)

theorem connect_exchange_outcome_witness:
  "let req = \<lparr>R_AddrType = 1, R_Addr = [1, 2, 3, 4], R_Port = 80\<rparr>;
       env = \<lparr>env_lookup = (\<lambda>_. None), env_now = 4, env_now' = 5, env_rand = 0, env_dial = (\<lambda>_. True)\<rparr>
   in handleConn False True (client_bytes [0] 0 req) = ([5, 0], SHandled req [])
    \<and> (\<exists>c' sv'. connect_exchange id Some (\<lambda>_. Some (replicate 12 1)) (\<lambda>c n. n) 0 env 1 [7] req 3 3
         (NewClient [spec1]) (NewServer [spec1]) = Some (7, [7], c', sv') \<and> 7 \<notin> pending c')"
proof -
  let ?req = "\<lparr>R_AddrType = 1, R_Addr = [1, 2, 3, 4], R_Port = 80\<rparr>"
  let ?env = "\<lparr>env_lookup = (\<lambda>_. None), env_now = 4, env_now' = 5, env_rand = 0, env_dial = (\<lambda>_. True)\<rparr>"
  have h: "handleConn False True (client_bytes [0] 0 ?req) = ([5, 0], SHandled ?req [])"
    unfolding handleConn_iff
    by (auto simp: wf_request_def immediate_reject_def isMappedDNSOverTLSProbe_def isIPv6LiteralTarget_def
        isMapDNSFakeIP_def isBenchmarkIP_def intro: exI [of _ "[0]"])
  have e: "\<exists>c' sv'. connect_exchange id Some (\<lambda>_. Some (replicate 12 1)) (\<lambda>c n. n) 0 ?env 1 [7] ?req 3 3
         (NewClient [spec1]) (NewServer [spec1]) = Some (7, [7], c', sv') \<and> 7 \<notin> pending c'"
    using connect_exchange_outcome [where dec = Some and enc = id and rnd = "\<lambda>_. Some (replicate 12 1)"
        and key = "replicate 32 9" and i = 7 and env = ?env and now = 1 and u = 0 and grow = "\<lambda>c n. n" and draws = "[]",
        OF _ _ _ _ spec1_runtime(1,2) spec1_links(1) _ spec1_runtime(7) _ spec1_runtime(3,5) spec1_links(2)
          spec1_runtime(8,4,6) h]
    by (simp add: keyLen_def nonceLen_def MaxCompressedSize_def GetConn_def spec1_runtime(9)
        NewClient_def maxInFlightConnectsPerLink_def) blast
  show ?thesis using h e by (simp add: Let_def)
qed

theorem stop_closes_peer_witness:
  "let lr = (newClientLink spec1)\<lparr>rt_mux := put_conn 7 (newConn 0 7) NewMux\<rparr>;
       peer = (newServerLink spec1)\<lparr>rt_mux := put_conn 7 (newConn 0 7) NewMux\<rparr>
   in \<exists>es peer' tc. fst (Client_Stop id (\<lambda>_. Some (replicate 12 1)) (\<lambda>c n. n) 0 1 True [3]
          ((NewClient [spec1])\<lparr>c_links := [3 \<mapsto> lr]\<rparr>))
        = [WarmupCancelled, FinalBatch 3 es, PollerStopped 3, MuxStopped 3]
      \<and> fst (recvLoop Some 2 es peer) = peer' \<and> GetConn (rt_mux peer') 7 = Some tc \<and> IsClosed tc"
proof -
  let ?lr = "(newClientLink spec1)\<lparr>rt_mux := put_conn 7 (newConn 0 7) NewMux\<rparr>"
  let ?peer = "(newServerLink spec1)\<lparr>rt_mux := put_conn 7 (newConn 0 7) NewMux\<rparr>"
  let ?c = "(NewClient [spec1])\<lparr>c_links := [3 \<mapsto> ?lr]\<rparr>"
  let ?stop = "Client_Stop id (\<lambda>_. Some (replicate 12 1)) (\<lambda>c n. n) 0 1 True [3] ?c"
  have g: "conns (put_conn 7 (newConn 0 7) NewMux) = [(7, newConn 0 7)]" by (simp add: put_conn_def NewMux_def)
  have ex: "\<exists>pre es post peer' as n.
    fst ?stop = pre @ [FinalBatch 3 es, PollerStopped 3, MuxStopped 3] @ post
    \<and> recvLoop Some 2 es ?peer = (peer', as) \<and> as = snd (handle_frames 2 [] (rt_mux ?peer)) @ replicate n NoAction
    \<and> (\<forall>i. GetConn (rt_mux ?lr) i \<noteq> None \<longrightarrow> GetConn (rt_mux ?peer) i \<noteq> None \<longrightarrow>
         (\<exists>tc. GetConn (rt_mux peer') i = Some tc \<and> IsClosed tc))"
    by (rule stop_closes_peer [where key = "replicate 32 9" and lr = ?lr])
      (use spec1_runtime in \<open>simp_all add: g keyLen_def nonceLen_def admit_ok_def close_frame_def HeaderSize_def MaxCompressedSize_def\<close>)
  then obtain pre es post peer' as where es: "fst ?stop = pre @ [FinalBatch 3 es, PollerStopped 3, MuxStopped 3] @ post"
      "recvLoop Some 2 es ?peer = (peer', as)" "\<exists>tc. GetConn (rt_mux peer') 7 = Some tc \<and> IsClosed tc"
    by (auto simp: g GetConn_def)
  have stop: "\<exists>es. fst ?stop = [WarmupCancelled, FinalBatch 3 es, PollerStopped 3, MuxStopped 3]"
    by (simp add: Client_Stop_def stop_link_def split_beta Let_def)
  moreover have "FinalBatch 3 es \<in> set (fst ?stop)" by (simp add: es(1))
  ultimately have "fst ?stop = [WarmupCancelled, FinalBatch 3 es, PollerStopped 3, MuxStopped 3]" by auto
  then show ?thesis using es(2,3) unfolding Let_def by (metis fst_conv)
qed

subsection \<open>Run\<close>

text \<open>
  \<^verbatim>\<open>Run\<close> of either side: the goroutines it starts, and for the client what \<^verbatim>\<open>ListenAndServe\<close> makes of the
  listen address when the addresses in \<open>bound\<close> are taken. \<^verbatim>\<open>Server.Run\<close> then blocks for ever, the
  client's accept loop ends only by an error of \<^verbatim>\<open>net.Listen\<close>.
\<close>

datatype task = Warmup | RunPoller int | RecvLoop int

definition link_tasks :: "int list \<Rightarrow> task list" where
  "link_tasks order = concat (map (\<lambda>k. [RunPoller k, RecvLoop k]) order)"

definition ListenAndServe :: "string set \<Rightarrow> string \<Rightarrow> bool \<times> string set" where
  "ListenAndServe bound addr = (if addr \<in> bound then (False, bound) else (True, insert addr bound))"

definition Client_Run :: "string set \<Rightarrow> string \<Rightarrow> client \<Rightarrow> task list \<times> bool \<times> string set" where
  "Client_Run bound addr c = (Warmup # link_tasks (c_order c), ListenAndServe bound addr)"

definition Server_Run :: "int list \<Rightarrow> task list" where
  "Server_Run order = Warmup # link_tasks order"

text \<open>Every link gets exactly one polling and one receiving goroutine; a failed bind stops none of them.\<close>

lemma run_tasks:
  assumes "distinct order"
  shows "distinct (Server_Run order)" "RunPoller k \<in> set (Server_Run order) \<longleftrightarrow> k \<in> set order"
    and "RecvLoop k \<in> set (Server_Run order) \<longleftrightarrow> k \<in> set order"
proof -
  have "distinct (link_tasks order)" using assms by (induction order) (auto simp: link_tasks_def)
  then show "distinct (Server_Run order)" by (auto simp: Server_Run_def link_tasks_def)
qed (auto simp: Server_Run_def link_tasks_def)

lemma rebind_fails:
  "ListenAndServe bound addr = (True, bound') \<Longrightarrow> ListenAndServe bound' addr = (False, bound')"
  by (auto simp: ListenAndServe_def split: if_splits)

end
