(* ===== verification/Tunnel_System.thy ===== *)
theory Tunnel_System
  imports Tunnel_Session "HOL-Library.Sublist"
begin

text \<open>
  Both ends of one link as a system of steps, with the channel between them: connections are opened
  and removed, written to, flushed and collected on either side, and a batch that was posted may
  arrive at the other side any number of times, in any order, late or never, mixed with posts that do
  not open. Shown is that at every moment and on every connection, in both directions, what a side
  hands to its application is a prefix of what the other side's application wrote.
\<close>

subsection \<open>State\<close>

text \<open>
  Side \<^term>\<open>True\<close> is the server, \<^term>\<open>False\<close> the client. \<open>opened\<close>, \<open>written\<close> and \<open>pushed\<close> record the
  history: the identifiers a side has used, the payloads its application wrote and the payloads that
  \<^verbatim>\<open>deliverOrdered\<close> handed over.
\<close>

record tunnel_sys =
  side :: "bool \<Rightarrow> link_runtime"
  posted :: "bool \<Rightarrow> bytes set"
  opened :: "bool \<Rightarrow> conn_id set"
  written :: "bool \<Rightarrow> conn_id \<Rightarrow> bytes list"
  pushed :: "bool \<Rightarrow> conn_id \<Rightarrow> bytes list"

definition sys_init :: "link_spec \<Rightarrow> link_spec \<Rightarrow> tunnel_sys" where
  "sys_init cspec sspec =
     \<lparr>side = (\<lambda>p. if p then newServerLink sspec else newClientLink cspec), posted = (\<lambda>_. {}), opened = (\<lambda>_. {}),
      written = (\<lambda>_ _. []), pushed = (\<lambda>_ _. [])\<rparr>"

abbreviation set_mux :: "bool \<Rightarrow> mux \<Rightarrow> tunnel_sys \<Rightarrow> tunnel_sys" where
  "set_mux p m s \<equiv> s\<lparr>side := (side s)(p := (side s p)\<lparr>rt_mux := m\<rparr>)\<rparr>"

text \<open>What a list of actions delivers to a connection.\<close>

fun pushes :: "conn_id \<Rightarrow> mux_action list \<Rightarrow> bytes list" where
  "pushes i [] = []"
| "pushes i (Push j ds # as) = (if j = i then ds @ pushes i as else pushes i as)"
| "pushes i (_ # as) = pushes i as"

subsection \<open>Steps\<close>

text \<open>
  An identifier is opened once per side, and a payload is written to a connection that is still
  registered; the length of a stream stays below the range of sequence numbers, and a batch is
  flushed while it still fits one message (\<open>split_half_decodable\<close> in \<^verbatim>\<open>Batch\<close> says why). A payload that has to
  wait for room in the batcher is written when it is admitted: its connection has no other writer.
\<close>

inductive sys_step :: "(bytes \<Rightarrow> bytes) \<Rightarrow> (bytes \<Rightarrow> bytes option) \<Rightarrow> tunnel_sys \<Rightarrow> tunnel_sys \<Rightarrow> bool"
  for enc dec where
  open_conn: "i \<notin> opened s p \<Longrightarrow> RegisterConn now i (rt_mux (side s p)) = (c, m) \<Longrightarrow>
    sys_step enc dec s ((set_mux p m s)\<lparr>opened := (opened s)(p := insert i (opened s p))\<rparr>)"
| app_write: "GetConn (rt_mux (side s p)) i \<noteq> None \<Longrightarrow> length d < 2 ^ 24 \<Longrightarrow> Suc (length (written s p i)) < 2 ^ 32 \<Longrightarrow>
    SendData (Add_poll u now) (rt_mux (side s p)) (rt_batcher (side s p)) i d = (ok, m, b) \<Longrightarrow>
    sys_step enc dec s (s\<lparr>side := (side s)(p := (side s p)\<lparr>rt_mux := m, rt_batcher := b\<rparr>),
      written := (written s)(p := (written s p)(i := written s p i @ [d]))\<rparr>)"
| control: "FType f \<noteq> TypeData \<Longrightarrow> length (Payload f) < 2 ^ 24 \<Longrightarrow>
    Add_poll u now (rt_batcher (side s p)) f urgent = (ok, b) \<Longrightarrow>
    sys_step enc dec s (s\<lparr>side := (side s)(p := (side s p)\<lparr>rt_batcher := b\<rparr>)\<rparr>)"
| flush: "length (enc (buf (rt_batcher (side s p)))) \<le> MaxCompressedSize \<Longrightarrow>
    \<forall>q n. rnd q = Some n \<longrightarrow> length n = nonceLen \<Longrightarrow> ship enc rnd grow now (side s p) = (es, lr) \<Longrightarrow>
    sys_step enc dec s (s\<lparr>side := (side s)(p := lr), posted := (posted s)(p := posted s p \<union> set es)\<rparr>)"
| arrive: "e \<in> posted s (\<not> p) \<or> open_batch dec (rt_key (side s p)) e = [] \<Longrightarrow>
    recvLoop dec now [e] (side s p) = (lr, as) \<Longrightarrow>
    sys_step enc dec s (s\<lparr>side := (side s)(p := lr), pushed := (pushed s)(p := (\<lambda>i. pushed s p i @ pushes i as))\<rparr>)"
| remove: "RemoveConn i (rt_mux (side s p)) = (m, c) \<Longrightarrow> sys_step enc dec s (set_mux p m s)"
| collect: "gc now (rt_mux (side s p)) = (m, cs) \<Longrightarrow> sys_step enc dec s (set_mux p m s)"

inductive sys_reach :: "(bytes \<Rightarrow> bytes) \<Rightarrow> (bytes \<Rightarrow> bytes option) \<Rightarrow> tunnel_sys \<Rightarrow> tunnel_sys \<Rightarrow> bool"
  for enc dec s0 where
  start: "sys_reach enc dec s0 s0"
| next_step: "sys_reach enc dec s0 s \<Longrightarrow> sys_step enc dec s s' \<Longrightarrow> sys_reach enc dec s0 s'"

subsection \<open>The invariant\<close>

text \<open>A data frame carries the payload of its number.\<close>

definition sound :: "(conn_id \<Rightarrow> bytes list) \<Rightarrow> frame \<Rightarrow> bool" where
  "sound W f \<longleftrightarrow> (FType f = TypeData \<longrightarrow>
     (\<exists>n < length (W (ConnID f)). SeqNum f = of_nat n \<and> Payload f = W (ConnID f) ! n))"

text \<open>The sending half of a side: its buffer, its posts and its counters.\<close>

definition queue_ok :: "(conn_id \<Rightarrow> bytes list) \<Rightarrow> batcher \<Rightarrow> bool" where
  "queue_ok W b \<longleftrightarrow> (\<exists>fs. buf b = concat (map Frame_Marshal fs) \<and> (\<forall>f \<in> set fs. length (Payload f) < 2 ^ 24 \<and> sound W f))"

definition tx_ok :: "(conn_id \<Rightarrow> bytes list) \<Rightarrow> mux \<Rightarrow> bool" where
  "tx_ok W m \<longleftrightarrow> (\<forall>i c. GetConn m i = Some c \<longrightarrow> sendSeq c = of_nat (length (W i)))"

text \<open>The receiving half: every connection is in step with the stream of the peer.\<close>

definition synced :: "bytes list \<Rightarrow> bytes list \<Rightarrow> conn \<Rightarrow> bool" where
  "synced w d c \<longleftrightarrow> d = take (unat (recvExpected c)) w \<and> (\<exists>R. in_sync (\<lambda>n. w ! n) (length w) R c)"

definition rx_ok :: "(conn_id \<Rightarrow> bytes list) \<Rightarrow> (conn_id \<Rightarrow> bytes list) \<Rightarrow> mux \<Rightarrow> bool" where
  "rx_ok W D m \<longleftrightarrow> (\<forall>i. prefix (D i) (W i) \<and> (\<forall>c. GetConn m i = Some c \<longrightarrow> synced (W i) (D i) c))"

definition fresh_ok :: "conn_id set \<Rightarrow> (conn_id \<Rightarrow> bytes list) \<Rightarrow> (conn_id \<Rightarrow> bytes list) \<Rightarrow> mux \<Rightarrow> bool" where
  "fresh_ok os W D m \<longleftrightarrow> (\<forall>i. i \<notin> os \<longrightarrow> GetConn m i = None \<and> W i = [] \<and> D i = [])"

definition side_inv :: "(bytes \<Rightarrow> bytes option) \<Rightarrow> bytes \<Rightarrow> tunnel_sys \<Rightarrow> bool \<Rightarrow> bool" where
  "side_inv dec key s p \<longleftrightarrow>
     keyed key (side s p) \<and> mux_wf (rt_mux (side s p)) \<and>
     queue_ok (written s p) (rt_batcher (side s p)) \<and> tx_ok (written s p) (rt_mux (side s p)) \<and>
     (\<forall>i. length (written s p i) < 2 ^ 32) \<and>
     (\<forall>e \<in> posted s p. \<forall>f \<in> set (open_batch dec key e). sound (written s p) f) \<and>
     fresh_ok (opened s p) (written s p) (pushed s p) (rt_mux (side s p)) \<and>
     rx_ok (written s (\<not> p)) (pushed s p) (rt_mux (side s p))"

definition sys_inv :: "(bytes \<Rightarrow> bytes option) \<Rightarrow> bytes \<Rightarrow> tunnel_sys \<Rightarrow> bool" where
  "sys_inv dec key s \<longleftrightarrow> (\<forall>p. side_inv dec key s p)"

subsection \<open>Streams that grow\<close>

text \<open>Everything known of a stream stays true when its writer appends to it.\<close>

definition extends :: "(conn_id \<Rightarrow> bytes list) \<Rightarrow> (conn_id \<Rightarrow> bytes list) \<Rightarrow> bool" where
  "extends W W' \<longleftrightarrow> (\<forall>i. prefix (W i) (W' i))"

lemma extends_append [simp]: "extends W (W(i := W i @ [d]))"
  by (simp add: extends_def)

lemma sound_extends: "sound W f \<Longrightarrow> extends W W' \<Longrightarrow> sound W' f"
  unfolding sound_def extends_def by (metis nth_append order_less_le_trans prefixE prefix_length_le)

lemma in_sync_extends:
  assumes "in_sync (\<lambda>n. w ! n) (length w) R c" "prefix w w'" "length w' < 2 ^ 32"
  shows "in_sync (\<lambda>n. w' ! n) (length w') R c"
proof -
  obtain z where z: "w' = w @ z" using assms(2) by (auto simp: prefix_def)
  have "w' ! n = w ! n" if "n \<in> R" for n
    using that assms(1) z by (auto simp: in_sync_def nth_append)
  then show ?thesis using assms(1,3) z unfolding in_sync_def holds_def by auto
qed

lemma in_sync_expected_le: "in_sync s N R c \<Longrightarrow> unat (recvExpected c) \<le> N"
  unfolding in_sync_def by (metis lessThan_iff lessThan_subset_iff subset_trans)

lemma synced_extends:
  assumes "synced w d c" "prefix w w'" "length w' < 2 ^ 32"
  shows "synced w' d c"
  using assms in_sync_extends [OF _ assms(2,3)] by (fastforce simp: synced_def prefix_def dest: in_sync_expected_le)

lemma rx_ok_extends:
  assumes "rx_ok W D m" "extends W W'" "\<And>i. length (W' i) < 2 ^ 32"
  shows "rx_ok W' D m"
  unfolding rx_ok_def
proof (intro allI conjI impI)
  fix i c
  show "prefix (D i) (W' i)" using assms(1,2) by (auto simp: rx_ok_def extends_def intro: prefix_order.trans)
  assume "GetConn m i = Some c"
  then have "synced (W i) (D i) c" using assms(1) by (simp add: rx_ok_def)
  moreover have "prefix (W i) (W' i)" using assms(2) by (simp add: extends_def)
  ultimately show "synced (W' i) (D i) c" using assms(3) [of i] by (rule synced_extends)
qed

lemma queue_ok_extends: "queue_ok W b \<Longrightarrow> extends W W' \<Longrightarrow> queue_ok W' b"
  unfolding queue_ok_def by (elim exE conjE) (intro exI conjI, assumption, blast intro: sound_extends)

subsection \<open>Receiving\<close>

lemma synced_prefix: "synced w d c \<Longrightarrow> prefix d w"
  by (simp add: synced_def take_is_prefix)

lemma synced_cong: "recvExpected c' = recvExpected c \<Longrightarrow> recvPending c' = recvPending c \<Longrightarrow> synced w d c' = synced w d c"
  by (simp add: synced_def in_sync_def)

lemma synced_touched [simp]: "synced w d (MarkUsed now c) = synced w d c" "synced w d (Conn_Close c) = synced w d c"
  by (auto simp: MarkUsed_def Conn_Close_def intro!: synced_cong)

lemma synced_deliver:
  assumes "synced w d c" "n < length w" "deliverOrdered c (of_nat n) (w ! n) = (c', ds)"
  shows "synced w (d @ ds) c'"
proof -
  obtain R where R: "in_sync (\<lambda>n. w ! n) (length w) R c" and d: "d = take (unat (recvExpected c)) w"
    using assms(1) by (auto simp: synced_def)
  obtain R' where R': "in_sync (\<lambda>n. w ! n) (length w) R' c'" "unat (recvExpected c) \<le> unat (recvExpected c')"
    "ds = map (\<lambda>n. w ! n) [unat (recvExpected c)..<unat (recvExpected c')]"
    using deliver_safe [OF R assms(2,3)] by blast
  have le: "unat (recvExpected c') \<le> length w" using R'(1) by (rule in_sync_expected_le)
  have "d @ ds = take (unat (recvExpected c')) w"
    unfolding d R'(3) using R'(2) le by (intro nth_equalityI) (auto simp: nth_append min_def)
  then show ?thesis using R'(1) by (auto simp: synced_def)
qed

lemma rx_ok_put: "rx_ok W D m \<Longrightarrow> synced (W i) (D i @ ds) c \<Longrightarrow> rx_ok W (D(i := D i @ ds)) (put_conn i c m)"
  using synced_prefix by (auto simp: rx_ok_def)

lemma HandleFrame_rx:
  assumes "rx_ok W D m" "sound W f" "HandleFrame now m f = (m', a)"
  shows "rx_ok W (\<lambda>i. D i @ pushes i [a]) m'"
proof (cases "FType f = TypeData")
  case False
  have "rx_ok W D (put_conn i (Conn_Close c) m)" if "GetConn m i = Some c" for i c
    using rx_ok_put [OF assms(1), of i "[]" "Conn_Close c"] assms(1) that by (simp add: rx_ok_def)
  then show ?thesis using assms(1,3) False
    by (auto simp: HandleFrame_def split: if_splits option.splits sum.splits)
next
  case True
  then have h: "HandleFrame now m f = (case GetConn m (ConnID f) of None \<Rightarrow> (m, NoAction)
      | Some c \<Rightarrow> let (c', ds) = deliverOrdered (MarkUsed now c) (SeqNum f) (Payload f)
                  in (put_conn (ConnID f) c' m, Push (ConnID f) ds))"
    by (simp add: HandleFrame_def TypeData_def TypeConnect_def TypeConnectACK_def)
  show ?thesis
  proof (cases "GetConn m (ConnID f)")
    case None
    then show ?thesis using assms(1,3) h by simp
  next
    case (Some c)
    let ?w = "W (ConnID f)" and ?d = "D (ConnID f)"
    obtain n where n: "n < length ?w" "SeqNum f = of_nat n" "Payload f = ?w ! n"
      using assms(2) True by (auto simp: sound_def)
    obtain c' ds where d: "deliverOrdered (MarkUsed now c) (of_nat n) (?w ! n) = (c', ds)" by fastforce
    have "synced ?w (?d @ ds) c'"
      by (rule synced_deliver [OF _ n(1) d]) (use assms(1) Some in \<open>simp add: rx_ok_def\<close>)
    then have "rx_ok W (D(ConnID f := ?d @ ds)) (put_conn (ConnID f) c' m)" by (rule rx_ok_put [OF assms(1)])
    moreover have "D(ConnID f := ?d @ ds) = (\<lambda>i. D i @ pushes i [Push (ConnID f) ds])" by auto
    moreover have "m' = put_conn (ConnID f) c' m" "a = Push (ConnID f) ds" using assms(3) h Some d n by simp_all
    ultimately show ?thesis by (simp only:)
  qed
qed

lemma pushes_Cons: "pushes i (a # as) = pushes i [a] @ pushes i as"
  by (cases a) auto

lemma handle_frames_rx:
  assumes "rx_ok W D m" "\<forall>f \<in> set fs. sound W f" "handle_frames now fs m = (m', as)"
  shows "rx_ok W (\<lambda>i. D i @ pushes i as) m'"
  using assms
proof (induction fs arbitrary: D m as)
  case (Cons f fs)
  obtain m1 a where a: "HandleFrame now m f = (m1, a)" by fastforce
  obtain as' where as: "handle_frames now fs m1 = (m', as')" "as = a # as'"
    using Cons.prems(3) a by (auto simp: Let_def split: prod.splits)
  have "rx_ok W (\<lambda>i. D i @ pushes i [a]) m1"
    using HandleFrame_rx [OF Cons.prems(1) _ a] Cons.prems(2) by simp
  from Cons.IH [OF this _ as(1)] Cons.prems(2) show ?case
    by (simp add: as(2) pushes_Cons [of _ a as'])
qed simp

subsection \<open>Sending\<close>

lemma deliverOrdered_sendSeq [simp]: "sendSeq (fst (deliverOrdered c q d)) = sendSeq c"
  by (simp add: deliverOrdered_def Let_def split_beta)

lemma HandleFrame_tx: "tx_ok W m \<Longrightarrow> tx_ok W (fst (HandleFrame now m f))"
  by (auto simp: tx_ok_def HandleFrame_def MarkUsed_def Conn_Close_def Let_def split_beta split: option.split sum.split)

lemma handle_frames_tx: "tx_ok W m \<Longrightarrow> tx_ok W (fst (handle_frames now fs m))"
  by (induction fs arbitrary: m) (auto simp: Let_def split_beta HandleFrame_tx)

lemma handle_frames_wf: "mux_wf m \<Longrightarrow> mux_wf (fst (handle_frames now fs m))"
  by (induction fs arbitrary: m) (auto simp: Let_def split_beta HandleFrame_wf)

lemma queue_ok_add:
  assumes "queue_ok W b" "Add_poll u now b f urgent = (ok, b')" "length (Payload f) < 2 ^ 24" "sound W f"
  shows "queue_ok W b'"
proof -
  obtain fs where fs: "buf b = concat (map Frame_Marshal fs)" "\<forall>f \<in> set fs. length (Payload f) < 2 ^ 24 \<and> sound W f"
    using assms(1) by (auto simp: queue_ok_def)
  show ?thesis
  proof (cases ok)
    case True
    then have "buf b' = concat (map Frame_Marshal (fs @ [f]))" using admitted.taken assms(2) fs(1) by simp
    then show ?thesis unfolding queue_ok_def using fs(2) assms(3,4) by (intro exI [of _ "fs @ [f]"]) auto
  next
    case False
    then have "b' = b" using admitted.refused [of u now b f urgent b'] assms(2) by simp
    then show ?thesis using assms(1) by simp
  qed
qed

lemma SendData_sends:
  assumes "GetConn m i = Some c" "SendData (Add_poll u now) m b i d = (ok, m', b')"
    and "tx_ok W m" "queue_ok W b" "length d < 2 ^ 24"
  shows "tx_ok (W(i := W i @ [d])) m'" "queue_ok (W(i := W i @ [d])) b'"
    and "b_key b' = b_key b"
    and "\<exists>c'. m' = put_conn i c' m \<and> recvExpected c' = recvExpected c \<and> recvPending c' = recvPending c"
proof -
  let ?W = "W(i := W i @ [d])"
  obtain urgent c1 where cl: "classifyDataUrgency (c\<lparr>sendSeq := sendSeq c + 1\<rparr>) (length d) = (urgent, c1)" by fastforce
  have c1: "sendSeq c1 = sendSeq c + 1" "recvExpected c1 = recvExpected c" "recvPending c1 = recvPending c"
    using cl by (auto simp: classifyDataUrgency_def Let_def split: if_splits)
  let ?f = "\<lparr>FType = TypeData, ConnID = i, SeqNum = sendSeq c, Payload = d\<rparr>"
  have add: "Add_poll u now b ?f urgent = (ok, b')" and m': "m' = put_conn i c1 m"
    using assms(2) cl by (auto simp: SendData_def assms(1) nextSendSeq_def Let_def split: prod.splits)
  have seq: "sendSeq c = of_nat (length (W i))" using assms(1,3) by (simp add: tx_ok_def)
  then show "tx_ok ?W m'" using assms(3) c1(1) by (auto simp: tx_ok_def m')
  have "sound ?W ?f" using seq by (auto simp: sound_def intro!: exI [of _ "length (W i)"])
  then show "queue_ok ?W b'"
    by (intro queue_ok_add [OF queue_ok_extends [OF assms(4) extends_append] add]) (use assms(5) in simp_all)
  show "b_key b' = b_key b" using admitted.keeps [OF add] by simp
  show "\<exists>c'. m' = put_conn i c' m \<and> recvExpected c' = recvExpected c \<and> recvPending c' = recvPending c"
    using m' c1 by blast
qed

lemma ship_sound:
  assumes "\<forall>x. dec (enc x) = Some x" "length key = keyLen" "\<forall>q n. rnd q = Some n \<longrightarrow> length n = nonceLen"
    and "b_key (rt_batcher lr) = key" "queue_ok W (rt_batcher lr)"
    and "length (enc (buf (rt_batcher lr))) \<le> MaxCompressedSize" "ship enc rnd grow now lr = (es, lr')"
  shows "\<exists>b. lr' = lr\<lparr>rt_batcher := b\<rparr> \<and> b_key b = key \<and> queue_ok W b"
    and "\<forall>e \<in> set es. \<forall>f \<in> set (open_batch dec key e). sound W f"
proof -
  obtain fs where fs: "buf (rt_batcher lr) = concat (map Frame_Marshal fs)" "\<forall>f \<in> set fs. length (Payload f) < 2 ^ 24 \<and> sound W f"
    using assms(5) by (auto simp: queue_ok_def)
  have empty: "queue_ok W b" if "buf b = []" for b
    using that unfolding queue_ok_def by (intro exI [of _ "[]"]) simp
  have "(\<exists>b. lr' = lr\<lparr>rt_batcher := b\<rparr> \<and> b_key b = key \<and> queue_ok W b)
    \<and> (\<forall>e \<in> set es. open_batch dec key e = fs)"
  proof (cases "buf (rt_batcher lr) = []")
    case True
    then have "Flush grow now (rt_batcher lr) = (None, rt_batcher lr)" by (simp add: Flush_def flush_take_def)
    then have "es = []" "lr' = lr\<lparr>rt_batcher := rt_batcher lr\<rparr>" using assms(7) by (simp_all add: ship_def)
    then show ?thesis using empty [OF True] assms(4) by (intro conjI exI [of _ "rt_batcher lr"]) auto
  next
    case False
    obtain j b where j: "Flush grow now (rt_batcher lr) = (Some j, b)" "j_raw j = buf (rt_batcher lr)" "buf b = []" "b_key b = key"
      using Flush_nonempty [OF False, of grow now] assms(4) by auto
    let ?r = "SealEnvelope key (rnd (j_seq j)) (enc (buf (rt_batcher lr)))"
    have fl: "flushRaw enc rnd key (j_seq j) (buf (rt_batcher lr)) (seqNum b) = Some ([(j_seq j, ?r)], seqNum b)"
      by (rule flushRaw_fits) (rule assms(6))
    have "open_batch dec key e = fs" if "?r = Inr e" for e
      by (rule open_batch_sealed [where enc = enc and rnd = rnd and q = "j_seq j" and ctr = "seqNum b" and ctr' = "seqNum b"])
        (use fl that fs assms(1,2,3,6) j(2) in auto)
    then have "\<forall>e \<in> set es. open_batch dec key e = fs"
      using assms(7) by (auto simp: ship_def j fl List.map_filter_simps split: sum.splits)
    moreover have "lr' = lr\<lparr>rt_batcher := job_done j (b\<lparr>seqNum := seqNum b\<rparr>)\<rparr>"
      using assms(7) by (auto simp: ship_def j fl)
    moreover have "b_key (job_done j (b\<lparr>seqNum := seqNum b\<rparr>)) = key" "queue_ok W (job_done j (b\<lparr>seqNum := seqNum b\<rparr>))"
      using j by (auto simp: job_done_def putBuf_def Let_def intro!: empty)
    ultimately show ?thesis by blast
  qed
  then show "\<exists>b. lr' = lr\<lparr>rt_batcher := b\<rparr> \<and> b_key b = key \<and> queue_ok W b"
    "\<forall>e \<in> set es. \<forall>f \<in> set (open_batch dec key e). sound W f" using fs(2) by auto
qed

subsection \<open>Every step keeps the invariant\<close>

text \<open>Connections only disappear.\<close>

definition shrinks :: "mux \<Rightarrow> mux \<Rightarrow> bool" where
  "shrinks m m' \<longleftrightarrow> (\<forall>i. GetConn m' i = None \<or> GetConn m' i = GetConn m i)"

lemma shrinks_tx: "shrinks m m' \<Longrightarrow> tx_ok W m \<Longrightarrow> tx_ok W m'"
  unfolding shrinks_def tx_ok_def by (metis option.distinct(1))

lemma shrinks_rx: "shrinks m m' \<Longrightarrow> rx_ok W D m \<Longrightarrow> rx_ok W D m'"
  unfolding shrinks_def rx_ok_def by (metis option.distinct(1))

lemma shrinks_fresh: "shrinks m m' \<Longrightarrow> fresh_ok os W D m \<Longrightarrow> fresh_ok os W D m'"
  unfolding shrinks_def fresh_ok_def by metis

lemma RemoveConn_shrinks: "mux_wf m \<Longrightarrow> shrinks m (fst (RemoveConn i m))"
  by (simp add: shrinks_def)

lemma map_of_filter_distinct:
  "distinct (map fst xs) \<Longrightarrow> map_of (filter P xs) i = None \<or> map_of (filter P xs) i = map_of xs i"
  by (induction xs) (auto simp: map_of_eq_None_iff)

lemma gc_shrinks: "mux_wf m \<Longrightarrow> shrinks m (fst (gc now m))"
  unfolding shrinks_def gc_def GetConn_def mux_wf_def
  by (auto simp del: not_None_eq dest: map_of_filter_distinct [of _ "\<lambda>(i, c). \<not> now - lastUsed c > idleLimit"])

lemma pushes_unknown: "GetConn m i = None \<Longrightarrow> pushes i (snd (handle_frames now fs m)) = []"
proof (induction fs arbitrary: m)
  case (Cons f fs)
  obtain m1 a where a: "HandleFrame now m f = (m1, a)" by fastforce
  have "pushes i [a] = []" using Cons.prems a by (auto simp: HandleFrame_def split: if_splits option.splits sum.splits prod.splits)
  moreover have "GetConn m1 i = None" using HandleFrame_dom [of now m f i] Cons.prems a by simp
  moreover have "snd (handle_frames now (f # fs) m) = a # snd (handle_frames now fs m1)" by (simp add: a split_beta)
  ultimately show ?case using Cons.IH [of m1] pushes_Cons [of i a "snd (handle_frames now fs m1)"] by simp
qed simp

lemma inv_other:
  assumes "side_inv dec key s q" "side s' q = side s q" "posted s' q = posted s q" "opened s' q = opened s q"
    and "written s' q = written s q" "pushed s' q = pushed s q"
    and "extends (written s (\<not> q)) (written s' (\<not> q))" "\<And>i. length (written s' (\<not> q) i) < 2 ^ 32"
  shows "side_inv dec key s' q"
  using assms(1) rx_ok_extends [OF _ assms(7,8)] by (simp add: side_inv_def assms(2-6))

lemma extends_refl [simp]: "extends W W"
  by (simp add: extends_def)

lemma inv_shrinks:
  assumes "side_inv dec key s p" "shrinks (rt_mux (side s p)) m" "mux_wf m"
  shows "side_inv dec key (set_mux p m s) p"
  using assms shrinks_tx [OF assms(2)] shrinks_rx [OF assms(2)] shrinks_fresh [OF assms(2)]
  by (simp add: side_inv_def)

lemma inv_open:
  assumes "side_inv dec key s p" "\<And>i. length (written s (\<not> p) i) < 2 ^ 32" "i \<notin> opened s p"
    and "RegisterConn now i (rt_mux (side s p)) = (c, m)"
  shows "side_inv dec key ((set_mux p m s)\<lparr>opened := (opened s)(p := insert i (opened s p))\<rparr>) p"
proof -
  have m: "m = put_conn i (newConn now i) (rt_mux (side s p))" using assms(4) by (auto simp: RegisterConn_def Let_def)
  have new: "written s p i = []" "pushed s p i = []" using assms(1,3) by (simp_all add: side_inv_def fresh_ok_def)
  have "mux_wf m" using RegisterConn_wf [of "rt_mux (side s p)" now i] assms(1,4) by (simp add: side_inv_def)
  moreover have "tx_ok (written s p) m" using assms(1) new by (auto simp: side_inv_def tx_ok_def m newConn_def)
  moreover have "synced (written s (\<not> p) i) [] (newConn now i)"
    using in_sync_new [OF assms(2) [of i]] by (auto simp: synced_def newConn_def)
  then have "rx_ok (written s (\<not> p)) (pushed s p) m"
    using assms(1) new by (auto simp: side_inv_def rx_ok_def m)
  moreover have "fresh_ok (insert i (opened s p)) (written s p) (pushed s p) m"
    using assms(1) by (auto simp: side_inv_def fresh_ok_def m)
  ultimately show ?thesis using assms(1) by (simp add: side_inv_def)
qed

lemma inv_write:
  assumes "side_inv dec key s p" "GetConn (rt_mux (side s p)) i \<noteq> None" "length d < 2 ^ 24" "Suc (length (written s p i)) < 2 ^ 32"
    and "SendData (Add_poll u now) (rt_mux (side s p)) (rt_batcher (side s p)) i d = (ok, m, b)"
  shows "side_inv dec key (s\<lparr>side := (side s)(p := (side s p)\<lparr>rt_mux := m, rt_batcher := b\<rparr>),
      written := (written s)(p := (written s p)(i := written s p i @ [d]))\<rparr>) p"
proof -
  let ?W = "(written s p)(i := written s p i @ [d])"
  obtain c where c: "GetConn (rt_mux (side s p)) i = Some c" using assms(2) by blast
  note inv = assms(1) [unfolded side_inv_def]
  note sent = SendData_sends [OF c assms(5) _ _ assms(3), of "written s p"]
  have "tx_ok ?W m" "queue_ok ?W b" "b_key b = key" using sent(1-3) inv by simp_all
  moreover obtain c' where m: "m = put_conn i c' (rt_mux (side s p))"
    and c': "recvExpected c' = recvExpected c" "recvPending c' = recvPending c" using sent(4) inv by blast
  have "synced (written s (\<not> p) i) (pushed s p i) c'" using inv c c' synced_cong [of c' c] by (simp add: rx_ok_def)
  then have "rx_ok (written s (\<not> p)) (pushed s p) m" using inv by (auto simp: rx_ok_def m)
  moreover have "fresh_ok (opened s p) ?W (pushed s p) m" using inv c by (auto simp: fresh_ok_def m)
  moreover have "mux_wf m"
    using SendData_wf [of "rt_mux (side s p)" "Add_poll u now" "rt_batcher (side s p)" i d] inv assms(5) by simp
  moreover have "\<forall>e \<in> posted s p. \<forall>f \<in> set (open_batch dec key e). sound ?W f"
    using inv sound_extends extends_append by blast
  ultimately show ?thesis using inv assms(4) by (simp add: side_inv_def)
qed

lemma inv_arrive:
  assumes "side_inv dec key s p" "\<forall>f \<in> set (open_batch dec key e). sound (written s (\<not> p)) f"
    and "recvLoop dec now [e] (side s p) = (lr, as)"
  shows "side_inv dec key (s\<lparr>side := (side s)(p := lr), pushed := (pushed s)(p := (\<lambda>i. pushed s p i @ pushes i as))\<rparr>) p"
proof -
  note inv = assms(1) [unfolded side_inv_def]
  obtain m where h: "handle_frames now (open_batch dec key e) (rt_mux (side s p)) = (m, as)"
    and lr: "lr = (side s p)\<lparr>rt_mux := m\<rparr>"
    using assms(3) inv by (auto simp: recvLoop_def split: prod.splits)
  have "rx_ok (written s (\<not> p)) (\<lambda>i. pushed s p i @ pushes i as) m"
    by (rule handle_frames_rx [OF _ assms(2) h]) (use inv in simp)
  moreover have "tx_ok (written s p) m" "mux_wf m"
    using handle_frames_tx [of "written s p" "rt_mux (side s p)" now "open_batch dec key e"]
      handle_frames_wf [of "rt_mux (side s p)" now "open_batch dec key e"] inv h by simp_all
  moreover have "fresh_ok (opened s p) (written s p) (\<lambda>i. pushed s p i @ pushes i as) m"
    using inv handle_frames_dom [of now "open_batch dec key e" "rt_mux (side s p)"]
      pushes_unknown [of "rt_mux (side s p)" _ now "open_batch dec key e"] h by (simp add: fresh_ok_def)
  ultimately show ?thesis using inv by (simp add: side_inv_def lr)
qed

text \<open>A step of one side leaves the other side's invariant alone; at most it extends what that side will receive.\<close>

lemma inv_move:
  assumes "sys_inv dec key s" "side_inv dec key s' p" "side s' (\<not> p) = side s (\<not> p)" "posted s' (\<not> p) = posted s (\<not> p)"
    and "opened s' (\<not> p) = opened s (\<not> p)" "written s' (\<not> p) = written s (\<not> p)" "pushed s' (\<not> p) = pushed s (\<not> p)"
    and "extends (written s p) (written s' p)"
  shows "sys_inv dec key s'"
proof -
  have "side_inv dec key s (\<not> p)" using assms(1) by (simp add: sys_inv_def)
  moreover have "length (written s' p i) < 2 ^ 32" for i using assms(2) by (simp add: side_inv_def)
  ultimately have "side_inv dec key s' (\<not> p)" using assms(3-8) by (intro inv_other [of dec key s "\<not> p" s']) simp_all
  then show ?thesis using assms(2) by (cases p) (auto simp: sys_inv_def all_bool_eq)
qed

lemma sys_step_inv:
  assumes "sys_step enc dec s s'" "sys_inv dec key s" "\<forall>x. dec (enc x) = Some x" "length key = keyLen"
  shows "sys_inv dec key s'"
proof -
  have inv: "side_inv dec key s p" for p using assms(2) by (simp add: sys_inv_def)
  then have wf: "mux_wf (rt_mux (side s p))" and len: "length (written s p i) < 2 ^ 32" for p i
    by (simp_all add: side_inv_def)
  from assms(1) show ?thesis
  proof cases
    case (open_conn i p now c m)
    have "side_inv dec key s' p" unfolding open_conn(1) by (rule inv_open [OF inv len open_conn(2,3)])
    then show ?thesis by (rule inv_move [OF assms(2)]) (simp_all add: open_conn(1))
  next
    case (app_write p i d u now ok m b)
    have "side_inv dec key s' p" unfolding app_write(1) by (rule inv_write [OF inv app_write(2-5)])
    then show ?thesis by (rule inv_move [OF assms(2)]) (simp_all add: app_write(1))
  next
    case (control f u now p urgent ok b)
    have "queue_ok (written s p) b" using queue_ok_add [OF _ control(4,3)] inv control(2) by (simp add: side_inv_def sound_def)
    moreover have "b_key b = key" using admitted.keeps [OF control(4)] inv [of p] by (simp add: side_inv_def)
    ultimately have "side_inv dec key s' p" using inv [of p] by (simp add: side_inv_def control(1))
    then show ?thesis by (rule inv_move [OF assms(2)]) (simp_all add: control(1))
  next
    case (flush p rnd grow now es lr)
    have key: "b_key (rt_batcher (side s p)) = key" "queue_ok (written s p) (rt_batcher (side s p))"
      using inv [of p] by (simp_all add: side_inv_def)
    note sh = ship_sound [OF assms(3,4) flush(3) key flush(2,4)]
    then obtain b where "lr = (side s p)\<lparr>rt_batcher := b\<rparr>" "b_key b = key" "queue_ok (written s p) b" by blast
    then have "side_inv dec key s' p" using sh(2) inv [of p] by (auto simp: side_inv_def flush(1))
    then show ?thesis by (rule inv_move [OF assms(2)]) (simp_all add: flush(1))
  next
    case (arrive e p now lr as)
    have "\<forall>f \<in> set (open_batch dec key e). sound (written s (\<not> p)) f"
      using arrive(2) inv [of p] inv [of "\<not> p"] by (auto simp: side_inv_def)
    then have "side_inv dec key s' p" unfolding arrive(1) by (rule inv_arrive [OF inv _ arrive(3)])
    then show ?thesis by (rule inv_move [OF assms(2)]) (simp_all add: arrive(1))
  next
    case (remove i p m c)
    have "side_inv dec key s' p" unfolding remove(1)
      by (rule inv_shrinks [OF inv]) (use RemoveConn_shrinks [OF wf, of p i] RemoveConn_wf [OF wf, of i p] remove(2) in simp_all)
    then show ?thesis by (rule inv_move [OF assms(2)]) (simp_all add: remove(1))
  next
    case (collect now p m cs)
    have "side_inv dec key s' p" unfolding collect(1)
      by (rule inv_shrinks [OF inv]) (use gc_shrinks [OF wf, of p now] gc_wf [OF wf, of now p] collect(2) in simp_all)
    then show ?thesis by (rule inv_move [OF assms(2)]) (simp_all add: collect(1))
  qed
qed

lemma sys_init_inv:
  assumes "Key cspec = key" "Key sspec = key"
  shows "sys_inv dec key (sys_init cspec sspec)"
  using assms
  by (auto simp: sys_inv_def side_inv_def sys_init_def newServerLink_def newClientLink_def newLinkRuntime_def NewMux_def
      NewBatcher_def newBatcher_def mux_wf_def queue_ok_def tx_ok_def rx_ok_def fresh_ok_def GetConn_def Let_def intro!: exI [of _ "[]"])

lemma sys_reach_inv:
  assumes "sys_reach enc dec (sys_init cspec sspec) s" "\<forall>x. dec (enc x) = Some x"
    and "Key cspec = key" "Key sspec = key" "length key = keyLen"
  shows "sys_inv dec key s"
  using assms(1)
  by (induction rule: sys_reach.induct) (use assms(2-) sys_init_inv sys_step_inv in blast)+

subsection \<open>The specification\<close>

text \<open>
  What an application may rely on, without frames, batches or a channel: two byte streams per
  identifier, to which one side appends and from which the other takes the next payloads.
\<close>

inductive stream_run :: "(bool \<Rightarrow> conn_id \<Rightarrow> bytes list) \<Rightarrow> (bool \<Rightarrow> conn_id \<Rightarrow> bytes list) \<Rightarrow> bool" where
  nothing: "stream_run (\<lambda>_ _. []) (\<lambda>_ _. [])"
| wrote: "stream_run W D \<Longrightarrow> stream_run (W(p := (W p)(i := W p i @ [d]))) D"
| took: "stream_run W D \<Longrightarrow> (\<And>i. prefix (D p i @ ds i) (W (\<not> p) i)) \<Longrightarrow> stream_run W (D(p := (\<lambda>i. D p i @ ds i)))"

lemma stream_run_prefix: "stream_run W D \<Longrightarrow> prefix (D p i) (W (\<not> p) i)"
proof (induction rule: stream_run.induct)
  case (wrote W D q j d)
  then show ?case by (auto intro: prefix_order.trans)
next
  case (took W D q ds)
  then show ?case by (cases "p = q") simp_all
qed simp

lemma sys_step_streams:
  assumes "sys_step enc dec s s'" "sys_inv dec key s'" "stream_run (written s) (pushed s)"
  shows "stream_run (written s') (pushed s')"
  using assms(1)
proof cases
  case (app_write p i d u now ok m b)
  then show ?thesis using stream_run.wrote [OF assms(3)] by simp
next
  case (arrive e p now lr as)
  have "prefix (pushed s' p i) (written s' (\<not> p) i)" for i
    using assms(2) by (simp add: sys_inv_def side_inv_def rx_ok_def)
  then show ?thesis using stream_run.took [OF assms(3), of p "\<lambda>i. pushes i as"] by (simp add: arrive(1))
qed (use assms(3) in simp_all)

lemma sys_reach_streams:
  assumes "sys_reach enc dec (sys_init cspec sspec) s" "\<forall>x. dec (enc x) = Some x"
    and "Key cspec = key" "Key sspec = key" "length key = keyLen"
  shows "stream_run (written s) (pushed s)"
  using assms(1)
proof induction
  case start
  then show ?case using stream_run.nothing by (simp add: sys_init_def)
next
  case (next_step s s')
  have "sys_reach enc dec (sys_init cspec sspec) s'" using next_step(1,2) by (rule sys_reach.next_step)
  then have "sys_inv dec key s'" by (rule sys_reach_inv) (rule assms)+
  with next_step(2) show ?case using next_step.IH by (rule sys_step_streams)
qed

subsection \<open>Properties\<close>


text \<open>
  The condition that a payload is written to a registered connection matters. \<^verbatim>\<open>SendData\<close> does not fail
  for a connection that was removed meanwhile: the payload leaves with sequence number 0, and a peer
  that still waits for the first frame takes it for the beginning of the stream.
\<close>

lemma late_write_first:
  assumes "GetConn m i = None" "SendData sf m b i d = (ok, m1, b1)"
    and "GetConn peer i = Some c" "recvExpected c = 0"
  shows "\<exists>f ds. sf b f False = (ok, b1) \<and> m1 = m \<and> snd (HandleFrame now peer f) = Push i (d # ds)"
proof -
  let ?f = "\<lparr>FType = TypeData, ConnID = i, SeqNum = 0, Payload = d\<rparr>"
  have "sf b ?f False = (ok, b1)" "m1 = m" using assms(1,2) by (auto simp: SendData_def split: prod.splits)
  moreover obtain ds where "snd (deliverOrdered (MarkUsed now c) 0 d) = d # ds"
    using assms(4) by (auto simp: deliverOrdered_def MarkUsed_def Let_def split_beta)
  then have "snd (HandleFrame now peer ?f) = Push i (d # ds)"
    using assms(3) by (simp add: HandleFrame_def TypeData_def TypeConnect_def TypeConnectACK_def split_beta)
  ultimately show ?thesis by blast
qed

text \<open>The first payload of a connection, with nothing queued before it.\<close>

lemma first_write:
  assumes "GetConn m i = Some c" "sendSeq c = 0" "buf b = []" "admit_ok b (13 + length d)"
  shows "\<exists>c' b'. SendData (Add_poll u now) m b i d = (True, put_conn i c' m, b') \<and> b_key b' = b_key b
    \<and> buf b' = Frame_Marshal \<lparr>FType = TypeData, ConnID = i, SeqNum = 0, Payload = d\<rparr>
    \<and> seqNum b' = seqNum b \<and> inFlightBytes b' = inFlightBytes b \<and> recvExpected c' = recvExpected c \<and> recvPending c' = recvPending c"
proof -
  let ?f = "\<lparr>FType = TypeData, ConnID = i, SeqNum = 0, Payload = d\<rparr>"
  obtain urgent c' where s: "SendData (Add_poll u now) m b i d =
      (case Add_poll u now b ?f urgent of (ok, b') \<Rightarrow> (ok, put_conn i c' m, b'))"
    and c': "recvExpected c' = recvExpected c" "recvPending c' = recvPending c"
    using SendData_frame [OF assms(1), of "Add_poll u now" b d] assms(2) by auto
  have "fst (Add_poll u now b ?f urgent)" by (rule admitted.admits) (use assms(4) in \<open>simp add: HeaderSize_def\<close>)
  then have "Add_poll u now b ?f urgent = (True, snd (Add_poll u now b ?f urgent))"
    "buf (snd (Add_poll u now b ?f urgent)) = Frame_Marshal ?f"
    using admitted.queued [of u now b ?f urgent] assms(3) by (simp_all add: prod_eq_iff)
  then show ?thesis using s c' by (metis (no_types, lifting) admitted.kept case_prod_conv)
qed

text \<open>The steps a first payload takes: written, flushed, arrived.\<close>

lemma first_payload_arrives:
  assumes "sys_reach enc dec s0 s" "\<forall>x. dec (enc x) = Some x" "length key = keyLen"
    and "keyed key (side s p)" "rt_key (side s (\<not> p)) = key"
    and "GetConn (rt_mux (side s p)) i = Some c" "sendSeq c = 0" "written s p i = []"
    and "buf (rt_batcher (side s p)) = []" "admit_ok (rt_batcher (side s p)) (13 + length d)" "length d < 2 ^ 24"
    and "length (enc (Frame_Marshal \<lparr>FType = TypeData, ConnID = i, SeqNum = 0, Payload = d\<rparr>)) \<le> MaxCompressedSize"
    and "GetConn (rt_mux (side s (\<not> p))) i = Some c'" "recvExpected c' = 0" "recvPending c' = []"
  shows "\<exists>s'. sys_reach enc dec s0 s' \<and> written s' p i = [d] \<and> pushed s' (\<not> p) i = pushed s (\<not> p) i @ [d]"
proof -
  let ?f = "\<lparr>FType = TypeData, ConnID = i, SeqNum = 0, Payload = d\<rparr>" and ?rnd = "\<lambda>_. Some (replicate 12 (1 :: byte))"
  obtain c1 b where send: "SendData (Add_poll 0 0) (rt_mux (side s p)) (rt_batcher (side s p)) i d = (True, put_conn i c1 (rt_mux (side s p)), b)"
    and b: "buf b = Frame_Marshal ?f" "b_key b = key"
    using first_write [OF assms(6,7,9,10), of 0 0] assms(4) by auto
  define s1 where "s1 = s\<lparr>side := (side s)(p := (side s p)\<lparr>rt_mux := put_conn i c1 (rt_mux (side s p)), rt_batcher := b\<rparr>),
      written := (written s)(p := (written s p)(i := written s p i @ [d]))\<rparr>"
  have e1: "sys_step enc dec s s1" unfolding s1_def
    by (rule sys_step.app_write [OF _ assms(11) _ send]) (use assms(6,8) in simp_all)
  obtain sealed b' where ship: "ship enc ?rnd (\<lambda>c n. n) 0 (side s1 p) = ([sealed], (side s1 p)\<lparr>rt_batcher := b'\<rparr>)"
    and opens: "open_batch dec key sealed = [?f]"
    using ship_opens [where dec = dec and enc = enc and key = key and fs = "[?f]" and rnd = ?rnd and lr = "side s1 p"
        and grow = "\<lambda>c n. n" and now = 0] assms(2,3) b assms(11,12) by (auto simp: s1_def nonceLen_def)
  define s2 where "s2 = s1\<lparr>side := (side s1)(p := (side s1 p)\<lparr>rt_batcher := b'\<rparr>), posted := (posted s1)(p := posted s1 p \<union> set [sealed])\<rparr>"
  have e2: "sys_step enc dec s1 s2" unfolding s2_def
    by (rule sys_step.flush [OF _ _ ship]) (use b assms(12) in \<open>simp_all add: s1_def nonceLen_def\<close>)
  have other: "side s2 (\<not> p) = side s (\<not> p)" by (simp add: s2_def s1_def)
  obtain m where arr: "recvLoop dec 0 [sealed] (side s2 (\<not> p)) = ((side s2 (\<not> p))\<lparr>rt_mux := m\<rparr>, [Push i [d]])"
    using assms(5,13-15) by (simp add: other recvLoop_def opens HandleFrame_def TypeData_def TypeConnect_def TypeConnectACK_def
        deliverOrdered_def MarkUsed_def drain.simps)
  define s3 where "s3 = s2\<lparr>side := (side s2)((\<not> p) := (side s2 (\<not> p))\<lparr>rt_mux := m\<rparr>),
      pushed := (pushed s2)((\<not> p) := (\<lambda>j. pushed s2 (\<not> p) j @ pushes j [Push i [d]]))\<rparr>"
  have e3: "sys_step enc dec s2 s3" unfolding s3_def by (rule sys_step.arrive [OF _ arr]) (simp add: s2_def)
  have "sys_reach enc dec s0 s3" using assms(1) e1 e2 e3 by (meson sys_reach.next_step)
  moreover have "written s3 p i = [d]" "pushed s3 (\<not> p) i = pushed s (\<not> p) i @ [d]"
    using assms(8) by (simp_all add: s3_def s2_def s1_def)
  ultimately show ?thesis by blast
qed

text \<open>Both ends of a link with the same connection opened.\<close>

lemma open_both:
  "\<exists>s1 s2. sys_step id Some (sys_init spec1 spec1) s1 \<and> sys_step id Some s1 s2
    \<and> side s1 = (side (sys_init spec1 spec1))(False := (newClientLink spec1)\<lparr>rt_mux := put_conn 7 (newConn 0 7) (rt_mux (newClientLink spec1))\<rparr>)
    \<and> side s2 = (side s1)(True := (newServerLink spec1)\<lparr>rt_mux := put_conn 7 (newConn 0 7) (rt_mux (newServerLink spec1))\<rparr>)
    \<and> written s1 = (\<lambda>_ _. []) \<and> written s2 = (\<lambda>_ _. []) \<and> pushed s2 = (\<lambda>_ _. [])"
proof -
  define mc where "mc = put_conn 7 (newConn 0 7) (rt_mux (newClientLink spec1))"
  define ms where "ms = put_conn 7 (newConn 0 7) (rt_mux (newServerLink spec1))"
  define s0 where "s0 = sys_init spec1 spec1"
  define s1 where "s1 = (set_mux False mc s0)\<lparr>opened := (opened s0)(False := insert 7 (opened s0 False))\<rparr>"
  define s2 where "s2 = (set_mux True ms s1)\<lparr>opened := (opened s1)(True := insert 7 (opened s1 True))\<rparr>"
  have "sys_step id Some s0 s1" unfolding s1_def
    by (rule sys_step.open_conn [where now = 0 and c = "newConn 0 7"]) (simp_all add: s0_def sys_init_def RegisterConn_def mc_def Let_def)
  moreover have "sys_step id Some s1 s2" unfolding s2_def
    by (rule sys_step.open_conn [where now = 0 and c = "newConn 0 7"]) (simp_all add: s1_def s0_def sys_init_def RegisterConn_def ms_def Let_def)
  moreover have "side s1 = (side s0)(False := (newClientLink spec1)\<lparr>rt_mux := mc\<rparr>)" "side s2 = (side s1)(True := (newServerLink spec1)\<lparr>rt_mux := ms\<rparr>)"
    "written s1 = (\<lambda>_ _. [])" "written s2 = (\<lambda>_ _. [])" "pushed s2 = (\<lambda>_ _. [])" by (simp_all add: s2_def s1_def s0_def sys_init_def)
  ultimately show ?thesis unfolding mc_def ms_def s0_def by blast
qed


end
