(* ===== verification/Tunnel_Progress.thy ===== *)
theory Tunnel_Progress
  imports Tunnel_System
begin

text \<open>
  Progress of the tunnel of \<^verbatim>\<open>Tunnel_System\<close>: as long as no payload was refused by the batcher and no
  batch failed to be sealed, nothing is ever beyond repair. Whatever the channel has done so far,
  there are further steps, a flush and arrivals of posted batches, after which the peer's application
  has everything that was written.
\<close>

subsection \<open>Runs that lose nothing on the way to the channel\<close>

text \<open>
  Every write is admitted and every flush sealed; all other steps are free, and the channel still
  does with the batches what it likes.
\<close>

inductive calm_reach :: "(bytes \<Rightarrow> bytes) \<Rightarrow> (bytes \<Rightarrow> bytes option) \<Rightarrow> tunnel_sys \<Rightarrow> tunnel_sys \<Rightarrow> bool"
  for enc dec s0 where
  calm_start: "calm_reach enc dec s0 s0"
| calm_write: "calm_reach enc dec s0 s \<Longrightarrow> GetConn (rt_mux (side s p)) i \<noteq> None \<Longrightarrow> length d < 2 ^ 24 \<Longrightarrow>
    Suc (length (written s p i)) < 2 ^ 32 \<Longrightarrow>
    SendData (Add_poll u now) (rt_mux (side s p)) (rt_batcher (side s p)) i d = (True, m, b) \<Longrightarrow>
    calm_reach enc dec s0 (s\<lparr>side := (side s)(p := (side s p)\<lparr>rt_mux := m, rt_batcher := b\<rparr>),
      written := (written s)(p := (written s p)(i := written s p i @ [d]))\<rparr>)"
| calm_flush: "calm_reach enc dec s0 s \<Longrightarrow> length (enc (buf (rt_batcher (side s p)))) \<le> MaxCompressedSize \<Longrightarrow>
    \<forall>q. \<exists>n. rnd q = Some n \<and> length n = nonceLen \<Longrightarrow> ship enc rnd grow now (side s p) = (es, lr) \<Longrightarrow>
    calm_reach enc dec s0 (s\<lparr>side := (side s)(p := lr), posted := (posted s)(p := posted s p \<union> set es)\<rparr>)"
| calm_other: "calm_reach enc dec s0 s \<Longrightarrow> sys_step enc dec s s' \<Longrightarrow> written s' = written s \<Longrightarrow>
    (\<And>p. prefix (buf (rt_batcher (side s p))) (buf (rt_batcher (side s' p)))) \<Longrightarrow> calm_reach enc dec s0 s'"

lemma calm_sys_reach: "calm_reach enc dec s0 s \<Longrightarrow> sys_reach enc dec s0 s"
proof (induction rule: calm_reach.induct)
  case (calm_flush s p rnd grow now es lr)
  from calm_flush.hyps(3) have "\<forall>q n. rnd q = Some n \<longrightarrow> length n = nonceLen" by (metis option.inject)
  then have "sys_step enc dec s (s\<lparr>side := (side s)(p := lr), posted := (posted s)(p := posted s p \<union> set es)\<rparr>)"
    by (rule sys_step.flush [OF calm_flush.hyps(2) _ calm_flush.hyps(4)])
  with calm_flush.IH show ?case by (rule sys_reach.next_step)
next
  case (calm_write s p i d u now m b)
  then show ?case by (intro sys_reach.next_step [OF calm_write.IH] sys_step.app_write [OF calm_write.hyps(2-5)])
qed (auto intro: sys_reach.intros)

text \<open>Every payload written is in the buffer or in a posted batch.\<close>

definition carried :: "(bytes \<Rightarrow> bytes option) \<Rightarrow> bytes \<Rightarrow> tunnel_sys \<Rightarrow> bool \<Rightarrow> frame set" where
  "carried dec key s p = (\<Union>e \<in> posted s p. set (open_batch dec key e))"

definition lossless :: "(bytes \<Rightarrow> bytes option) \<Rightarrow> bytes \<Rightarrow> tunnel_sys \<Rightarrow> bool \<Rightarrow> bool" where
  "lossless dec key s p \<longleftrightarrow> (\<exists>fs. buf (rt_batcher (side s p)) = concat (map Frame_Marshal fs) \<and>
     (\<forall>f \<in> set fs. length (Payload f) < 2 ^ 24) \<and>
     (\<forall>i. \<forall>n < length (written s p i). data_frame i n (written s p i ! n) \<in> set fs \<union> carried dec key s p))"

lemma losslessI:
  assumes "buf (rt_batcher (side s p)) = concat (map Frame_Marshal fs)" "\<forall>f \<in> set fs. length (Payload f) < 2 ^ 24"
    and "\<And>i n. n < length (written s p i) \<Longrightarrow> data_frame i n (written s p i ! n) \<in> set fs \<union> carried dec key s p"
  shows "lossless dec key s p"
  unfolding lossless_def using assms by blast

lemma lossless_same:
  assumes "lossless dec key s p" "buf (rt_batcher (side s' p)) = buf (rt_batcher (side s p))"
    and "posted s p \<subseteq> posted s' p" "written s' p = written s p"
  shows "lossless dec key s' p"
proof -
  have "carried dec key s p \<subseteq> carried dec key s' p" using assms(3) by (auto simp: carried_def)
  then show ?thesis using assms(1) unfolding lossless_def assms(2,4) by blast
qed

lemma lossless_write:
  assumes "lossless dec key s p" "tx_ok (written s p) (rt_mux (side s p))" "GetConn (rt_mux (side s p)) i \<noteq> None" "length d < 2 ^ 24"
    and "SendData (Add_poll u now) (rt_mux (side s p)) (rt_batcher (side s p)) i d = (True, m, b)"
  shows "lossless dec key (s\<lparr>side := (side s)(p := (side s p)\<lparr>rt_mux := m, rt_batcher := b\<rparr>),
      written := (written s)(p := (written s p)(i := written s p i @ [d]))\<rparr>) p"
proof -
  obtain c where c: "GetConn (rt_mux (side s p)) i = Some c" using assms(3) by blast
  then have seq: "sendSeq c = of_nat (length (written s p i))" using assms(2) by (simp add: tx_ok_def)
  obtain fs where fs: "buf (rt_batcher (side s p)) = concat (map Frame_Marshal fs)" "\<forall>f \<in> set fs. length (Payload f) < 2 ^ 24"
    and w: "\<And>j n. n < length (written s p j) \<Longrightarrow> data_frame j n (written s p j ! n) \<in> set fs \<union> carried dec key s p"
    using assms(1) unfolding lossless_def by blast
  let ?f = "data_frame i (length (written s p i)) d"
  obtain u' c' where "SendData (Add_poll u now) (rt_mux (side s p)) (rt_batcher (side s p)) i d =
      (case Add_poll u now (rt_batcher (side s p)) ?f u' of (ok, b') \<Rightarrow> (ok, put_conn i c' (rt_mux (side s p)), b'))"
    using SendData_frame [OF c, of "Add_poll u now" "rt_batcher (side s p)" d] unfolding seq data_frame_def by auto
  then have "Add_poll u now (rt_batcher (side s p)) ?f u' = (True, b)" using assms(5) by (auto split: prod.splits)
  then have b: "buf b = concat (map Frame_Marshal (fs @ [?f]))" using admitted.taken fs(1) by simp
  have small: "\<forall>f \<in> set (fs @ [?f]). length (Payload f) < 2 ^ 24" using fs(2) assms(4) by (simp add: data_frame_def)
  let ?s = "s\<lparr>side := (side s)(p := (side s p)\<lparr>rt_mux := m, rt_batcher := b\<rparr>),
      written := (written s)(p := (written s p)(i := written s p i @ [d]))\<rparr>"
  have all: "data_frame j n (written ?s p j ! n) \<in> set (fs @ [?f]) \<union> carried dec key ?s p" if "n < length (written ?s p j)" for j n
  proof (cases "n < length (written s p j)")
    case True
    then show ?thesis using w [of n j] by (auto simp: nth_append carried_def)
  next
    case False
    then show ?thesis using that by (auto split: if_splits simp: less_Suc_eq)
  qed
  show ?thesis by (rule losslessI [where fs = "fs @ [?f]", OF _ small all]) (use b in simp_all)
qed

lemma ship_posts:
  assumes "\<forall>x. dec (enc x) = Some x" "length key = keyLen" "\<forall>q. \<exists>n. rnd q = Some n \<and> length n = nonceLen"
    and "b_key (rt_batcher lr) = key" "buf (rt_batcher lr) = concat (map Frame_Marshal fs)"
    and "\<forall>f \<in> set fs. length (Payload f) < 2 ^ 24" "length (enc (concat (map Frame_Marshal fs))) \<le> MaxCompressedSize"
  shows "\<exists>es b. ship enc rnd grow now lr = (es, lr\<lparr>rt_batcher := b\<rparr>) \<and> buf b = []
    \<and> set fs \<subseteq> (\<Union>e \<in> set es. set (open_batch dec key e))"
proof (cases "fs = []")
  case True
  then have "Flush grow now (rt_batcher lr) = (None, rt_batcher lr)" using assms(5) by (simp add: Flush_def flush_take_def)
  then show ?thesis using True assms(5) by (intro exI [of _ "[]"] exI [of _ "rt_batcher lr"]) (simp add: ship_def)
next
  case False
  then show ?thesis using ship_opens [OF assms(1-5) False assms(6,7), of grow now] by fastforce
qed

lemma calm_reach_lossless:
  assumes "calm_reach enc dec (sys_init cspec sspec) s" "\<forall>x. dec (enc x) = Some x"
    and "Key cspec = key" "Key sspec = key" "length key = keyLen"
  shows "lossless dec key s p"
  using assms(1)
proof (induction arbitrary: p)
  case calm_start
  have "buf (rt_batcher (side (sys_init cspec sspec) p)) = []"
    by (simp add: sys_init_def newServerLink_def newClientLink_def newLinkRuntime_def NewBatcher_def newBatcher_def Let_def)
  then show ?case by (intro losslessI [where fs = "[]"]) (simp_all add: sys_init_def)
next
  case (calm_write s q i d u now m b)
  have "sys_inv dec key s" by (rule sys_reach_inv [OF calm_sys_reach [OF calm_write.hyps(1)] assms(2-)])
  then have "tx_ok (written s q) (rt_mux (side s q))" by (simp add: sys_inv_def side_inv_def)
  from lossless_write [OF calm_write.IH this calm_write.hyps(2,3,5)] show ?case
    by (cases "p = q") (simp, rule lossless_same [OF calm_write.IH], simp_all)
next
  case (calm_flush s q rnd grow now es lr)
  have "sys_inv dec key s" by (rule sys_reach_inv [OF calm_sys_reach [OF calm_flush.hyps(1)] assms(2-)])
  then have k: "b_key (rt_batcher (side s q)) = key" by (simp add: sys_inv_def side_inv_def)
  let ?s = "s\<lparr>side := (side s)(q := lr), posted := (posted s)(q := posted s q \<union> set es)\<rparr>"
  obtain fs where fs: "buf (rt_batcher (side s q)) = concat (map Frame_Marshal fs)" "\<forall>f \<in> set fs. length (Payload f) < 2 ^ 24"
    and w: "\<forall>i. \<forall>n < length (written s q i). data_frame i n (written s q i ! n) \<in> set fs \<union> carried dec key s q"
    using calm_flush.IH [of q] unfolding lossless_def by blast
  obtain b where "lr = (side s q)\<lparr>rt_batcher := b\<rparr>" "buf b = []" "set fs \<subseteq> (\<Union>e \<in> set es. set (open_batch dec key e))"
    using ship_posts [where enc = enc and dec = dec and key = key and rnd = rnd and lr = "side s q" and fs = fs and grow = grow and now = now]
      assms(2,5) calm_flush.hyps(2-4) k fs by fastforce
  then have lr: "lr = (side s q)\<lparr>rt_batcher := b\<rparr>" "buf b = []" and out: "set fs \<union> carried dec key s q \<subseteq> carried dec key ?s q"
    by (auto simp: carried_def)
  have "data_frame i n (written ?s q i ! n) \<in> set [] \<union> carried dec key ?s q" if "n < length (written ?s q i)" for i n
    using w out that by auto
  then have "lossless dec key ?s q" by (intro losslessI [where fs = "[]"]) (simp_all add: lr)
  moreover have "lossless dec key ?s p" if "p \<noteq> q" by (rule lossless_same [OF calm_flush.IH]) (use that in simp_all)
  ultimately show ?case by blast
next
  case (calm_other s s')
  show ?case
    using calm_other.hyps(2)
  proof cases
    case (control f u now q urgent ok b)
    obtain fs where fs: "buf (rt_batcher (side s q)) = concat (map Frame_Marshal fs)" "\<forall>f \<in> set fs. length (Payload f) < 2 ^ 24"
      and w: "\<forall>i. \<forall>n < length (written s q i). data_frame i n (written s q i ! n) \<in> set fs \<union> carried dec key s q"
      using calm_other.IH [of q] unfolding lossless_def by blast
    have "buf b = concat (map Frame_Marshal (if ok then fs @ [f] else fs))"
      using admitted.queued [of u now "rt_batcher (side s q)" f urgent] control(4) fs(1) by simp
    then have "lossless dec key s' q"
      using fs(2) control(3) w by (intro losslessI [where fs = "if ok then fs @ [f] else fs"]) (auto simp: control(1) carried_def)
    moreover have "lossless dec key s' p" if "p \<noteq> q" by (rule lossless_same [OF calm_other.IH]) (use that in \<open>simp_all add: control(1)\<close>)
    ultimately show ?thesis by blast
  next
    case (app_write q i d u now ok m b)
    have "written s' q i = written s q i" using calm_other.hyps(3) by simp
    then show ?thesis by (simp add: app_write(1))
  next
    case (flush q rnd grow now es lr)
    have key: "b_key (rt_batcher (side s q)) = key" "queue_ok (written s q) (rt_batcher (side s q))"
      using sys_reach_inv [OF calm_sys_reach [OF calm_other.hyps(1)] assms(2-)] by (simp_all add: sys_inv_def side_inv_def)
    have "buf (rt_batcher lr) = buf (rt_batcher (side s q))"
    proof (cases "buf (rt_batcher (side s q)) = []")
      case True
      then show ?thesis using flush(4) by (auto simp: ship_def Flush_def flush_take_def)
    next
      case False
      obtain j b where j: "Flush grow now (rt_batcher (side s q)) = (Some j, b)" "buf b = []"
        using Flush_nonempty [OF False] by blast
      have "buf (rt_batcher lr) = []" using flush(4) j
        by (auto simp: ship_def job_done_def putBuf_def Let_def split: option.splits prod.splits)
      then show ?thesis using calm_other.hyps(4) [of q] False by (simp add: flush(1))
    qed
    then show ?thesis by (intro lossless_same [OF calm_other.IH]) (auto simp: flush(1))
  next
    case (arrive e q now lr as)
    have "rt_batcher lr = rt_batcher (side s q)" using arrive(3) by (auto simp: recvLoop_def split: prod.splits)
    then show ?thesis by (intro lossless_same [OF calm_other.IH]) (auto simp: arrive(1))
  qed (auto intro!: lossless_same [OF calm_other.IH])
qed


subsection \<open>The channel delivers\<close>

lemma synced_length: "synced w d c \<Longrightarrow> length d = unat (recvExpected c)"
  by (auto simp: synced_def dest: in_sync_expected_le)

text \<open>The frame a connection waits for moves it on.\<close>

lemma HandleFrame_advances:
  assumes "rx_ok W D m" "GetConn m i \<noteq> None" "n < length (W i)" "n \<le> length (D i)"
    and "HandleFrame now m (data_frame i n (W i ! n)) = (m', a)"
  shows "n < length (D i @ pushes i [a])"
proof -
  obtain c where c: "GetConn m i = Some c" using assms(2) by blast
  then have "synced (W i) (D i) (MarkUsed now c)" using assms(1) by (simp add: rx_ok_def)
  then obtain R where R: "in_sync (\<lambda>n. W i ! n) (length (W i)) R (MarkUsed now c)"
    and at: "length (D i) = unat (recvExpected (MarkUsed now c))" using synced_length unfolding synced_def by blast
  obtain c' ds where d: "deliverOrdered (MarkUsed now c) (of_nat n) (W i ! n) = (c', ds)" by fastforce
  have kept: "in_sync (\<lambda>n. W i ! n) (length (W i)) (insert n R) c'" "unat (recvExpected (MarkUsed now c)) \<le> unat (recvExpected c')"
    "length ds = unat (recvExpected c') - unat (recvExpected (MarkUsed now c))"
    using deliver_kept [OF R assms(3) _ d] assms(4) at by auto
  then have "unat (recvExpected c') \<noteq> n" by (auto simp: in_sync_def)
  moreover have "a = Push i ds" using assms(5) c d
    by (simp add: HandleFrame_def data_frame_def TypeData_def TypeConnect_def TypeConnectACK_def)
  ultimately show ?thesis using kept(2,3) assms(4) at by simp
qed

lemma handle_frames_advances:
  assumes "rx_ok W D m" "\<forall>f \<in> set fs. sound W f" "GetConn m i \<noteq> None" "n < length (W i)" "n \<le> length (D i)"
    and "handle_frames now fs m = (m', as)" "data_frame i n (W i ! n) \<in> set fs"
  shows "n < length (D i @ pushes i as)"
  using assms
proof (induction fs arbitrary: D m as)
  case (Cons f fs)
  obtain m1 a where a: "HandleFrame now m f = (m1, a)" by fastforce
  obtain as' where as: "handle_frames now fs m1 = (m', as')" "as = a # as'"
    using Cons.prems(6) a by (auto simp: Let_def split: prod.splits)
  have rx: "rx_ok W (\<lambda>i. D i @ pushes i [a]) m1" using HandleFrame_rx [OF Cons.prems(1) _ a] Cons.prems(2) by simp
  have there: "GetConn m1 i \<noteq> None" using HandleFrame_dom [of now m f i] Cons.prems(3) a by simp
  show ?case
  proof (cases "f = data_frame i n (W i ! n)")
    case True
    then have "n < length (D i @ pushes i [a])" using HandleFrame_advances [OF Cons.prems(1,3-5)] a by blast
    then show ?thesis by (simp add: as(2) pushes_Cons [of _ a as'])
  next
    case False
    have "n < length ((D i @ pushes i [a]) @ pushes i as')"
      by (rule Cons.IH [OF rx _ there Cons.prems(4) _ as(1)]) (use Cons.prems False in auto)
    then show ?thesis by (simp add: as(2) pushes_Cons [of _ a as'])
  qed
qed simp

text \<open>One batch arrives: whatever it carries of the stream and was due is delivered, nothing else changes.\<close>

lemma arrive_advances:
  assumes "sys_inv dec key s" "e \<in> posted s p" "data_frame i n (written s p i ! n) \<in> set (open_batch dec key e)"
    and "GetConn (rt_mux (side s (\<not> p))) i \<noteq> None" "n < length (written s p i)" "n \<le> length (pushed s (\<not> p) i)"
  shows "\<exists>s'. sys_step enc dec s s' \<and> written s' = written s \<and> posted s' = posted s
    \<and> GetConn (rt_mux (side s' (\<not> p))) i \<noteq> None \<and> n < length (pushed s' (\<not> p) i)"
proof -
  have inv: "side_inv dec key s p" "side_inv dec key s (\<not> p)" using assms(1) by (simp_all add: sys_inv_def)
  obtain m as where h: "handle_frames 0 (open_batch dec key e) (rt_mux (side s (\<not> p))) = (m, as)" by fastforce
  have "keyed key (side s (\<not> p))" using inv(2) by (simp add: side_inv_def)
  then have recv: "recvLoop dec 0 [e] (side s (\<not> p)) = ((side s (\<not> p))\<lparr>rt_mux := m\<rparr>, as)" using h by (simp add: recvLoop_def)
  have "n < length (pushed s (\<not> p) i @ pushes i as)"
    by (rule handle_frames_advances [where W = "written s p" and D = "pushed s (\<not> p)" and i = i and n = n, OF _ _ assms(4-6) h assms(3)])
      (use inv assms(2) in \<open>simp_all add: side_inv_def\<close>)
  moreover have "GetConn m i \<noteq> None" using handle_frames_dom [of 0 "open_batch dec key e" "rt_mux (side s (\<not> p))" i] h assms(4) by simp
  moreover have "e \<in> posted s (\<not> \<not> p) \<or> open_batch dec (rt_key (side s (\<not> p))) e = []" using assms(2) by simp
  ultimately show ?thesis using sys_step.arrive [OF _ recv, of enc] by fastforce
qed

lemma sys_reach_trans: "sys_reach enc dec s s1 \<Longrightarrow> sys_reach enc dec s1 s2 \<Longrightarrow> sys_reach enc dec s s2"
  by (rotate_tac) (induction rule: sys_reach.induct, auto intro: sys_reach.next_step)

text \<open>What the posts carry can be delivered to the end.\<close>

lemma catch_up:
  assumes "sys_inv dec key s" "\<forall>x. dec (enc x) = Some x" "length key = keyLen"
    and "\<And>n. n < length (written s p i) \<Longrightarrow> data_frame i n (written s p i ! n) \<in> carried dec key s p"
    and "GetConn (rt_mux (side s (\<not> p))) i \<noteq> None"
  shows "\<exists>s'. sys_reach enc dec s s' \<and> written s' = written s \<and> pushed s' (\<not> p) i = written s p i"
  using assms(1,4,5)
proof (induction "length (written s p i) - length (pushed s (\<not> p) i)" arbitrary: s rule: less_induct)
  case less
  have pre: "prefix (pushed s (\<not> p) i) (written s p i)"
    using less.prems(1) [unfolded sys_inv_def, rule_format, of "\<not> p"] by (simp add: side_inv_def rx_ok_def)
  show ?case
  proof (cases "length (pushed s (\<not> p) i) < length (written s p i)")
    case False
    then have "pushed s (\<not> p) i = written s p i" using pre by (auto simp: prefix_def)
    then show ?thesis by (blast intro: sys_reach.start)
  next
    case True
    then obtain e where "e \<in> posted s p" "data_frame i (length (pushed s (\<not> p) i)) (written s p i ! length (pushed s (\<not> p) i)) \<in> set (open_batch dec key e)"
      using less.prems(2) by (auto simp: carried_def)
    from arrive_advances [OF less.prems(1) this less.prems(3) True, of enc]
    obtain s1 where step: "sys_step enc dec s s1" and same: "written s1 = written s" "posted s1 = posted s"
      and there: "GetConn (rt_mux (side s1 (\<not> p))) i \<noteq> None" and on: "length (pushed s (\<not> p) i) < length (pushed s1 (\<not> p) i)"
      by auto
    have "sys_inv dec key s1" by (rule sys_step_inv [OF step less.prems(1) assms(2,3)])
    moreover have "length (written s1 p i) - length (pushed s1 (\<not> p) i) < length (written s p i) - length (pushed s (\<not> p) i)"
      using on True by (simp add: same)
    moreover have "data_frame i n (written s1 p i ! n) \<in> carried dec key s1 p" if "n < length (written s1 p i)" for n
      using less.prems(2) that by (simp add: carried_def same)
    ultimately obtain s' where "sys_reach enc dec s1 s'" "written s' = written s1" "pushed s' (\<not> p) i = written s1 p i"
      using less.hyps [of s1] there by blast
    then show ?thesis using sys_reach_trans [of enc dec s s1 s'] sys_reach.next_step [OF sys_reach.start step] same by auto
  qed
qed


subsection \<open>Properties\<close>

lemma concat_frames_Nil [simp]: "[] = concat (map Frame_Marshal fs) \<longleftrightarrow> fs = []"
  by (cases fs) (auto simp: Frame_Marshal_def)




end
