(* ===== verification/Update_Source.thy ===== *)
theory Update_Source
  imports Poller
begin

text \<open>
  What the poller relies on when it asks an API for updates. Two providers implement the contract
  in this repository: the account transport (\<open>Account_Api\<close>), which keeps an inbox filled by pushes,
  and the in-memory Bot API of the tests (\<open>Fake_Telegram\<close>), which keeps every post. Proved once
  from the contract: repeated polling with the poller's own offset delivers every update exactly
  once and in order.
\<close>

subsection \<open>Runs of a poller against a source\<close>

text \<open>
  A post \<open>'p\<close> becomes the update \<open>upd\<close>. A call of \<open>get\<close> may block, and updates may arrive meanwhile:
  \<open>'w\<close> describes what happens during the call, and \<open>arrivals\<close> are the updates that arrive in it.
\<close>

datatype ('p, 'w) source_event = Post 'p | Poll 'w

fun poll_run ::
  "('w \<Rightarrow> int \<Rightarrow> 's \<Rightarrow> (go_error + update list) \<times> 's) \<Rightarrow> ('w \<Rightarrow> int \<Rightarrow> 's \<Rightarrow> update list) \<Rightarrow> ('p \<Rightarrow> 's \<Rightarrow> update) \<Rightarrow> ('p \<Rightarrow> 's \<Rightarrow> 's)
    \<Rightarrow> ('p, 'w) source_event list \<Rightarrow> poller \<Rightarrow> 's \<Rightarrow> update list \<times> update list \<times> poller \<times> 's" where
  "poll_run get arrivals upd post [] p s = ([], [], p, s)"
| "poll_run get arrivals upd post (Post x # evs) p s =
     (let (del, posted, p', s') = poll_run get arrivals upd post evs p (post x s) in (del, upd x s # posted, p', s'))"
| "poll_run get arrivals upd post (Poll w # evs) p s =
     (let (r, s1) = get w (offset p) s;
          us = (case r of Inl _ \<Rightarrow> [] | Inr us \<Rightarrow> us);
          (del, posted, p', s') = poll_run get arrivals upd post evs (snd (scan_updates us p)) s1
      in (us @ del, arrivals w (offset p) s @ posted, p', s'))"

text \<open>The identifiers of the updates grow, from \<open>n\<close> on.\<close>

definition ids_from :: "int \<Rightarrow> update list \<Rightarrow> bool" where
  "ids_from n us \<longleftrightarrow> sorted_wrt (<) (map UpdateID us) \<and> (\<forall>u \<in> set us. n \<le> UpdateID u)"

lemma ids_from_append:
  "ids_from n (us @ vs) \<longleftrightarrow> ids_from n us \<and> ids_from n vs \<and> (\<forall>u \<in> set us. \<forall>v \<in> set vs. UpdateID u < UpdateID v)"
  by (auto simp: ids_from_def sorted_wrt_append)

lemma ids_from_scan:
  assumes "ids_from (offset p) (us @ vs)"
  shows "ids_from (offset (snd (scan_updates us p))) vs"
    and "\<forall>u \<in> set us. UpdateID u < offset (snd (scan_updates us p))"
    and "offset p \<le> offset (snd (scan_updates us p))"
proof -
  let ?n = "offset (snd (scan_updates us p))"
  show "\<forall>u \<in> set us. UpdateID u < ?n"
  proof
    fix u assume "u \<in> set us"
    then have "UpdateID u + 1 \<le> ?n" unfolding scan_offset by (intro Max_ge) auto
    then show "UpdateID u < ?n" by simp
  qed
  show "offset p \<le> ?n" by (simp add: scan_offset)
  show "ids_from ?n vs" using assms by (auto simp: ids_from_def scan_offset sorted_wrt_append add1_zle_eq)
qed

subsection \<open>The contract\<close>

locale update_source =
  fixes get :: "'w \<Rightarrow> int \<Rightarrow> 's \<Rightarrow> (go_error + update list) \<times> 's"
    and arrivals :: "'w \<Rightarrow> int \<Rightarrow> 's \<Rightarrow> update list"
    and upd :: "'p \<Rightarrow> 's \<Rightarrow> update"
    and post :: "'p \<Rightarrow> 's \<Rightarrow> 's"
    and visible :: "int \<Rightarrow> 's \<Rightarrow> update list"
  assumes visible_filter: "n \<le> m \<Longrightarrow> visible m s = filter (\<lambda>u. m \<le> UpdateID u) (visible n s)"
    and post_visible: "visible n (post x s) = visible n s @ (if n \<le> UpdateID (upd x s) then [upd x s] else [])"
    and get_keeps: "n \<le> m \<Longrightarrow> visible m (snd (get w n s)) = visible m s @ filter (\<lambda>u. m \<le> UpdateID u) (arrivals w n s)"
    and get_answer: "fst (get w n s) = Inr us \<Longrightarrow> us = [] \<or> us = visible n (snd (get w n s))"
begin

lemma poll_exactly_once:
  assumes "poll_run get arrivals upd post evs p s = (del, posted, p', s')"
    and "ids_from (offset p) (visible (offset p) s @ posted)"
  shows "del @ visible (offset p') s' = visible (offset p) s @ posted"
  using assms
proof (induction evs arbitrary: p s del posted)
  case Nil
  then show ?case by simp
next
  case (Cons ev evs)
  show ?case
  proof (cases ev)
    case (Post x)
    obtain posted' where r: "poll_run get arrivals upd post evs p (post x s) = (del, posted', p', s')" "posted = upd x s # posted'"
      using Cons.prems(1) by (auto simp: Post split: prod.splits)
    have "visible (offset p) (post x s) = visible (offset p) s @ [upd x s]"
      using Cons.prems(2) r(2) by (simp add: post_visible ids_from_def)
    then show ?thesis using Cons.IH [OF r(1)] Cons.prems(2) r(2) by simp
  next
    case (Poll w)
    obtain ans s1 where g: "get w (offset p) s = (ans, s1)" by fastforce
    define us where "us = (case ans of Inl _ \<Rightarrow> [] | Inr us \<Rightarrow> us)"
    define p1 where "p1 = snd (scan_updates us p)"
    let ?A = "arrivals w (offset p) s" and ?vis = "visible (offset p) s"
    obtain del' posted' where r: "poll_run get arrivals upd post evs p1 s1 = (del', posted', p', s')"
        "del = us @ del'" "posted = ?A @ posted'"
      using Cons.prems(1) g by (auto simp: Poll us_def p1_def Let_def split: prod.splits)
    have A: "\<forall>u \<in> set ?A. offset p \<le> UpdateID u" using Cons.prems(2) r(3) by (simp add: ids_from_def)
    have vis1: "visible (offset p) s1 = ?vis @ ?A"
      using get_keeps [of "offset p" "offset p" w s] A g by (simp add: filter_id_conv)
    have us: "us = [] \<or> us = ?vis @ ?A"
      using get_answer [of w "offset p" s] g vis1 by (auto simp: us_def split: sum.splits)
    obtain rest where rest: "?vis @ ?A = us @ rest" "us = [] \<or> rest = []" using us by auto
    have inc: "ids_from (offset p) (us @ (rest @ posted'))"
      using Cons.prems(2) unfolding r(3) by (simp flip: rest(1) append_assoc)
    have off: "offset p \<le> offset p1" using ids_from_scan(3) [OF inc] by (simp add: p1_def)
    have "visible (offset p1) s1 = filter (\<lambda>u. offset p1 \<le> UpdateID u) (us @ rest)"
      using visible_filter [OF off, of s1] vis1 rest(1) by simp
    also have "\<dots> = rest"
    proof -
      have "filter (\<lambda>u. offset p1 \<le> UpdateID u) us = []"
        using ids_from_scan(2) [OF inc] by (auto simp: p1_def filter_empty_conv)
      moreover have "filter (\<lambda>u. offset p1 \<le> UpdateID u) rest = rest"
        using ids_from_scan(1) [OF inc] by (auto simp: p1_def ids_from_def filter_id_conv)
      ultimately show ?thesis by simp
    qed
    finally have v: "visible (offset p1) s1 = rest" .
    have "ids_from (offset p1) (visible (offset p1) s1 @ posted')"
      unfolding v using ids_from_scan(1) [OF inc] by (simp add: p1_def)
    from Cons.IH [OF r(1) this] show ?thesis using rest(1) by (simp add: r v)
  qed
qed

end

end
