(* ===== verification/Account_Api.thy ===== *)
theory Account_Api
  imports Update_Source
begin

text \<open>
  \<^verbatim>\<open>telegram/account.go\<close>: the transport over a user account. The MTProto client (gotd) is third-party
  code: its calls are the fields of \<open>mtproto\<close>, over a state \<open>'s\<close> of the network. Modelled are the
  inbox that turns pushed messages into the polling contract, the document cache, the lookup of
  the channel and the two sends. A channel for notifications is its generation number: \<^verbatim>\<open>push\<close>
  closes the current one and makes the next.
\<close>

subsection \<open>Data\<close>

definition connectTimeout :: duration where "connectTimeout = 30 * Second"

record account =
  ac_channelID :: int
  ac_peerUserID :: int
  ac_selfID :: int
  inbox :: "update list"
  notifyCh :: nat
  docCache :: "string \<Rightarrow> bytes option"
  ac_peer :: "(go_error + int \<times> int) option"

definition rawChannelID :: "int \<Rightarrow> int" where
  "rawChannelID botAPIChannelID = int64 (- botAPIChannelID - 1000000000000)"

text \<open>How the synchronous part of the connection ends.\<close>

datatype auth_result = AuthFailed go_error | NotAuthorized | LoggedIn int | ConnectTimedOut

definition NewAccountAPI :: "auth_result \<Rightarrow> int \<Rightarrow> int \<Rightarrow> go_error + account" where
  "NewAccountAPI ready channelID peerUserID =
     (case ready of
        AuthFailed e \<Rightarrow> Inl (WrappedError ''check auth status'' e)
      | NotAuthorized \<Rightarrow> Inl (PlainError ''account session is not logged in - run `vtel account login` first'')
      | ConnectTimedOut \<Rightarrow> Inl (PlainError ''connect to Telegram: timed out'')
      | LoggedIn self \<Rightarrow>
          Inr \<lparr>ac_channelID = rawChannelID channelID, ac_peerUserID = peerUserID, ac_selfID = self,
               inbox = [], notifyCh = 0, docCache = Map.empty, ac_peer = None\<rparr>)"

subsection \<open>The inbox\<close>

definition push :: "update \<Rightarrow> account \<Rightarrow> account" where
  "push u a = a\<lparr>inbox := inbox a @ [u], notifyCh := notifyCh a + 1\<rparr>"

text \<open>
  One wait of \<^verbatim>\<open>GetUpdates\<close>: the updates pushed while it lasts, and what ends it. A wake-up by the
  channel needs a push since the scan; without one the wait goes on, which is the same as
  scanning again. When the list is used up the deadline has passed.
\<close>

datatype wake = Notified | Expired | Cancelled

type_synonym waits = "(update list \<times> wake) list"

fun GetUpdates :: "waits \<Rightarrow> int \<Rightarrow> account \<Rightarrow> (go_error + update list) \<times> account" where
  "GetUpdates [] off a =
     (let ready = filter (\<lambda>u. off \<le> UpdateID u) (inbox a) in (Inr ready, a\<lparr>inbox := ready\<rparr>))"
| "GetUpdates ((us, w) # ws) off a =
     (let ready = filter (\<lambda>u. off \<le> UpdateID u) (inbox a);
          a1 = a\<lparr>inbox := ready\<rparr>
      in if ready \<noteq> [] then (Inr ready, a1)
         else let a2 = foldl (\<lambda>a u. push u a) a1 us
              in (case w of
                    Notified \<Rightarrow> GetUpdates ws off a2
                  | Expired \<Rightarrow> (Inr [], a2)
                  | Cancelled \<Rightarrow> (Inl (PlainError ''context canceled''), a2)))"

definition DownloadFile :: "string \<Rightarrow> account \<Rightarrow> (go_error + bytes) \<times> account" where
  "DownloadFile fid a =
     (case docCache a fid of
        None \<Rightarrow> Inl (PlainError (''account transport: no cached document for fileID '' @ fid))
      | Some data \<Rightarrow> Inr data,
      a\<lparr>docCache := (docCache a)(fid := None)\<rparr>)"

definition GetMe :: "account \<Rightarrow> user" where
  "GetMe a = \<lparr>User_ID = ac_selfID a, IsBot = False\<rparr>"

subsection \<open>Received messages\<close>

datatype tg_attribute = AttributeFilename string | OtherAttribute

record tg_document =
  td_ID :: int
  td_Size :: int
  td_Attributes :: "tg_attribute list"

text \<open>A message: its channel (\<open>None\<close>: another kind of peer) and its document, if it has one.\<close>

record tg_message =
  tm_ID :: int
  tm_Channel :: "int option"
  tm_Message :: string
  tm_Document :: "tg_document option"

fun documentFilename :: "tg_attribute list \<Rightarrow> string" where
  "documentFilename [] = ''''"
| "documentFilename (AttributeFilename n # as) = n"
| "documentFilename (OtherAttribute # as) = documentFilename as"

definition document_id :: "account \<Rightarrow> tg_message \<Rightarrow> string" where
  "document_id a msg = ''acct:'' @ fmt_d (ac_channelID a) @ '':'' @ fmt_d (tm_ID msg)"

text \<open>
  The update handler; \<open>None\<close> stands for a service message. \<open>download\<close> is the outcome of
  \<^verbatim>\<open>downloadDocument\<close> for this message.
\<close>

definition onNewChannelMessage ::
  "(tg_document \<Rightarrow> go_error + bytes) \<Rightarrow> tg_message option \<Rightarrow> account \<Rightarrow> account" where
  "onNewChannelMessage download m a =
     (case m of
        None \<Rightarrow> a
      | Some msg \<Rightarrow>
          if tm_Channel msg \<noteq> Some (ac_channelID a) then a
          else
            let cp = \<lparr>MessageID = tm_ID msg, Chat_ID = int64 (- ac_channelID a - 1000000000000),
                      From = (if ac_peerUserID a \<noteq> 0 then Some \<lparr>User_ID = ac_peerUserID a, IsBot = False\<rparr> else None),
                      Text = tm_Message msg, Document = None, SenderChat = None\<rparr>
            in case tm_Document msg of
                 None \<Rightarrow> push \<lparr>UpdateID = tm_ID msg, ChannelPost = Some cp\<rparr> a
               | Some doc \<Rightarrow>
                   (case download doc of
                      Inl _ \<Rightarrow> a
                    | Inr data \<Rightarrow>
                        let fid = document_id a msg;
                            d = \<lparr>FileID = fid, FileName = documentFilename (td_Attributes doc), FileSize = td_Size doc\<rparr>
                        in push \<lparr>UpdateID = tm_ID msg, ChannelPost = Some (cp\<lparr>Document := Some d\<rparr>)\<rparr>
                             (a\<lparr>docCache := (docCache a)(fid \<mapsto> data)\<rparr>)))"

subsection \<open>Sending\<close>

datatype tg_chat = TgChannel int int | TgOtherChat

text \<open>
  The calls of the client library: the first page of dialogs (\<open>None\<close>: a response of another type),
  a random number, the sends, the upload, the request for the account itself, and whether an
  error is a FLOOD_WAIT.
\<close>

record 's mtproto =
  mt_dialogs :: "'s \<Rightarrow> (go_error + tg_chat list option) \<times> 's"
  mt_rand :: "'s \<Rightarrow> (go_error + int) \<times> 's"
  mt_sendMessage :: "int \<times> int \<Rightarrow> string \<Rightarrow> int \<Rightarrow> 's \<Rightarrow> go_error option \<times> 's"
  mt_upload :: "string \<Rightarrow> bytes \<Rightarrow> 's \<Rightarrow> (go_error + int) \<times> 's"
  mt_sendMedia :: "int \<times> int \<Rightarrow> int \<Rightarrow> string \<Rightarrow> int \<Rightarrow> 's \<Rightarrow> go_error option \<times> 's"
  mt_self :: "'s \<Rightarrow> go_error option \<times> 's"
  mt_floodWait :: "go_error \<Rightarrow> duration option"

definition floodRetryAfter :: "'s mtproto \<Rightarrow> go_error option \<Rightarrow> int \<times> go_error option" where
  "floodRetryAfter mt err =
     (case err of
        None \<Rightarrow> (0, None)
      | Some e \<Rightarrow> (case mt_floodWait mt e of Some d \<Rightarrow> (quot64 d Second, Some e) | None \<Rightarrow> (0, Some e)))"

fun find_channel :: "int \<Rightarrow> tg_chat list \<Rightarrow> (int \<times> int) option" where
  "find_channel i [] = None"
| "find_channel i (TgOtherChat # cs) = find_channel i cs"
| "find_channel i (TgChannel j h # cs) = (if j = i then Some (j, h) else find_channel i cs)"

definition resolvePeer :: "'s mtproto \<Rightarrow> account \<Rightarrow> 's \<Rightarrow> (go_error + int \<times> int) \<times> account \<times> 's" where
  "resolvePeer mt a s =
     (case ac_peer a of
        Some r \<Rightarrow> (r, a, s)
      | None \<Rightarrow>
          let (resp, s1) = mt_dialogs mt s;
              r = (case resp of
                     Inl e \<Rightarrow> Inl (WrappedError ''get dialogs'' e)
                   | Inr None \<Rightarrow> Inl (PlainError ''get dialogs: unexpected response type'')
                   | Inr (Some chats) \<Rightarrow>
                       (case find_channel (ac_channelID a) chats of
                          Some peer \<Rightarrow> Inr peer
                        | None \<Rightarrow> Inl (PlainError ''channel not found among the first dialogs'')))
          in (r, a\<lparr>ac_peer := Some r\<rparr>, s1))"

definition SendMessage :: "'s mtproto \<Rightarrow> string \<Rightarrow> account \<Rightarrow> 's \<Rightarrow> (int \<times> go_error option) \<times> account \<times> 's" where
  "SendMessage mt text a s =
     (case resolvePeer mt a s of
        (Inl e, a1, s1) \<Rightarrow> ((0, Some e), a1, s1)
      | (Inr peer, a1, s1) \<Rightarrow>
          (case mt_rand mt s1 of
             (Inl e, s2) \<Rightarrow> ((0, Some e), a1, s2)
           | (Inr rid, s2) \<Rightarrow>
               let (err, s3) = mt_sendMessage mt peer text rid s2 in (floodRetryAfter mt err, a1, s3)))"

definition SendDocument ::
  "'s mtproto \<Rightarrow> string \<Rightarrow> bytes \<Rightarrow> account \<Rightarrow> 's \<Rightarrow> (int \<times> go_error option) \<times> account \<times> 's" where
  "SendDocument mt filename data a s =
     (if MaxSendDocumentSize < length data then
        ((0, Some (PlainError (''document size '' @ fmt_d (int (length data)) @ '' exceeds the document size limit''))), a, s)
      else case resolvePeer mt a s of
        (Inl e, a1, s1) \<Rightarrow> ((0, Some e), a1, s1)
      | (Inr peer, a1, s1) \<Rightarrow>
          (case mt_upload mt filename data s1 of
             (Inl e, s2) \<Rightarrow> (floodRetryAfter mt (Some e), a1, s2)
           | (Inr file, s2) \<Rightarrow>
               (case mt_rand mt s2 of
                  (Inl e, s3) \<Rightarrow> ((0, Some e), a1, s3)
                | (Inr rid, s3) \<Rightarrow>
                    let (err, s4) = mt_sendMedia mt peer file filename rid s3 in (floodRetryAfter mt err, a1, s4))))"

definition WarmConnection :: "'s mtproto \<Rightarrow> account \<Rightarrow> 's \<Rightarrow> go_error option \<times> 's" where
  "WarmConnection mt a s = mt_self mt s"

subsection \<open>The inbox keeps the polling contract\<close>

definition visible :: "int \<Rightarrow> account \<Rightarrow> update list" where
  "visible n a = filter (\<lambda>u. n \<le> UpdateID u) (inbox a)"

fun arrivals :: "waits \<Rightarrow> int \<Rightarrow> account \<Rightarrow> update list" where
  "arrivals [] n a = []"
| "arrivals ((us, w) # ws) n a =
     (if visible n a \<noteq> [] then []
      else us @ (if w = Notified then arrivals ws n (foldl (\<lambda>a u. push u a) (a\<lparr>inbox := []\<rparr>) us) else []))"

lemma inbox_pushes [simp]: "inbox (foldl (\<lambda>a u. push u a) a us) = inbox a @ us"
  by (induction us arbitrary: a) (simp_all add: push_def)

lemma visible_pushes: "visible n (foldl (\<lambda>a u. push u a) a us) = visible n a @ filter (\<lambda>u. n \<le> UpdateID u) us"
  by (simp add: visible_def)

lemma GetUpdates_visible:
  assumes "n \<le> m"
  shows "visible m (snd (GetUpdates ws n a)) = visible m (foldl (\<lambda>a u. push u a) a (arrivals ws n a))"
  using assms
proof (induction ws n a rule: GetUpdates.induct)
  case (1 off a)
  then show ?case by (auto simp: visible_def Let_def intro: filter_cong)
next
  case (2 us w ws off a)
  let ?a2 = "foldl (\<lambda>a u. push u a) (a\<lparr>inbox := []\<rparr>) us"
  have none: "filter (\<lambda>u. m \<le> UpdateID u) (inbox a) = []" if "filter (\<lambda>u. off \<le> UpdateID u) (inbox a) = []"
    using that 2(2) by (auto simp: filter_empty_conv)
  show ?case
  proof (cases "filter (\<lambda>u. off \<le> UpdateID u) (inbox a) = [] \<and> w = Notified")
    case True
    then have "visible m (snd (GetUpdates ws off ?a2)) = visible m (foldl (\<lambda>a u. push u a) ?a2 (arrivals ws off ?a2))"
      using 2 by (simp add: Let_def)
    then show ?thesis using True none by (simp add: visible_def Let_def)
  next
    case False
    show ?thesis
    proof (cases "filter (\<lambda>u. off \<le> UpdateID u) (inbox a) = []")
      case True
      then show ?thesis using False none by (cases w) (simp_all add: visible_def)
    next
      case ne: False
      then show ?thesis using 2(2) by (auto simp: visible_def Let_def intro: filter_cong)
    qed
  qed
qed

lemma GetUpdates_answer:
  "fst (GetUpdates ws n a) = Inr us \<Longrightarrow> us = [] \<or> us = visible n (snd (GetUpdates ws n a))"
  by (induction ws n a rule: GetUpdates.induct)
    (auto simp: visible_def Let_def split: if_splits wake.splits)

interpretation account: update_source GetUpdates arrivals "\<lambda>u a. u" push visible
proof unfold_locales
  fix n m :: int and a assume "n \<le> m"
  then show "visible m a = filter (\<lambda>u. m \<le> UpdateID u) (visible n a)"
    by (auto simp: visible_def intro: filter_cong)
  from \<open>n \<le> m\<close> show "visible m (snd (GetUpdates w n a)) = visible m a @ filter (\<lambda>u. m \<le> UpdateID u) (arrivals w n a)" for w
    by (simp add: GetUpdates_visible visible_pushes)
next
  show "visible n (push u a) = visible n a @ (if n \<le> UpdateID u then [u] else [])" for n u a
    by (simp add: visible_def push_def)
  show "fst (GetUpdates w n a) = Inr us \<Longrightarrow> us = [] \<or> us = visible n (snd (GetUpdates w n a))" for w n a us
    by (rule GetUpdates_answer)
qed

text \<open>The handler pushes at most one update, of the message's number and the configured channel.\<close>

lemma rawChannelID_inverse: "- (2 ^ 63) \<le> c \<Longrightarrow> c < 2 ^ 63 \<Longrightarrow> int64 (- rawChannelID c - 1000000000000) = c"
proof -
  assume c: "- (2 ^ 63) \<le> c" "c < 2 ^ 63"
  let ?x = "- c - 1000000000000 + 2 ^ 63 :: int"
  have "int64 (- rawChannelID c - 1000000000000) = ((2 ^ 64 - 1000000000000) - ?x mod 2 ^ 64) mod 2 ^ 64 - 2 ^ 63"
    by (simp add: rawChannelID_def int64_def algebra_simps)
  also have "\<dots> = (c + 2 ^ 63) mod 2 ^ 64 - 2 ^ 63" unfolding mod_diff_right_eq by (simp add: add.commute)
  also have "\<dots> = c" using c by simp
  finally show ?thesis .
qed

lemma onNewChannelMessage_inbox:
  "inbox (onNewChannelMessage download m a) = inbox a
   \<or> (\<exists>msg cp. m = Some msg \<and> inbox (onNewChannelMessage download m a) = inbox a @ [\<lparr>UpdateID = tm_ID msg, ChannelPost = Some cp\<rparr>]
        \<and> Chat_ID cp = int64 (- ac_channelID a - 1000000000000) \<and> Text cp = tm_Message msg)"
  by (auto simp: onNewChannelMessage_def push_def Let_def split: option.split sum.split)

subsection \<open>The document cache\<close>

lemma GetUpdates_docCache: "docCache (snd (GetUpdates ws n a)) = docCache a"
proof -
  have "docCache (foldl (\<lambda>a u. push u a) a us) = docCache a" for us a
    by (induction us arbitrary: a) (simp_all add: push_def)
  then show ?thesis
    by (induction ws n a rule: GetUpdates.induct) (auto simp: Let_def split: wake.split)
qed

interpretation docs: file_store DownloadFile docCache
  by unfold_locales (simp_all add: DownloadFile_def)

definition wants :: "batch_item list \<Rightarrow> string \<Rightarrow> bool" where
  "wants items fid \<longleftrightarrow> (\<exists>it \<in> set items. item_data it = None \<and> fileID it = fid)"

lemma wants_simps [simp]:
  "wants [] fid = False"
  "wants (it # items) fid \<longleftrightarrow> item_data it = None \<and> fileID it = fid \<or> wants items fid"
  by (auto simp: wants_def)

lemma deliver_docCache:
  "docCache (snd (deliver_items DownloadFile items a)) fid = (if wants items fid then None else docCache a fid)"
proof (induction items arbitrary: a)
  case (Cons it items)
  then show ?case
    by (auto simp: DownloadFile_def Let_def split_beta split: option.split sum.split)
qed simp

subsection \<open>Properties\<close>

text \<open>
  C13. Polling the account's inbox with the poller's offset loses and repeats nothing: however the
  pushes interleave with the polls and fall into their waits, and however the waits end, the
  updates delivered so far followed by those still in the inbox are the pushed updates in their
  order, provided the message numbers grow.
\<close>

theorem account_polls_exactly_once:
  assumes "NewAccountAPI (LoggedIn self) ch peer = Inr a"
    and "poll_run GetUpdates arrivals (\<lambda>u a. u) push evs (NewPoller peer ch) a = (del, posted, p', a')"
    and "ids_from 0 posted"
  shows "del @ visible (offset p') a' = posted"
proof -
  have v: "visible 0 a = []" using assms(1) by (auto simp: NewAccountAPI_def visible_def)
  have o: "offset (NewPoller peer ch) = 0" by (simp add: NewPoller_def)
  show ?thesis using account.poll_exactly_once [OF assms(2)] assms(3) unfolding o v by simp
qed

theorem account_polls_exactly_once_witness:
  "let a = \<lparr>ac_channelID = rawChannelID (-100), ac_peerUserID = 5, ac_selfID = 9, inbox = [], notifyCh = 0,
            docCache = Map.empty, ac_peer = None\<rparr>;
       u = (\<lambda>n. \<lparr>UpdateID = n, ChannelPost = None\<rparr>)
   in case poll_run GetUpdates arrivals (\<lambda>u a. u) push [Post (u 1), Poll [], Post (u 2), Poll [([], Notified)], Poll [([u 3], Expired)]]
        (NewPoller 5 (-100)) a of (del, posted, p', a') \<Rightarrow> del = [u 1, u 2] \<and> posted = [u 1, u 2, u 3] \<and> visible (offset p') a' = [u 3]"
proof -
  define a where "a = \<lparr>ac_channelID = rawChannelID (-100), ac_peerUserID = 5, ac_selfID = 9, inbox = [], notifyCh = 0,
            docCache = Map.empty, ac_peer = None\<rparr>"
  define u where "u = (\<lambda>n. \<lparr>UpdateID = n, ChannelPost = None\<rparr>)"
  let ?evs = "[Post (u 1), Poll [], Post (u 2), Poll [([], Notified)], Poll [([u 3], Expired)]]"
  have new: "NewAccountAPI (LoggedIn 9) (-100) 5 = Inr a" by (simp add: NewAccountAPI_def a_def)
  have "\<exists>p' a'. poll_run GetUpdates arrivals (\<lambda>u a. u) push ?evs (NewPoller 5 (-100)) a = ([u 1, u 2], [u 1, u 2, u 3], p', a')"
    by (simp add: NewPoller_def push_def u_def a_def visible_def Let_def)
  then obtain p' a' where r: "poll_run GetUpdates arrivals (\<lambda>u a. u) push ?evs (NewPoller 5 (-100)) a = ([u 1, u 2], [u 1, u 2, u 3], p', a')"
    by blast
  have "ids_from 0 [u 1, u 2, u 3]" by (simp add: ids_from_def u_def)
  from account_polls_exactly_once [OF new r this] have "visible (offset p') a' = [u 3]" by simp
  with r show ?thesis unfolding Let_def a_def [symmetric] u_def [symmetric] by simp
qed

text \<open>
  A message that arrives after a later-numbered one has been polled is lost without a trace:
  with the offset already past its number, every call of \<^verbatim>\<open>GetUpdates\<close> behaves as if it had not
  been pushed, and it is gone from the inbox afterwards.
\<close>

lemma late_update_lost:
  assumes "UpdateID u < off"
  shows "GetUpdates ws off (push u a) = GetUpdates ws off (a\<lparr>notifyCh := notifyCh a + 1\<rparr>)
    \<and> (\<forall>v \<in> set (inbox (snd (GetUpdates [] off (push u a)))). v \<noteq> u)"
proof -
  have "GetUpdates ws off (push u a) = GetUpdates ws off (a\<lparr>notifyCh := notifyCh a + 1\<rparr>)"
    using assms by (cases ws) (auto simp: push_def Let_def)
  then show ?thesis using assms by (auto simp: Let_def)
qed



text \<open>
  C33. A failed channel lookup is final: once \<^verbatim>\<open>resolvePeer\<close> has returned an error, whether the channel
  is missing or the network was down for a moment, every later send fails with that same error
  without any request, however well the network works by then.
\<close>

theorem peer_error_sticky:
  assumes "resolvePeer mt a s = (Inl e, a1, s1)"
  shows "SendMessage mt' text a1 s' = ((0, Some e), a1, s')
    \<and> (length data \<le> MaxSendDocumentSize \<longrightarrow> SendDocument mt' name data a1 s' = ((0, Some e), a1, s'))"
proof -
  have "ac_peer a1 = Some (Inl e)"
    using assms by (auto simp: resolvePeer_def Let_def split: option.splits prod.splits)
  then show ?thesis by (simp add: SendMessage_def SendDocument_def resolvePeer_def)
qed

theorem peer_error_sticky_witness:
  "let down = \<lparr>mt_dialogs = (\<lambda>s. (Inl (PlainError ''timeout''), s)), mt_rand = (\<lambda>s. (Inr 1, s)),
               mt_sendMessage = (\<lambda>_ _ _ s. (None, s)), mt_upload = (\<lambda>_ _ s. (Inr 1, s)),
               mt_sendMedia = (\<lambda>_ _ _ _ s. (None, s)), mt_self = (\<lambda>s. (None, s)), mt_floodWait = (\<lambda>_. None)\<rparr>;
       up = down\<lparr>mt_dialogs := (\<lambda>s. (Inr (Some [TgChannel 7 3]), s))\<rparr>;
       a = \<lparr>ac_channelID = 7, ac_peerUserID = 5, ac_selfID = 9, inbox = [], notifyCh = 0,
            docCache = Map.empty, ac_peer = None\<rparr>;
       a1 = fst (snd (resolvePeer down a ()))
   in SendMessage up ''x'' a1 () = ((0, Some (WrappedError ''get dialogs'' (PlainError ''timeout''))), a1, ())"
proof -
  define down where "down = \<lparr>mt_dialogs = (\<lambda>s :: unit. (Inl (PlainError ''timeout''), s)), mt_rand = (\<lambda>s. (Inr 1, s)),
               mt_sendMessage = (\<lambda>_ _ _ s. (None, s)), mt_upload = (\<lambda>_ _ s. (Inr 1, s)),
               mt_sendMedia = (\<lambda>_ _ _ _ s. (None, s)), mt_self = (\<lambda>s. (None, s)), mt_floodWait = (\<lambda>_. None)\<rparr>"
  define a where "a = \<lparr>ac_channelID = 7, ac_peerUserID = 5, ac_selfID = 9, inbox = [], notifyCh = 0,
            docCache = Map.empty, ac_peer = None\<rparr>"
  have r: "resolvePeer down a () = (Inl (WrappedError ''get dialogs'' (PlainError ''timeout'')), fst (snd (resolvePeer down a ())), ())"
    by (simp add: resolvePeer_def down_def a_def Let_def)
  show ?thesis unfolding Let_def down_def [symmetric] a_def [symmetric] by (rule peer_error_sticky [OF r, THEN conjunct1])
qed

end
