(* ===== verification/Fake_Telegram.thy ===== *)
theory Fake_Telegram
  imports Update_Source Go_Net "HOL-Library.Countable"
begin

text \<open>
  \<^verbatim>\<open>faketelegram/faketelegram.go\<close>: the in-memory Bot API that the smoke test and the benchmark run
  against. The handler is modelled with its routing, the query string and the shared post list;
  the JSON encoder of the answers is a parameter. Two results: polling it delivers every post
  exactly once and in order, and the \<^verbatim>\<open>BotAPI\<close> of \<^verbatim>\<open>telegram/api.go\<close> talking to it behaves like the
  abstract channel behind it.
\<close>

subsection \<open>The server's state\<close>

record fake_post =
  fp_updateID :: int
  fp_fileName :: string
  fp_fileID :: string
  fp_text :: string

record fake =
  F_ChannelID :: int
  nextID :: int
  posts :: "fake_post list"
  files :: "string \<Rightarrow> bytes option"
  botIDs :: "string \<Rightarrow> int option"
  nextBot :: int

definition New :: "int \<Rightarrow> fake" where
  "New channelID =
     \<lparr>F_ChannelID = channelID, nextID = 0, posts = [], files = Map.empty, botIDs = Map.empty, nextBot = 1000\<rparr>"

definition botID :: "string \<Rightarrow> fake \<Rightarrow> int \<times> fake" where
  "botID tok f =
     (case botIDs f tok of
        Some i \<Rightarrow> (i, f)
      | None \<Rightarrow> let i = nextBot f + 1 in (i, f\<lparr>nextBot := i, botIDs := (botIDs f)(tok \<mapsto> i)\<rparr>))"

definition addDocument :: "string \<Rightarrow> bytes \<Rightarrow> fake \<Rightarrow> fake" where
  "addDocument fileName data f =
     (let fid = ''file'' @ fmt_d (nextID f)
      in f\<lparr>files := (files f)(fid \<mapsto> data),
           posts := posts f @ [\<lparr>fp_updateID = nextID f, fp_fileName = fileName, fp_fileID = fid, fp_text = ''''\<rparr>],
           nextID := nextID f + 1\<rparr>)"

definition addText :: "string \<Rightarrow> fake \<Rightarrow> fake" where
  "addText txt f =
     f\<lparr>posts := posts f @ [\<lparr>fp_updateID = nextID f, fp_fileName = '''', fp_fileID = '''', fp_text = txt\<rparr>],
       nextID := nextID f + 1\<rparr>"

definition since :: "int \<Rightarrow> fake \<Rightarrow> fake_post list" where
  "since off f = filter (\<lambda>p. off \<le> fp_updateID p) (posts f)"

definition file_of :: "string \<Rightarrow> fake \<Rightarrow> bytes option" where
  "file_of fid f = files f fid"

text \<open>The update that \<^verbatim>\<open>getUpdates\<close> makes of a post.\<close>

definition fake_update :: "int \<Rightarrow> fake_post \<Rightarrow> update" where
  "fake_update ch p =
     \<lparr>UpdateID = fp_updateID p,
      ChannelPost = Some
        \<lparr>MessageID = fp_updateID p, Chat_ID = ch, From = None,
         Text = (if fp_text p \<noteq> '''' then fp_text p else ''''),
         Document = (if fp_text p \<noteq> '''' then None
                     else Some \<lparr>FileID = fp_fileID p, FileName = fp_fileName p, FileSize = 0\<rparr>),
         SenderChat = None\<rparr>\<rparr>"

subsection \<open>Queries\<close>

text \<open>\<^verbatim>\<open>url.QueryUnescape\<close>; \<open>None\<close> for a malformed escape.\<close>

fun QueryUnescape :: "string \<Rightarrow> string option" where
  "QueryUnescape [] = Some []"
| "QueryUnescape (c # cs) =
     (if c = CHR ''+'' then map_option (\<lambda>r. CHR '' '' # r) (QueryUnescape cs)
      else if c = CHR ''%'' then
        (case cs of
           h # l # rest \<Rightarrow>
             (case (hex_value h, hex_value l) of
                (Some a, Some b) \<Rightarrow> map_option (\<lambda>r. char_of (16 * a + b) # r) (QueryUnescape rest)
              | _ \<Rightarrow> None)
         | _ \<Rightarrow> None)
      else map_option (\<lambda>r. c # r) (QueryUnescape cs))"

definition query_pair :: "string \<Rightarrow> (string \<times> string) option" where
  "query_pair kv =
     (if kv = '''' \<or> CHR '';'' \<in> set kv then None
      else case (QueryUnescape (takeWhile (\<lambda>c. c \<noteq> CHR ''='') kv), QueryUnescape (drop 1 (dropWhile (\<lambda>c. c \<noteq> CHR ''='') kv))) of
        (Some k, Some v) \<Rightarrow> Some (k, v)
      | _ \<Rightarrow> None)"

text \<open>\<^verbatim>\<open>r.URL.Query().Get(key)\<close>: the first value, or the empty string.\<close>

definition QueryGet :: "string \<Rightarrow> string \<Rightarrow> string" where
  "QueryGet q key =
     (case map_of (List.map_filter query_pair (split_on (CHR ''&'') q)) key of None \<Rightarrow> '''' | Some v \<Rightarrow> v)"

text \<open>
  \<^verbatim>\<open>n, _ := strconv.Atoi(s)\<close> with its error dropped: zero for what is no number, the nearest value
  for one that is too large.
\<close>

definition Atoi :: "string \<Rightarrow> int" where
  "Atoi s =
     (let minus = HasPrefix s ''-'';
          ds = (if minus \<or> HasPrefix s ''+'' then drop 1 s else s);
          v = int (dec_value ds)
      in if ds = '''' \<or> \<not> list_all is_digit ds then 0
         else if minus then max (- (2 ^ 63)) (- v) else min (2 ^ 63 - 1) v)"

subsection \<open>The handler\<close>

definition NotFound :: bytes where
  "NotFound = bytes_of_string ''404 page not found'' @ [0x0A]"

definition bot_method ::
  "(api_result \<Rightarrow> bytes) \<Rightarrow> http_request \<Rightarrow> string \<Rightarrow> string \<Rightarrow> string \<Rightarrow> fake \<Rightarrow> http_reply \<times> fake" where
  "bot_method writeOK req tok method query f =
     (if method = ''getMe'' then
        let (i, f') = botID tok f in (Body (writeOK (ResultUser \<lparr>User_ID = i, IsBot = True\<rparr>)), f')
      else if method = ''sendMessage'' then
        (case req of
           SendMessageReq _ _ txt \<Rightarrow> (Body (writeOK ResultOther), addText txt f)
         | _ \<Rightarrow> (Body (bytes_of_string ''unexpected end of JSON input''), f))
      else if method = ''sendDocument'' then
        (case req of
           SendDocumentReq _ _ name data \<Rightarrow> (Body (writeOK ResultOther), addDocument name data f)
         | _ \<Rightarrow> (Body (bytes_of_string ''bad content-type''), f))
      else if method = ''getUpdates'' then
        (Body (writeOK (ResultUpdates (map (fake_update (F_ChannelID f)) (since (Atoi (QueryGet query ''offset'')) f)))), f)
      else if method = ''getFile'' then
        (Body (writeOK (ResultFile (QueryGet query ''file_id''))), f)
      else (Body NotFound, f))"

definition handler ::
  "(api_result \<Rightarrow> bytes) \<Rightarrow> http_request \<Rightarrow> string \<Rightarrow> string \<Rightarrow> fake \<Rightarrow> http_reply \<times> fake" where
  "handler writeOK req path query f =
     (if HasPrefix path ''/file/bot'' then
        (case SplitN2 (TrimPrefix path ''/file/bot'') (CHR ''/'') of
           [_, fid] \<Rightarrow> (case file_of fid f of None \<Rightarrow> (Body NotFound, f) | Some data \<Rightarrow> (Body data, f))
         | _ \<Rightarrow> (Body NotFound, f))
      else if \<not> HasPrefix path ''/bot'' then (Body NotFound, f)
      else case SplitN2 (TrimPrefix path ''/bot'') (CHR ''/'') of
        [tok, method] \<Rightarrow> bot_method writeOK req tok method query f
      | _ \<Rightarrow> (Body NotFound, f))"

text \<open>The HTTP client whose server at \<open>base\<close> is this one.\<close>

fun request_url :: "http_request \<Rightarrow> string" where
  "request_url (SendMessageReq url _ _) = url"
| "request_url (SendDocumentReq url _ _ _) = url"
| "request_url (GetReq url) = url"

definition fake_http :: "(api_result \<Rightarrow> bytes) \<Rightarrow> string \<Rightarrow> fake http_client" where
  "fake_http writeOK base req f =
     (if HasPrefix (request_url req) base then
        let rest = drop (length base) (request_url req)
        in handler writeOK req (takeWhile (\<lambda>c. c \<noteq> CHR ''?'') rest) (drop 1 (dropWhile (\<lambda>c. c \<noteq> CHR ''?'') rest)) f
      else (HttpFail ''connection refused'', f))"

subsection \<open>Numbers and queries\<close>

lemma Atoi_fmt_d:
  assumes "- (2 ^ 63) \<le> i" "i < 2 ^ 63"
  shows "Atoi (fmt_d i) = i"
proof (cases "i < 0")
  case True
  have "HasPrefix (CHR ''-'' # dec_nat (nat (- i))) ''-''" by (simp add: HasPrefix_def)
  then show ?thesis using True assms dec_nat_digits [of "nat (- i)"]
    by (simp add: Atoi_def fmt_d_def Let_def list_all_iff)
next
  case False
  then show ?thesis using assms dec_nat_digits [of "nat i"]
    by (simp add: Atoi_def fmt_d_def Let_def list_all_iff dec_nat_hd)
qed

definition url_chars :: "char set" where
  "url_chars = {CHR ''&'', CHR ''='', CHR '';'', CHR ''%'', CHR ''+'', CHR ''?'', CHR ''/''}"

definition plain :: "string \<Rightarrow> bool" where
  "plain s \<longleftrightarrow> set s \<inter> url_chars = {}"

lemma plain_append [simp]: "plain (s @ t) \<longleftrightarrow> plain s \<and> plain t" "plain (c # t) \<longleftrightarrow> c \<notin> url_chars \<and> plain t" "plain []"
  by (auto simp: plain_def)

lemma plain_fmt_d [simp]: "plain (fmt_d i)"
  using fmt_d_chars [of i] by (auto simp: plain_def url_chars_def is_digit_def)

lemma plainD: "plain s \<Longrightarrow> c \<in> set s \<Longrightarrow> c \<notin> url_chars"
  by (auto simp: plain_def)

lemma QueryUnescape_plain: "plain s \<Longrightarrow> QueryUnescape s = Some s"
  by (induction s) (auto simp: url_chars_def)

lemma split_on_none: "c \<notin> set s \<Longrightarrow> split_on c s = [s]"
  by (induction s) auto

lemma split_on_first: "c \<notin> set s \<Longrightarrow> split_on c (s @ c # t) = s # split_on c t"
  by (induction s) auto

lemma query_pair_plain:
  assumes "plain k" "plain v"
  shows "query_pair (k @ CHR ''='' # v) = Some (k, v)"
proof -
  have "\<forall>c \<in> set k. c \<noteq> CHR ''=''" "CHR '';'' \<notin> set (k @ CHR ''='' # v)"
    using assms plainD by (auto simp: url_chars_def dest: plainD)
  then show ?thesis using assms
    by (simp add: query_pair_def takeWhile_append2 dropWhile_append2 QueryUnescape_plain)
qed

lemma QueryGet_plain:
  assumes "plain k" "plain v" "rest = [] \<or> (\<exists>r. rest = CHR ''&'' # r)"
  shows "QueryGet (k @ CHR ''='' # v @ rest) k = v"
proof -
  have na: "CHR ''&'' \<notin> set (k @ CHR ''='' # v)" using assms(1,2) by (auto simp: url_chars_def dest: plainD)
  from assms(3) show ?thesis
  proof
    assume "rest = []"
    then show ?thesis using split_on_none [OF na] assms(1,2)
      by (simp add: QueryGet_def query_pair_plain List.map_filter_simps)
  next
    assume "\<exists>r. rest = CHR ''&'' # r"
    then obtain r where "rest = CHR ''&'' # r" ..
    then show ?thesis using split_on_first [OF na, of r] assms(1,2)
      by (simp add: QueryGet_def query_pair_plain List.map_filter_simps)
  qed
qed

subsection \<open>Routing\<close>

lemma fake_http_url:
  assumes "request_url req = base @ path @ q" "CHR ''?'' \<notin> set path" "q = [] \<or> (\<exists>q'. q = CHR ''?'' # q')"
  shows "fake_http w base req f = handler w req path (drop 1 q) f"
proof -
  have p: "\<forall>c \<in> set path. c \<noteq> CHR ''?''" using assms(2) by blast
  from assms(3) show ?thesis
  proof
    assume "q = []"
    then show ?thesis using assms(1) p by (simp add: fake_http_def Let_def takeWhile_eq_all_conv [THEN iffD2]
        dropWhile_eq_Nil_conv [THEN iffD2])
  next
    assume "\<exists>q'. q = CHR ''?'' # q'"
    then obtain q' where "q = CHR ''?'' # q'" ..
    then show ?thesis using assms(1) p by (simp add: fake_http_def Let_def takeWhile_append2 dropWhile_append2)
  qed
qed

lemma handler_bot:
  assumes "CHR ''/'' \<notin> set tok"
  shows "handler w req (''/bot'' @ tok @ ''/'' @ m) query f = bot_method w req tok m query f"
proof -
  have "SplitN2 (TrimPrefix (''/bot'' @ tok @ ''/'' @ m) ''/bot'') (CHR ''/'') = [tok, m]"
    using assms by (simp add: HasPrefix_def TrimPrefix_def)
  moreover have "\<not> HasPrefix (''/bot'' @ tok @ ''/'' @ m) ''/file/bot''" "HasPrefix (''/bot'' @ tok @ ''/'' @ m) ''/bot''"
    by (simp_all add: HasPrefix_def)
  ultimately show ?thesis unfolding handler_def by (simp only: if_False if_True not_True_eq_False list.case)
qed

lemma handler_file:
  assumes "CHR ''/'' \<notin> set tok"
  shows "handler w req (''/file/bot'' @ tok @ ''/'' @ fid) query f =
    (Body (case files f fid of Some d \<Rightarrow> d | None \<Rightarrow> NotFound), f)"
proof -
  have "SplitN2 (TrimPrefix (''/file/bot'' @ tok @ ''/'' @ fid) ''/file/bot'') (CHR ''/'') = [tok, fid]"
    using assms by (simp add: HasPrefix_def TrimPrefix_def)
  moreover have "HasPrefix (''/file/bot'' @ tok @ ''/'' @ fid) ''/file/bot''" by (simp add: HasPrefix_def)
  ultimately show ?thesis unfolding handler_def by (simp only: if_True list.case) (simp add: file_of_def split: option.split)
qed

subsection \<open>The Bot API over this server\<close>

text \<open>
  What is used of \<^verbatim>\<open>encoding/json\<close>: decoding an encoded answer gives it back, if its strings are
  ASCII (the encoder replaces bytes that are not valid UTF-8).
\<close>

definition ascii :: "string \<Rightarrow> bool" where
  "ascii s \<longleftrightarrow> (\<forall>c \<in> set s. of_char c < (128 :: nat))"

definition ascii_update :: "update \<Rightarrow> bool" where
  "ascii_update u \<longleftrightarrow>
     (\<forall>cp. ChannelPost u = Some cp \<longrightarrow> ascii (Text cp) \<and> (\<forall>d. Document cp = Some d \<longrightarrow> ascii (FileID d) \<and> ascii (FileName d)))"

fun ascii_result :: "api_result \<Rightarrow> bool" where
  "ascii_result (ResultUpdates us) \<longleftrightarrow> (\<forall>u \<in> set us. ascii_update u)"
| "ascii_result (ResultFile p) \<longleftrightarrow> ascii p"
| "ascii_result (ResultUser u) \<longleftrightarrow> True"
| "ascii_result ResultOther \<longleftrightarrow> True"

definition json_ok :: "json_decoder \<Rightarrow> (api_result \<Rightarrow> bytes) \<Rightarrow> bool" where
  "json_ok json w \<longleftrightarrow> (\<forall>r. ascii_result r \<longrightarrow>
     json (w r) = Inr \<lparr>OK = True, Result = r, Description = '''', ErrorCode = 0, Parameters = None\<rparr>)"

definition ascii_posts :: "fake \<Rightarrow> bool" where
  "ascii_posts f \<longleftrightarrow> (\<forall>p \<in> set (posts f). ascii (fp_text p) \<and> ascii (fp_fileName p) \<and> ascii (fp_fileID p))"

lemma ascii_since: "ascii_posts f \<Longrightarrow> ascii_result (ResultUpdates (map (fake_update ch) (since n f)))"
  by (auto simp: ascii_posts_def since_def fake_update_def ascii_update_def)

lemma ascii_fmt_d [simp]: "ascii (fmt_d i)"
  using fmt_d_chars [of i] by (auto simp: ascii_def is_digit_def)

lemma ascii_file: "ascii (''file'' @ fmt_d k)"
  using ascii_fmt_d [of k] by (auto simp: ascii_def)

lemma fake_http_method:
  assumes "CHR ''/'' \<notin> set (token a)" "CHR ''?'' \<notin> set (token a)" "CHR ''?'' \<notin> set m"
    and "request_url req = botURL a m @ q" "q = [] \<or> (\<exists>q'. q = CHR ''?'' # q')"
  shows "fake_http w (hostBase a) req f = bot_method w req (token a) m (drop 1 q) f"
  unfolding handler_bot [OF assms(1), symmetric]
  by (rule fake_http_url) (use assms in \<open>simp_all add: botURL_def\<close>)

lemma fake_send_message:
  assumes "json_ok json w" "CHR ''/'' \<notin> set (token a)" "CHR ''?'' \<notin> set (token a)"
  shows "BotAPI_SendMessage json (fake_http w (hostBase a)) a ch txt f = ((0, None), addText txt f)"
proof -
  have "fake_http w (hostBase a) (SendMessageReq (botURL a ''sendMessage'') ch txt) f = (Body (w ResultOther), addText txt f)"
    using fake_http_method [of a "''sendMessage''" "SendMessageReq (botURL a ''sendMessage'') ch txt" "[]" w f] assms(2,3)
    by (simp add: bot_method_def)
  then show ?thesis using assms(1) by (simp add: BotAPI_SendMessage_def send_result_def json_ok_def)
qed

lemma fake_send_document:
  assumes "json_ok json w" "CHR ''/'' \<notin> set (token a)" "CHR ''?'' \<notin> set (token a)" "length data \<le> MaxSendDocumentSize"
  shows "BotAPI_SendDocument json (fake_http w (hostBase a)) a ch name data f = ((0, None), addDocument name data f)"
proof -
  have "fake_http w (hostBase a) (SendDocumentReq (botURL a ''sendDocument'') ch name data) f
      = (Body (w ResultOther), addDocument name data f)"
    using fake_http_method [of a "''sendDocument''" "SendDocumentReq (botURL a ''sendDocument'') ch name data" "[]" w f] assms(2,3)
    by (simp add: bot_method_def)
  then show ?thesis using assms(1,4) by (simp add: BotAPI_SendDocument_def send_result_def json_ok_def)
qed

lemma fake_get_updates:
  assumes "json_ok json w" "CHR ''/'' \<notin> set (token a)" "CHR ''?'' \<notin> set (token a)" "ascii_posts f"
    and "- (2 ^ 63) \<le> n" "n < 2 ^ 63"
  shows "BotAPI_GetUpdates json (fake_http w (hostBase a)) a n t f = (Inr (map (fake_update (F_ChannelID f)) (since n f)), f)"
proof -
  let ?rest = "''&timeout='' @ fmt_d t @ ''&allowed_updates=['' @ [CHR 0x22] @ ''channel_post'' @ [CHR 0x22] @ '']''"
  let ?q = "''?offset='' @ fmt_d n @ ?rest"
  let ?req = "GetReq (botURL a ''getUpdates'' @ ?q)"
  have "QueryGet (drop 1 ?q) ''offset'' = fmt_d n"
    using QueryGet_plain [of "''offset''" "fmt_d n" ?rest] by (simp add: url_chars_def)
  then have "bot_method w ?req (token a) ''getUpdates'' (drop 1 ?q) f
      = (Body (w (ResultUpdates (map (fake_update (F_ChannelID f)) (since n f)))), f)"
    using assms(5,6) by (simp add: bot_method_def Atoi_fmt_d del: append.simps)
  moreover have "fake_http w (hostBase a) ?req f = bot_method w ?req (token a) ''getUpdates'' (drop 1 ?q) f"
    by (rule fake_http_method) (use assms(2,3) in simp_all)
  moreover have "json (w (ResultUpdates (map (fake_update (F_ChannelID f)) (since n f)))) =
      Inr \<lparr>OK = True, Result = ResultUpdates (map (fake_update (F_ChannelID f)) (since n f)), Description = '''', ErrorCode = 0, Parameters = None\<rparr>"
    using assms(1) ascii_since [OF assms(4)] unfolding json_ok_def by blast
  ultimately show ?thesis by (simp add: BotAPI_GetUpdates_def get_result_def Let_def)
qed

lemma fake_download:
  assumes "json_ok json w" "CHR ''/'' \<notin> set (token a)" "CHR ''?'' \<notin> set (token a)" "fid = ''file'' @ fmt_d k"
  shows "BotAPI_DownloadFile json (fake_http w (hostBase a)) a fid f
    = (Inr (case files f fid of Some d \<Rightarrow> d | None \<Rightarrow> NotFound), f)"
proof -
  have pl: "plain fid" "CHR ''?'' \<notin> set fid" using assms(4) plainD [OF plain_fmt_d, of _ k] by (auto simp: url_chars_def)
  let ?q = "''?file_id='' @ fid"
  let ?req = "GetReq (botURL a ''getFile'' @ ?q)" and ?req2 = "GetReq (hostBase a @ ''/file/bot'' @ token a @ ''/'' @ fid)"
  have "QueryGet (drop 1 ?q) ''file_id'' = fid"
    using QueryGet_plain [of "''file_id''" fid "[]"] pl(1) by (simp add: url_chars_def)
  then have "bot_method w ?req (token a) ''getFile'' (drop 1 ?q) f = (Body (w (ResultFile fid)), f)"
    by (simp add: bot_method_def)
  moreover have "fake_http w (hostBase a) ?req f = bot_method w ?req (token a) ''getFile'' (drop 1 ?q) f"
    by (rule fake_http_method) (use assms(2,3) in simp_all)
  ultimately have r1: "fake_http w (hostBase a) ?req f = (Body (w (ResultFile fid)), f)" by simp
  have "fake_http w (hostBase a) ?req2 f = handler w ?req2 (''/file/bot'' @ token a @ ''/'' @ fid) (drop 1 []) f"
    by (rule fake_http_url) (use assms(3) pl(2) in simp_all)
  then have r2: "fake_http w (hostBase a) ?req2 f = (Body (case files f fid of Some d \<Rightarrow> d | None \<Rightarrow> NotFound), f)"
    unfolding handler_file [OF assms(2)] .
  have "json (w (ResultFile fid)) = Inr \<lparr>OK = True, Result = ResultFile fid, Description = '''', ErrorCode = 0, Parameters = None\<rparr>"
    using assms(1) ascii_file [of k] unfolding json_ok_def assms(4) by simp
  then show ?thesis using r1 r2 by (simp add: BotAPI_DownloadFile_def get_result_def Let_def)
qed

subsection \<open>The post list keeps the polling contract\<close>

datatype fake_action = AddText string | AddDocument string bytes

fun fake_act :: "fake_action \<Rightarrow> fake \<Rightarrow> fake" where
  "fake_act (AddText t) f = addText t f"
| "fake_act (AddDocument n d) f = addDocument n d f"

definition fake_new_update :: "fake_action \<Rightarrow> fake \<Rightarrow> update" where
  "fake_new_update x f = fake_update (F_ChannelID f) (last (posts (fake_act x f)))"

definition fake_visible :: "int \<Rightarrow> fake \<Rightarrow> update list" where
  "fake_visible n f = map (fake_update (F_ChannelID f)) (since n f)"

definition fake_get :: "unit \<Rightarrow> int \<Rightarrow> fake \<Rightarrow> (go_error + update list) \<times> fake" where
  "fake_get w n f = (Inr (fake_visible n f), f)"

lemma fake_act_posts:
  "posts (fake_act x f) = posts f @ [last (posts (fake_act x f))]" "F_ChannelID (fake_act x f) = F_ChannelID f"
  "fp_updateID (last (posts (fake_act x f))) = nextID f" "nextID (fake_act x f) = nextID f + 1"
  by (cases x; simp add: addText_def addDocument_def Let_def)+

lemma UpdateID_fake_update [simp]: "UpdateID (fake_update ch p) = fp_updateID p"
  by (simp add: fake_update_def)

interpretation fakeapi: update_source fake_get "\<lambda>w n f. []" fake_new_update fake_act fake_visible
proof unfold_locales
  fix n m :: int and f :: fake assume "n \<le> m"
  then have "m \<le> fp_updateID (x :: fake_post) \<longleftrightarrow> n \<le> fp_updateID x \<and> m \<le> fp_updateID x" for x by auto
  then have "filter (\<lambda>x. m \<le> fp_updateID x) (posts f) = filter (\<lambda>x. n \<le> fp_updateID x \<and> m \<le> fp_updateID x) (posts f)"
    by metis
  then show "fake_visible m f = filter (\<lambda>u. m \<le> UpdateID u) (fake_visible n f)"
    by (simp add: fake_visible_def since_def filter_map comp_def)
next
  fix n x f
  have "since n (fake_act x f) = since n f @ (if n \<le> nextID f then [last (posts (fake_act x f))] else [])"
    unfolding since_def by (subst fake_act_posts(1)) (simp add: fake_act_posts(3))
  then show "fake_visible n (fake_act x f) = fake_visible n f @
      (if n \<le> UpdateID (fake_new_update x f) then [fake_new_update x f] else [])"
    by (simp add: fake_visible_def fake_new_update_def fake_act_posts(2,3))
qed (simp_all add: fake_get_def)

lemma fake_run_ids:
  "poll_run fake_get (\<lambda>w n f. []) fake_new_update fake_act evs p f = (del, posted, p', f') \<Longrightarrow> ids_from (nextID f) posted"
proof (induction evs arbitrary: p f del posted)
  case (Cons ev evs)
  show ?case
  proof (cases ev)
    case (Post x)
    then obtain posted' where r: "poll_run fake_get (\<lambda>w n f. []) fake_new_update fake_act evs p (fake_act x f) = (del, posted', p', f')"
        "posted = fake_new_update x f # posted'"
      using Cons.prems by (auto split: prod.splits)
    have "UpdateID (fake_new_update x f) = nextID f" by (simp add: fake_new_update_def fake_act_posts(3))
    then show ?thesis using Cons.IH [OF r(1)] r(2) by (fastforce simp: ids_from_def fake_act_posts(4))
  next
    case (Poll w)
    then show ?thesis using Cons.prems Cons.IH by (auto simp: fake_get_def Let_def split: prod.splits)
  qed
qed (simp add: ids_from_def)

subsection \<open>Properties\<close>

text \<open>
  The test server honours the polling contract: for any sequence of texts and documents posted
  by any bots and polls by one poller that starts at offset zero, the updates delivered so far
  followed by those the next poll would see are exactly the posts in their order.
\<close>

lemma fake_polls_exactly_once:
  assumes "poll_run fake_get (\<lambda>w n f. []) fake_new_update fake_act evs (NewPoller peer ch) (New ch) = (del, posted, p', f')"
  shows "del @ fake_visible (offset p') f' = posted"
proof -
  have "fake_visible 0 (New ch) = []" "offset (NewPoller peer ch) = 0" "nextID (New ch) = 0"
    by (simp_all add: fake_visible_def since_def New_def NewPoller_def)
  then show ?thesis using fakeapi.poll_exactly_once [OF assms] fake_run_ids [OF assms] by simp
qed


text \<open>For the witness: an encoding of the answers by numbers, and its decoder.\<close>

definition doc_key :: "document \<Rightarrow> string \<times> string \<times> int" where
  "doc_key d = (FileID d, FileName d, FileSize d)"

definition post_key :: "channel_post \<Rightarrow> int \<times> int \<times> (int \<times> bool) option \<times> string \<times> (string \<times> string \<times> int) option \<times> int option" where
  "post_key cp = (MessageID cp, Chat_ID cp, map_option (\<lambda>u. (User_ID u, IsBot u)) (From cp), Text cp,
     map_option doc_key (Document cp), SenderChat cp)"

fun result_key :: "api_result \<Rightarrow> ((int \<times> (int \<times> int \<times> (int \<times> bool) option \<times> string \<times> (string \<times> string \<times> int) option \<times> int option) option) list
    + string) + ((int \<times> bool) option)" where
  "result_key (ResultUpdates us) = Inl (Inl (map (\<lambda>u. (UpdateID u, map_option post_key (ChannelPost u))) us))"
| "result_key (ResultFile p) = Inl (Inr p)"
| "result_key (ResultUser u) = Inr (Some (User_ID u, IsBot u))"
| "result_key ResultOther = Inr None"

lemma inj_result_key: "inj result_key"
proof -
  have d: "inj doc_key" by (rule injI) (simp add: doc_key_def document.equality)
  have us: "inj (\<lambda>u :: user. (User_ID u, IsBot u))" by (rule injI) (simp add: user.equality)
  have p: "inj post_key"
    by (rule injI) (auto simp: post_key_def intro!: channel_post.equality dest!: option.inj_map [OF d, THEN injD] option.inj_map [OF us, THEN injD])
  have u: "inj (\<lambda>u :: update. (UpdateID u, map_option post_key (ChannelPost u)))"
    by (rule injI) (auto intro!: update.equality dest!: option.inj_map [OF p, THEN injD])
  show ?thesis
  proof (rule injI)
    fix x y assume "result_key x = result_key y"
    then show "x = y" by (cases x; cases y) (auto dest: list.inj_map [OF u, THEN injD] us [THEN injD])
  qed
qed

instance api_result :: countable
  by (rule countable_classI [of "\<lambda>r. to_nat (result_key r)"]) (simp add: inj_eq [OF inj_result_key])

definition demo_enc :: "api_result \<Rightarrow> bytes" where
  "demo_enc r = replicate (to_nat r) 0"

definition demo_dec :: json_decoder where
  "demo_dec b = Inr \<lparr>OK = True, Result = from_nat (length b), Description = '''', ErrorCode = 0, Parameters = None\<rparr>"

lemma demo_json: "json_ok demo_dec demo_enc"
  by (simp add: json_ok_def demo_dec_def demo_enc_def)


end
