(* ===== verification/Channel_Transfer.thy ===== *)
theory Channel_Transfer
  imports Fake_Telegram
begin

text \<open>
  The transport put together: a sender and a poller, each with its own \<^verbatim>\<open>BotAPI\<close>, on the channel of
  the in-memory server. This is the path that \<^verbatim>\<open>cmd/smoketest\<close> and \<^verbatim>\<open>cmd/vtel-bench\<close> exercise: what
  one side sends, as text or as documents, the other side gets back byte for byte and in the
  order of the sequence numbers.
\<close>

subsection \<open>The server as a file store\<close>

definition fake_stored :: "fake \<Rightarrow> string \<Rightarrow> bytes option" where
  "fake_stored f fid = (if \<exists>k. fid = ''file'' @ fmt_d k then files f fid else None)"

lemma fake_download_state:
  assumes "CHR ''/'' \<notin> set (token a)" "CHR ''?'' \<notin> set (token a)"
  shows "snd (BotAPI_DownloadFile json (fake_http w (hostBase a)) a fid f) = f"
proof -
  have get: "snd (fake_http w (hostBase a) (GetReq (botURL a ''getFile'' @ ''?file_id='' @ fid)) f) = f"
    using fake_http_method [OF assms, of "''getFile''" "GetReq (botURL a ''getFile'' @ ''?file_id='' @ fid)" "''?file_id='' @ fid" w f]
    by (simp add: bot_method_def)
  have fl: "snd (fake_http w (hostBase a) (GetReq (hostBase a @ ''/file/bot'' @ token a @ ''/'' @ path)) f) = f" for path
  proof -
    let ?rest = "''/file/bot'' @ token a @ ''/'' @ path"
    have "takeWhile (\<lambda>c. c \<noteq> CHR ''?'') ?rest = ''/file/bot'' @ takeWhile (\<lambda>c. c \<noteq> CHR ''?'') (token a @ ''/'' @ path)" by simp
    then have "HasPrefix (takeWhile (\<lambda>c. c \<noteq> CHR ''?'') ?rest) ''/file/bot''" by (simp only: HasPrefix_append)
    then show ?thesis
      unfolding fake_http_def handler_def by (simp add: HasPrefix_def [of "hostBase a @ _"] Let_def split: list.split option.split)
  qed
  show ?thesis
    unfolding BotAPI_DownloadFile_def using get fl
    by (simp add: split_beta Let_def split: sum.split api_result.split http_reply.split)
qed

lemma fake_store:
  assumes "json_ok json w" "CHR ''/'' \<notin> set (token a)" "CHR ''?'' \<notin> set (token a)"
  shows "file_store (BotAPI_DownloadFile json (fake_http w (hostBase a)) a) fake_stored"
proof unfold_locales
  fix f fid d assume "fake_stored f fid = Some d"
  then obtain k where "fid = ''file'' @ fmt_d k" "files f fid = Some d" by (auto simp: fake_stored_def split: if_splits)
  then show "fst (BotAPI_DownloadFile json (fake_http w (hostBase a)) a fid f) = Inr d"
    using fake_download [OF assms, of fid k f] by simp
next
  show "fake_stored (snd (BotAPI_DownloadFile json (fake_http w (hostBase a)) a fid f)) fid' = fake_stored f fid'" for fid' fid f
    by (simp add: fake_download_state [OF assms(2,3)])
qed

subsection \<open>ASCII\<close>

lemma enc64_ascii: "of_char (enc64 n) < (128 :: nat)"
  by (auto simp: enc64_def)

lemma ascii_append [simp]: "ascii (s @ t) \<longleftrightarrow> ascii s \<and> ascii t" "ascii []" "ascii (c # s) \<longleftrightarrow> of_char c < (128 :: nat) \<and> ascii s"
  by (auto simp: ascii_def)

lemma ascii_EncodeToString: "ascii (EncodeToString d)"
  by (induction d rule: EncodeToString.induct) (simp_all add: Let_def enc64_ascii)

lemma ascii_fmt_0d: "ascii (fmt_0d w n)"
  using dec_nat_digits [of n] by (auto simp: fmt_0d_def Let_def ascii_def is_digit_def)

lemma ascii_formatTextBatch: "ascii (formatTextBatch B q d)"
  by (simp add: formatTextBatch_def ascii_fmt_0d ascii_EncodeToString)

lemma ascii_rotatingFilename: "ascii (rotatingFilename B q)"
proof -
  have "ascii (filenameBases ! (unat q mod length filenameBases))"
  proof -
    have "list_all ascii filenameBases" by (simp add: filenameBases_def)
    moreover have "unat q mod length filenameBases < length filenameBases" by (simp add: filenameBases_def)
    ultimately show ?thesis by (simp add: list_all_length)
  qed
  then show ?thesis by (simp add: rotatingFilename_def Let_def ascii_fmt_0d)
qed

subsection \<open>Sending a list of batches\<close>

fun send_batches ::
  "(int \<Rightarrow> string \<Rightarrow> 's \<Rightarrow> (int \<times> go_error option) \<times> 's) \<Rightarrow> (int \<Rightarrow> string \<Rightarrow> bytes \<Rightarrow> 's \<Rightarrow> (int \<times> go_error option) \<times> 's)
    \<Rightarrow> (64 word \<times> bytes) list \<Rightarrow> sender \<times> 's \<Rightarrow> (sender \<times> 's) option" where
  "send_batches sendMessage sendDocument [] st = Some st"
| "send_batches sendMessage sendDocument ((q, d) # bs) st =
     (case Send sendMessage sendDocument q d False st of
        Some (None, _, st') \<Rightarrow> send_batches sendMessage sendDocument bs st'
      | _ \<Rightarrow> None)"

definition post_batch :: "int \<Rightarrow> fake \<Rightarrow> 64 word \<times> bytes \<Rightarrow> fake" where
  "post_batch B f b =
     (if fitsTextBatch B (fst b) (snd b) then addText (formatTextBatch B (fst b) (snd b)) f
      else addDocument (rotatingFilename B (fst b)) (snd b) f)"

definition batch_post :: "int \<Rightarrow> nat \<Rightarrow> 64 word \<times> bytes \<Rightarrow> fake_post" where
  "batch_post B k b =
     (if fitsTextBatch B (fst b) (snd b)
      then \<lparr>fp_updateID = int k, fp_fileName = '''', fp_fileID = '''', fp_text = formatTextBatch B (fst b) (snd b)\<rparr>
      else \<lparr>fp_updateID = int k, fp_fileName = rotatingFilename B (fst b), fp_fileID = ''file'' @ fmt_d (int k), fp_text = ''''\<rparr>)"

lemma Send_fake:
  assumes "json_ok json w" "CHR ''/'' \<notin> set (token a)" "CHR ''?'' \<notin> set (token a)" "length d \<le> MaxSendDocumentSize"
  shows "Send (BotAPI_SendMessage json (fake_http w (hostBase a)) a) (BotAPI_SendDocument json (fake_http w (hostBase a)) a)
      q d urgent (NewSender B ch, f) = Some (None, [LWaited, LRecorded], NewSender B ch, post_batch B f (q, d))"
  using fake_send_message [OF assms(1-3)] fake_send_document [OF assms]
  by (simp add: Send_def sendRetry_def send_loop.simps post_batch_def NewSender_def)

lemma send_batches_fake:
  assumes "json_ok json w" "CHR ''/'' \<notin> set (token a)" "CHR ''?'' \<notin> set (token a)"
    and "\<forall>b \<in> set bs. length (snd b) \<le> MaxSendDocumentSize"
  shows "send_batches (BotAPI_SendMessage json (fake_http w (hostBase a)) a) (BotAPI_SendDocument json (fake_http w (hostBase a)) a)
      bs (NewSender B ch, f) = Some (NewSender B ch, foldl (post_batch B) f bs)"
  using assms(4)
proof (induction bs arbitrary: f)
  case (Cons b bs)
  then show ?case using Send_fake [OF assms(1-3)] by (cases b) simp
qed simp

subsection \<open>The channel after the sends\<close>

lemma posted_state:
  "let f = foldl (post_batch B) (New ch) bs in
     nextID f = int (length bs) \<and> F_ChannelID f = ch \<and> posts f = map (\<lambda>(k, b). batch_post B k b) (List.enumerate 0 bs)"
proof (induction bs rule: rev_induct)
  case Nil
  then show ?case by (simp add: New_def)
next
  case (snoc b bs)
  then show ?case
    by (auto simp: Let_def post_batch_def batch_post_def addText_def addDocument_def enumerate_append_eq)
qed

lemma files_post_batch:
  "files (post_batch B f b) fid =
     (if \<not> fitsTextBatch B (fst b) (snd b) \<and> fid = ''file'' @ fmt_d (nextID f) then Some (snd b) else files f fid)"
  by (simp add: post_batch_def addText_def addDocument_def Let_def)

lemma posted_files:
  "k < length bs \<Longrightarrow> \<not> fitsTextBatch B (fst (bs ! k)) (snd (bs ! k)) \<Longrightarrow>
     files (foldl (post_batch B) (New ch) bs) (''file'' @ fmt_d (int k)) = Some (snd (bs ! k))"
proof (induction bs rule: rev_induct)
  case (snoc b bs)
  have n: "nextID (foldl (post_batch B) (New ch) bs) = int (length bs)" using posted_state [of B ch bs] by (simp add: Let_def)
  show ?case
  proof (cases "k = length bs")
    case True
    then show ?thesis using snoc.prems n by (simp add: files_post_batch)
  next
    case False
    then have k: "k < length bs" using snoc.prems by simp
    then show ?thesis using snoc n by (simp add: files_post_batch nth_append fmt_d_inject)
  qed
qed simp

lemma posted_document:
  "Option.bind (ChannelPost (fake_update ch (batch_post B k b))) Document =
     (if fitsTextBatch B (fst b) (snd b) then None
      else Some \<lparr>FileID = ''file'' @ fmt_d (int k), FileName = rotatingFilename B (fst b), FileSize = 0\<rparr>)"
  by (simp add: fake_update_def batch_post_def formatTextBatch_def)

lemma posted_document_ids: "distinct (document_ids (map (\<lambda>(k, b). fake_update ch (batch_post B k b)) (List.enumerate n bs)))
  \<and> set (document_ids (map (\<lambda>(k, b). fake_update ch (batch_post B k b)) (List.enumerate n bs))) \<subseteq> (\<lambda>k. ''file'' @ fmt_d (int k)) ` {n..}"
proof (induction bs arbitrary: n)
  case Nil
  then show ?case by (simp add: document_ids_def List.map_filter_simps)
next
  case (Cons b bs)
  have "''file'' @ fmt_d (int n) \<notin> (\<lambda>k. ''file'' @ fmt_d (int k)) ` {Suc n..}" by (auto simp: fmt_d_inject)
  moreover have "(\<lambda>k. ''file'' @ fmt_d (int k)) ` {Suc n..} \<subseteq> (\<lambda>k. ''file'' @ fmt_d (int k)) ` {n..}" by (rule image_mono) auto
  ultimately show ?case
    using Cons.IH [of "Suc n"] by (auto simp: document_ids_def List.map_filter_simps posted_document)
qed

lemma posted_carries:
  assumes "k < length bs"
  shows "\<exists>cp. ChannelPost (fake_update ch (batch_post B k (bs ! k))) = Some cp
    \<and> carries (fake_stored (foldl (post_batch B) (New ch) bs)) (NewPoller B ch) (bs ! k) cp"
  using posted_files [OF assms, of B ch]
  by (auto simp: fake_update_def batch_post_def carries_def NewPoller_def fake_stored_def formatTextBatch_def)

subsection \<open>Properties\<close>

text \<open>
  C5. What is sent through the channel arrives: batches handed to a sender, in whatever order of
  their sequence numbers and of whatever size up to the document limit, are all accepted, and one
  poll of the peer on the same channel yields their bytes in the order of the sequence numbers,
  through the Bot API, the HTTP routes and the post list of the in-memory server on both sides.
\<close>

theorem transfer_in_order:
  assumes "json_ok json w"
    and "CHR ''/'' \<notin> set (token a)" "CHR ''?'' \<notin> set (token a)" "CHR ''/'' \<notin> set (token b)" "CHR ''?'' \<notin> set (token b)"
    and "\<forall>(q, d) \<in> set bs. unat q < 10 ^ 12 \<and> length d \<le> MaxSendDocumentSize"
    and "\<forall>x \<in> set bs. \<forall>y \<in> set bs. fst x = fst y \<longrightarrow> snd x = snd y"
  shows "\<exists>f p' f'. send_batches (BotAPI_SendMessage json (fake_http w (hostBase a)) a)
        (BotAPI_SendDocument json (fake_http w (hostBase a)) a) bs (NewSender B ch, New ch) = Some (NewSender B ch, f)
    \<and> poll_round (BotAPI_GetUpdates json (fake_http w (hostBase b)) b) (BotAPI_DownloadFile json (fake_http w (hostBase b)) b)
        (NewPoller B ch) f = (map snd (sort_key fst bs), 0, p', f')"
proof -
  define f where "f = foldl (post_batch B) (New ch) bs"
  let ?us = "map (\<lambda>(k, b). fake_update ch (batch_post B k b)) (List.enumerate 0 bs)"
  define batch_of where "batch_of = (\<lambda>u :: update. Some (bs ! nat (UpdateID u)))"
  have st: "F_ChannelID f = ch" "posts f = map (\<lambda>(k, b). batch_post B k b) (List.enumerate 0 bs)"
    using posted_state [of B ch bs] by (simp_all add: Let_def f_def)
  have id: "fp_updateID (batch_post B k x) = int k" for k x by (simp add: batch_post_def)
  have "since 0 f = posts f" unfolding since_def st by (auto simp: filter_id_conv id)
  then have us: "map (fake_update (F_ChannelID f)) (since 0 f) = ?us" by (simp add: st split_beta comp_def)
  have "ascii_posts f"
    unfolding ascii_posts_def st
    by (auto simp: batch_post_def ascii_formatTextBatch ascii_rotatingFilename)
  then have get: "BotAPI_GetUpdates json (fake_http w (hostBase b)) b (offset (NewPoller B ch)) 30 f = (Inr ?us, f)"
    using fake_get_updates [OF assms(1,4,5), of f 0 30] us by (simp add: NewPoller_def)
  have mf: "List.map_filter batch_of ?us = bs"
  proof -
    have "List.map_filter batch_of ?us = map (\<lambda>(k, b). bs ! k) (List.enumerate 0 bs)"
      by (simp add: batch_of_def List.map_filter_def split_beta comp_def id)
    also have "\<dots> = bs" by (rule nth_equalityI) (simp_all add: nth_enumerate_eq)
    finally show ?thesis .
  qed
  have carry: "\<forall>u \<in> set ?us. case batch_of u of
        Some b \<Rightarrow> (\<exists>cp. ChannelPost u = Some cp \<and> carries (fake_stored f) (NewPoller B ch) b cp)
      | None \<Rightarrow> (\<forall>cp. ChannelPost u = Some cp \<longrightarrow> foreign (NewPoller B ch) cp)"
  proof
    fix u assume "u \<in> set ?us"
    then obtain k where k: "k < length bs" "u = fake_update ch (batch_post B k (bs ! k))"
      by (auto simp: in_set_enumerate_eq)
    then show "case batch_of u of
        Some b \<Rightarrow> (\<exists>cp. ChannelPost u = Some cp \<and> carries (fake_stored f) (NewPoller B ch) b cp)
      | None \<Rightarrow> (\<forall>cp. ChannelPost u = Some cp \<longrightarrow> foreign (NewPoller B ch) cp)"
      using posted_carries [OF k(1), of ch B] by (simp add: batch_of_def id f_def)
  qed
  have "\<exists>p' f'. poll_round (BotAPI_GetUpdates json (fake_http w (hostBase b)) b) (BotAPI_DownloadFile json (fake_http w (hostBase b)) b)
        (NewPoller B ch) f = (map snd (sort_key fst bs), 0, p', f')"
    using file_store.poll_round_batches [OF fake_store [OF assms(1,4,5)],
        where getUpdates = "BotAPI_GetUpdates json (fake_http w (hostBase b)) b" and p = "NewPoller B ch" and s = f,
        OF get carry, unfolded mf] posted_document_ids [of ch B 0 bs] assms(6,7) by fastforce
  then show ?thesis
    using send_batches_fake [OF assms(1-3), of bs B ch "New ch"] assms(6) unfolding f_def by fastforce
qed

theorem transfer_in_order_witness:
  "\<exists>f p' f'. let a = \<lparr>token = ''1:a'', hostBase = ''http://h''\<rparr>; b = \<lparr>token = ''2:b'', hostBase = ''http://h''\<rparr>; http = fake_http demo_enc ''http://h''
    in send_batches (BotAPI_SendMessage demo_dec http a) (BotAPI_SendDocument demo_dec http a)
         [(4, [9]), (3, replicate 5000 7)] (NewSender 77 (-100), New (-100)) = Some (NewSender 77 (-100), f)
     \<and> poll_round (BotAPI_GetUpdates demo_dec http b) (BotAPI_DownloadFile demo_dec http b) (NewPoller 77 (-100)) f
         = ([replicate 5000 7, [9]], 0, p', f')"
proof -
  let ?a = "\<lparr>token = ''1:a'', hostBase = ''http://h''\<rparr>" and ?b = "\<lparr>token = ''2:b'', hostBase = ''http://h''\<rparr>"
  let ?bs = "[(4, [9]), (3, replicate 5000 7)] :: (64 word \<times> bytes) list"
  have s: "map snd (sort_key fst ?bs) = [replicate 5000 7, [9]]" by simp
  show ?thesis
    using transfer_in_order [of demo_dec demo_enc ?a ?b ?bs 77 "-100", unfolded s, OF demo_json]
    unfolding Let_def by (simp add: MaxSendDocumentSize_def)
qed

end
