(* ===== verification/Fake_Channel.thy ===== *)
theory Fake_Channel
  imports Channel_Transfer Tunnel_Session
begin

text \<open>
  Two links of a tunnel on the channel of the in-memory server: one flushes its batcher through its
  sender, the other polls and runs its receive loop. The two bots post to the same channel, so each
  poller also sees its own side's posts. Shown is that a frame carried this way is handled by the
  peer exactly as if it had been handed to its multiplexer, and is seen by nobody else.
\<close>

subsection \<open>One side posts, the other polls\<close>

text \<open>
  What both sides need of their surroundings: the compressor and its inverse, the nonces, the growth
  of a Go slice, the JSON codec of the server and its base URL.
\<close>

record channel_env =
  ce_enc :: "bytes \<Rightarrow> bytes"
  ce_dec :: "bytes \<Rightarrow> bytes option"
  ce_rnd :: "64 word \<Rightarrow> bytes option"
  ce_grow :: "nat \<Rightarrow> nat \<Rightarrow> nat"
  ce_json :: json_decoder
  ce_writeOK :: "api_result \<Rightarrow> bytes"
  ce_base :: string

abbreviation api_of :: "channel_env \<Rightarrow> string \<Rightarrow> bot_api" where
  "api_of e tok \<equiv> \<lparr>token = tok, hostBase = ce_base e\<rparr>"

abbreviation http_of :: "channel_env \<Rightarrow> fake http_client" where
  "http_of e \<equiv> fake_http (ce_writeOK e) (ce_base e)"

text \<open>
  A flush with its sends; \<open>None\<close>: there was nothing to flush, or a send did not succeed. What could not
  be sealed is dropped.
\<close>

definition flush_over :: "channel_env \<Rightarrow> string \<Rightarrow> time \<Rightarrow> link_runtime \<Rightarrow> fake \<Rightarrow> (link_runtime \<times> fake) option" where
  "flush_over e tok now lr f =
     (case Flush (ce_grow e) now (rt_batcher lr) of
        (None, b) \<Rightarrow> None
      | (Some j, b) \<Rightarrow>
          (case flushRaw (ce_enc e) (ce_rnd e) (b_key b) (j_seq j) (j_raw j) (seqNum b) of
             None \<Rightarrow> None
           | Some (ps, ctr) \<Rightarrow>
               (case send_batches (BotAPI_SendMessage (ce_json e) (http_of e) (api_of e tok))
                       (BotAPI_SendDocument (ce_json e) (http_of e) (api_of e tok))
                       (List.map_filter (\<lambda>(q, r). case r of Inl _ \<Rightarrow> None | Inr s \<Rightarrow> Some (q, s)) ps) (rt_sender lr, f) of
                  None \<Rightarrow> None
                | Some (sd, f') \<Rightarrow> Some (lr\<lparr>rt_batcher := job_done j (b\<lparr>seqNum := ctr\<rparr>), rt_sender := sd\<rparr>, f'))))"

definition poll_over :: "channel_env \<Rightarrow> string \<Rightarrow> time \<Rightarrow> link_runtime \<Rightarrow> fake \<Rightarrow> mux_action list \<times> link_runtime \<times> fake" where
  "poll_over e tok now lr f =
     (let (datas, wait, p, f') = poll_round (BotAPI_GetUpdates (ce_json e) (http_of e) (api_of e tok))
            (BotAPI_DownloadFile (ce_json e) (http_of e) (api_of e tok)) (rt_poller lr) f;
          (lr', as) = recvLoop (ce_dec e) now datas (lr\<lparr>rt_poller := p\<rparr>)
      in (as, lr', f'))"

subsection \<open>The posts of the channel\<close>

definition fake_wf :: "fake \<Rightarrow> bool" where
  "fake_wf f \<longleftrightarrow> ascii_posts f \<and> 0 \<le> nextID f \<and> distinct (map fp_updateID (posts f)) \<and>
     (\<forall>q \<in> set (posts f). 0 \<le> fp_updateID q \<and> fp_updateID q < nextID f
        \<and> (fp_text q = '''' \<longrightarrow> fp_fileID q = ''file'' @ fmt_d (fp_updateID q)))"

text \<open>A poller that has handed on everything of its peer.\<close>

definition caught_up :: "fake \<Rightarrow> poller \<Rightarrow> bool" where
  "caught_up f p \<longleftrightarrow> p_channelID p = F_ChannelID f \<and> 0 \<le> offset p \<and> offset p \<le> nextID f \<and>
     (\<forall>q \<in> set (since (offset p) f). \<forall>cp. ChannelPost (fake_update (F_ChannelID f) q) = Some cp \<longrightarrow> foreign p cp)"

lemma post_batch_post:
  "0 \<le> nextID f \<Longrightarrow> posts (post_batch B f b) = posts f @ [batch_post B (nat (nextID f)) b]"
  "nextID (post_batch B f b) = nextID f + 1" "F_ChannelID (post_batch B f b) = F_ChannelID f"
  by (simp_all add: post_batch_def batch_post_def addText_def addDocument_def Let_def)

lemma formatTextBatch_nonempty [simp]: "formatTextBatch B q d \<noteq> []"
  by (simp add: formatTextBatch_def)

lemma batch_post_simps [simp]:
  "fp_updateID (batch_post B k b) = int k"
  "ascii (fp_text (batch_post B k b))" "ascii (fp_fileName (batch_post B k b))" "ascii (fp_fileID (batch_post B k b))"
  "fp_text (batch_post B k b) = '''' \<Longrightarrow> fp_fileID (batch_post B k b) = ''file'' @ fmt_d (int k)"
  by (auto simp: batch_post_def ascii_formatTextBatch ascii_rotatingFilename)

lemma fake_wf_post: "fake_wf f \<Longrightarrow> fake_wf (post_batch B f b)"
  unfolding fake_wf_def ascii_posts_def by (auto simp: post_batch_post)

lemma since_post:
  "0 \<le> nextID f \<Longrightarrow> since n (post_batch B f b) = since n f @ (if n \<le> nextID f then [batch_post B (nat (nextID f)) b] else [])"
  by (simp add: since_def post_batch_post)

lemma document_ids_fake:
  "document_ids (map (fake_update ch) qs) = map fp_fileID (filter (\<lambda>q. fp_text q = '''') qs)"
  by (induction qs) (auto simp: document_ids_def List.map_filter_simps fake_update_def)

lemma fake_wf_documents: "fake_wf f \<Longrightarrow> distinct (document_ids (map (fake_update ch) (since n f)))"
proof -
  assume wf: "fake_wf f"
  let ?qs = "filter (\<lambda>q. fp_text q = '''') (since n f)"
  have "distinct (map fp_updateID ?qs)" using wf by (simp add: fake_wf_def since_def distinct_map_filter)
  moreover have "map fp_fileID ?qs = map (\<lambda>i. ''file'' @ fmt_d i) (map fp_updateID ?qs)"
    using wf by (auto simp: fake_wf_def since_def)
  moreover have "inj (\<lambda>i. ''file'' @ fmt_d i)" by (rule injI) (simp add: fmt_d_inject)
  ultimately show ?thesis unfolding document_ids_fake by (metis distinct_map inj_on_subset subset_UNIV)
qed

text \<open>A bot's number in front marks its posts: no other number's prefix fits.\<close>

lemma prefix_isolated: "B \<noteq> B' \<Longrightarrow> \<not> HasPrefix (fmt_d B @ ''_'' @ r) (fmt_d B' @ ''_'')"
proof
  assume "B \<noteq> B'" "HasPrefix (fmt_d B @ ''_'' @ r) (fmt_d B' @ ''_'')"
  then obtain r' where "fmt_d B @ ''_'' @ r = fmt_d B' @ ''_'' @ r'" by (auto simp: HasPrefix_iff)
  then have "takeWhile (\<lambda>c. c \<noteq> CHR ''_'') (fmt_d B @ ''_'' @ r) = takeWhile (\<lambda>c. c \<noteq> CHR ''_'') (fmt_d B' @ ''_'' @ r')" by simp
  moreover have "takeWhile (\<lambda>c. c \<noteq> CHR ''_'') (fmt_d b @ ''_'' @ x) = fmt_d b" for b x
    using fmt_d_no_sep(1) [of b] by (subst takeWhile_append2) auto
  ultimately show False using \<open>B \<noteq> B'\<close> by (simp add: fmt_d_inject)
qed

lemma batch_post_foreign:
  assumes "B \<noteq> peerBotID p" "ChannelPost (fake_update ch (batch_post B k b)) = Some cp"
  shows "foreign p cp"
proof -
  have "\<not> HasPrefix '''' (peerPrefix p)" by (simp add: HasPrefix_iff peerPrefix_def)
  moreover have "\<not> HasPrefix (formatTextBatch B q d) (peerPrefix p)" for q d
    using prefix_isolated [OF assms(1)] by (simp add: formatTextBatch_def peerPrefix_def)
  moreover have "\<not> HasPrefix (rotatingFilename B q) (peerPrefix p)" for q
    using prefix_isolated [OF assms(1)] by (simp add: rotatingFilename_def peerPrefix_def Let_def)
  ultimately show ?thesis using assms(2) by (auto simp: foreign_def fake_update_def batch_post_def split: if_splits)
qed

lemma caught_up_other:
  assumes "caught_up f p" "fake_wf f" "B \<noteq> peerBotID p"
  shows "caught_up (post_batch B f b) p"
  using assms batch_post_foreign [OF assms(3)]
  by (auto simp: caught_up_def fake_wf_def since_post post_batch_post(2,3))

subsection \<open>One batch carried\<close>

lemma deliver_items_state:
  assumes "\<And>fid s. snd (download fid s) = s"
  shows "snd (deliver_items download items s) = s"
proof (induction items arbitrary: s)
  case (Cons it items)
  have "\<exists>r. download (fileID it) s = (r, s)" using assms [of "fileID it" s] by (cases "download (fileID it) s") auto
  then show ?case using Cons by (auto simp: split_beta Let_def split: option.split sum.split)
qed simp

lemma scan_updates_keeps:
  "peerBotID (snd (scan_updates us p)) = peerBotID p \<and> p_channelID (snd (scan_updates us p)) = p_channelID p"
  by (induction us arbitrary: p) (auto simp: split_beta Let_def split: option.split)

lemma poll_round_state:
  assumes "getUpdates (offset p) 30 s = (Inr us, s1)" "\<And>fid s. snd (download fid s) = s"
    and "poll_round getUpdates download p s = (ds, w, p', s')"
  shows "s' = s1" "peerBotID p' = peerBotID p" "p_channelID p' = p_channelID p"
    and "offset p' = Max (insert (offset p) ((\<lambda>u. UpdateID u + 1) ` set us))"
proof -
  let ?p = "p\<lparr>errorBackoff := pollerInitialBackoff\<rparr>"
  have "s' = snd (deliver_items download (sort_key sortKey (fst (scan_updates us ?p))) s1)" "p' = snd (scan_updates us ?p)"
    using assms(1,3) by (auto simp: poll_round_def split_beta Let_def)
  then show "s' = s1" "peerBotID p' = peerBotID p" "p_channelID p' = p_channelID p"
    "offset p' = Max (insert (offset p) ((\<lambda>u. UpdateID u + 1) ` set us))"
    using deliver_items_state [OF assms(2)] scan_updates_keeps [of us ?p] scan_offset [of us ?p] by simp_all
qed

lemma poll_gets_batch:
  fixes q :: "64 word" and d base
  assumes "json_ok json w" "CHR ''/'' \<notin> set tok" "CHR ''?'' \<notin> set tok"
    and "fake_wf f" "caught_up f p" "nextID f < 2 ^ 63" "unat q < 10 ^ 12"
  defines "f' \<equiv> post_batch (peerBotID p) f (q, d)" and "a \<equiv> \<lparr>token = tok, hostBase = base\<rparr>"
  shows "\<exists>p'. poll_round (BotAPI_GetUpdates json (fake_http w base) a) (BotAPI_DownloadFile json (fake_http w base) a) p f' = ([d], 0, p', f')
    \<and> caught_up f' p' \<and> peerBotID p' = peerBotID p"
proof -
  let ?B = "peerBotID p" and ?ch = "F_ChannelID f" and ?new = "batch_post (peerBotID p) (nat (nextID f)) (q, d)"
  let ?get = "BotAPI_GetUpdates json (fake_http w base) a" and ?load = "BotAPI_DownloadFile json (fake_http w base) a"
  define us where "us = map (fake_update ?ch) (since (offset p) f')"
  define batch_of where "batch_of = (\<lambda>u :: update. if UpdateID u = nextID f then Some (q, d) else None)"
  have n: "0 \<le> nextID f" "offset p \<le> nextID f" "0 \<le> offset p" and pch: "p_channelID p = ?ch"
    and ids: "\<And>x. x \<in> set (posts f) \<Longrightarrow> fp_updateID x < nextID f"
    using assms(4,5) by (auto simp: fake_wf_def caught_up_def)
  have wf': "fake_wf f'" unfolding f'_def by (rule fake_wf_post [OF assms(4)])
  have ch: "F_ChannelID f' = ?ch" "nextID f' = nextID f + 1" by (simp_all add: f'_def post_batch_post)
  have seen: "since (offset p) f' = since (offset p) f @ [?new]" unfolding f'_def since_post [OF n(1)] using n by simp
  have get: "?get (offset p) 30 f' = (Inr us, f')"
    using fake_get_updates [OF assms(1), of a f' "offset p" 30] assms(2,3,6) wf' n unfolding a_def us_def ch by (simp add: fake_wf_def)
  have "List.map_filter batch_of (map (fake_update ?ch) xs) = []" if "\<forall>x \<in> set xs. fp_updateID x < nextID f" for xs
    using that by (induction xs) (auto simp: List.map_filter_simps batch_of_def)
  then have "List.map_filter batch_of (map (fake_update ?ch) (since (offset p) f)) = []" using ids by (simp add: since_def)
  then have mf: "List.map_filter batch_of us = [(q, d)]"
    using n by (simp add: us_def seen List.map_filter_def batch_of_def)
  have carry: "\<forall>u \<in> set us. case batch_of u of
        Some b \<Rightarrow> (\<exists>cp. ChannelPost u = Some cp \<and> carries (fake_stored f') p b cp)
      | None \<Rightarrow> (\<forall>cp. ChannelPost u = Some cp \<longrightarrow> foreign p cp)"
  proof
    fix u assume "u \<in> set us"
    then consider x where "x \<in> set (since (offset p) f)" "u = fake_update ?ch x" | "u = fake_update ?ch ?new" by (auto simp: us_def seen)
    then show "case batch_of u of
        Some b \<Rightarrow> (\<exists>cp. ChannelPost u = Some cp \<and> carries (fake_stored f') p b cp)
      | None \<Rightarrow> (\<forall>cp. ChannelPost u = Some cp \<longrightarrow> foreign p cp)"
    proof cases
      case 1
      then have "batch_of u = None" using ids [of x] by (auto simp: batch_of_def since_def)
      then show ?thesis using 1 assms(5) by (simp add: caught_up_def)
    next
      case 2
      have "files f' (''file'' @ fmt_d (nextID f)) = Some d" if "\<not> fitsTextBatch ?B q d"
        unfolding f'_def files_post_batch using that by simp
      then have "\<exists>cp. ChannelPost u = Some cp \<and> carries (fake_stored f') p (q, d) cp"
        using 2 pch n(1) by (auto simp: fake_update_def batch_post_def carries_def fake_stored_def)
      moreover have "batch_of u = Some (q, d)" using 2 n(1) by (simp add: batch_of_def)
      ultimately show ?thesis by simp
    qed
  qed
  have docs: "distinct (document_ids us)" unfolding us_def by (rule fake_wf_documents [OF wf'])
  have store: "file_store ?load fake_stored" using fake_store [OF assms(1), of a] assms(2,3) by (simp add: a_def)
  obtain p' s' where round: "poll_round ?get ?load p f' = ([d], 0, p', s')"
    using file_store.poll_round_batches [OF store, where getUpdates = ?get and p = p and s = f', OF get carry, unfolded mf] docs assms(7) by auto
  have "snd (?load fid s) = s" for fid s using fake_download_state [of a json w fid s] assms(2,3) by (simp add: a_def)
  note st = poll_round_state [OF get this round]
  have "nextID f + 1 = offset p'" unfolding st(4)
  proof (rule Max_eqI [symmetric])
    show "nextID f + 1 \<in> insert (offset p) ((\<lambda>u. UpdateID u + 1) ` set us)" using n(1) by (simp add: us_def seen)
  next
    fix y assume "y \<in> insert (offset p) ((\<lambda>u. UpdateID u + 1) ` set us)"
    then consider "y = offset p" | x where "x \<in> set (posts f)" "y = fp_updateID x + 1" | "y = nextID f + 1"
      using n(1) unfolding us_def seen by (auto simp: since_def)
    then show "y \<le> nextID f + 1"
    proof cases
      case 2
      then show ?thesis using ids [of x] by simp
    qed (use n(2) in auto)
  qed simp
  moreover have "\<forall>x \<in> set (posts f'). fp_updateID x < nextID f + 1" using wf' by (simp add: fake_wf_def ch)
  ultimately have "caught_up f' p'" using n(1) by (auto simp: caught_up_def ch st(3) pch since_def)
  then show ?thesis using round st by auto
qed

subsection \<open>Two links on one channel\<close>

text \<open>What is assumed of the compressor, the nonces and the JSON codec.\<close>

definition channel_ok :: "channel_env \<Rightarrow> bool" where
  "channel_ok e \<longleftrightarrow> (\<forall>x. ce_dec e (ce_enc e x) = Some x) \<and> (\<forall>x. length x \<le> 300 \<longrightarrow> length (ce_enc e x) \<le> MaxCompressedSize) \<and>
     (\<forall>q. \<exists>n. ce_rnd e q = Some n \<and> length n = nonceLen) \<and> json_ok (ce_json e) (ce_writeOK e)"

definition plain_token :: "string \<Rightarrow> bool" where
  "plain_token tok \<longleftrightarrow> CHR ''/'' \<notin> set tok \<and> CHR ''?'' \<notin> set tok"

text \<open>An idle link of bot \<open>B\<close> whose peer is \<open>B'\<close>, after at most \<open>k\<close> batches.\<close>

definition idle_link :: "bytes \<Rightarrow> int \<Rightarrow> int \<Rightarrow> int \<Rightarrow> nat \<Rightarrow> link_runtime \<Rightarrow> bool" where
  "idle_link key B B' ch k x \<longleftrightarrow> keyed key x \<and> buf (rt_batcher x) = [] \<and> inFlightBytes (rt_batcher x) = 0 \<and>
     unat (seqNum (rt_batcher x)) \<le> k \<and> rt_sender x = NewSender B ch \<and> peerBotID (rt_poller x) = B'"

definition linked :: "bytes \<Rightarrow> int \<Rightarrow> int \<Rightarrow> int \<Rightarrow> nat \<Rightarrow> link_runtime \<Rightarrow> link_runtime \<Rightarrow> fake \<Rightarrow> bool" where
  "linked key B B' ch k x y f \<longleftrightarrow> length key = keyLen \<and> B \<noteq> B' \<and> idle_link key B B' ch k x \<and> idle_link key B' B ch k y \<and>
     fake_wf f \<and> F_ChannelID f = ch \<and> nextID f \<le> int k \<and> caught_up f (rt_poller x) \<and> caught_up f (rt_poller y)"

lemma linked_sym: "linked key B B' ch k x y f \<Longrightarrow> linked key B' B ch k y x f"
  by (auto simp: linked_def)

text \<open>A frame queued on an idle link goes to the peer's multiplexer, and both links are idle again.\<close>

lemma frame_carried:
  assumes e: "channel_ok e" "plain_token tok" "plain_token tok'"
    and l: "linked key B B' ch k x y f" "k < 10 ^ 9"
    and x: "loaded fr x x1" "length (Frame_Marshal fr) \<le> 300"
    and h: "handle_frames now' [fr] (rt_mux y) = (m, as)"
  shows "\<exists>b p f'. flush_over e tok now x1 f = Some (x1\<lparr>rt_batcher := b\<rparr>, f')
    \<and> poll_over e tok' now' y f' = (as, y\<lparr>rt_poller := p, rt_mux := m\<rparr>, f')
    \<and> linked key B B' ch (k + 1) (x1\<lparr>rt_batcher := b\<rparr>) (y\<lparr>rt_poller := p, rt_mux := m\<rparr>) f'"
proof -
  let ?raw = "Frame_Marshal fr" and ?q = "seqNum (rt_batcher x) + 1"
  have x1: "buf (rt_batcher x1) = ?raw" "b_key (rt_batcher x1) = key" "seqNum (rt_batcher x1) = seqNum (rt_batcher x)"
    "inFlightBytes (rt_batcher x1) = 0" "rt_key x1 = key" "rt_sender x1 = NewSender B ch" "rt_poller x1 = rt_poller x"
    using x(1) l(1) by (simp_all add: loaded_def linked_def idle_link_def)
  have ix: "unat (seqNum (rt_batcher x)) \<le> k" "peerBotID (rt_poller x) = B'" and iy: "rt_key y = key" "peerBotID (rt_poller y) = B"
    "length key = keyLen" using l(1) by (simp_all add: linked_def idle_link_def)
  have q: "unat ?q = unat (seqNum (rt_batcher x)) + 1" using ix(1) l(2) by (simp add: unat_word_ariths)
  have "?raw \<noteq> []" by (simp add: Frame_Marshal_def)
  then obtain j b where j: "Flush (ce_grow e) now (rt_batcher x1) = (Some j, b)" "j_raw j = ?raw" "j_seq j = ?q" "buf b = []" "b_key b = key"
    "seqNum b = ?q" "inFlightBytes b = int (length ?raw)"
    using Flush_nonempty [of "rt_batcher x1" "ce_grow e" now] x1 by auto
  obtain n where n: "ce_rnd e ?q = Some n" "length n = nonceLen" using e(1) unfolding channel_ok_def by blast
  have small: "length (ce_enc e ?raw) \<le> MaxCompressedSize" using e(1) x(2) by (simp add: channel_ok_def)
  define s where "s = seal_layout (gcm_Seal key) n (ce_enc e ?raw)"
  have fl: "flushRaw (ce_enc e) (ce_rnd e) key ?q ?raw ?q = Some ([(?q, Inr s)], ?q)"
    using flushRaw_fits [of "ce_enc e" ?raw "ce_rnd e" key, OF small] n iy(3) by (simp add: SealEnvelope_key s_def)
  have size: "length s \<le> MaxSendDocumentSize"
    using small length_seal_layout [OF n(2)] by (simp add: s_def MaxSendDocumentSize_def MaxCompressedSize_def)
  have opens: "open_batch (ce_dec e) key s = [fr]"
    by (rule open_batch_sealed [where enc = "ce_enc e" and rnd = "ce_rnd e" and q = ?q and ctr = ?q and ctr' = ?q])
      (use e(1) fl n small x(2) iy(3) in \<open>auto simp: channel_ok_def\<close>)
  let ?b = "job_done j (b\<lparr>seqNum := ?q\<rparr>)" and ?f = "post_batch B f (?q, s)"
  have tok: "CHR ''/'' \<notin> set tok" "CHR ''?'' \<notin> set tok" "CHR ''/'' \<notin> set tok'" "CHR ''?'' \<notin> set tok'"
    using e(2,3) by (simp_all add: plain_token_def)
  have send: "Send (BotAPI_SendMessage (ce_json e) (http_of e) (api_of e tok)) (BotAPI_SendDocument (ce_json e) (http_of e) (api_of e tok))
      ?q s False (NewSender B ch, f) = Some (None, [LWaited, LRecorded], NewSender B ch, ?f)"
    using Send_fake [of "ce_json e" "ce_writeOK e" "api_of e tok" s ?q False B ch f] e(1) tok size by (simp add: channel_ok_def)
  have same: "x1\<lparr>rt_batcher := b', rt_sender := NewSender B ch\<rparr> = x1\<lparr>rt_batcher := b'\<rparr>" for b'
    using x1(6) by (cases x1) simp
  have flush: "flush_over e tok now x1 f = Some (x1\<lparr>rt_batcher := ?b\<rparr>, ?f)"
    using send by (simp add: flush_over_def j fl x1(6) List.map_filter_simps same)
  have wf: "fake_wf f" "caught_up f (rt_poller y)" "nextID f < 2 ^ 63" "unat ?q < 10 ^ 12"
    using l q ix(1) by (auto simp: linked_def)
  obtain p where round: "poll_round (BotAPI_GetUpdates (ce_json e) (http_of e) (api_of e tok')) (BotAPI_DownloadFile (ce_json e) (http_of e) (api_of e tok'))
      (rt_poller y) ?f = ([s], 0, p, ?f)" "caught_up ?f p" "peerBotID p = B"
    using poll_gets_batch [OF _ tok(3,4) wf, where json = "ce_json e" and w = "ce_writeOK e" and d = s and base = "ce_base e"] e(1) unfolding iy(2) by (auto simp: channel_ok_def)
  have poll: "poll_over e tok' now' y ?f = (as, y\<lparr>rt_poller := p, rt_mux := m\<rparr>, ?f)"
    using recvLoop_opened [of "ce_dec e" "y\<lparr>rt_poller := p\<rparr>" s "[fr]" now'] opens h iy(1) by (simp add: poll_over_def round(1))
  have "caught_up ?f (rt_poller x)" "fake_wf ?f"
    using caught_up_other [of f "rt_poller x" B "(?q, s)"] fake_wf_post [of f B "(?q, s)"] l(1) ix(2) by (auto simp: linked_def)
  then have "linked key B B' ch (k + 1) (x1\<lparr>rt_batcher := ?b\<rparr>) (y\<lparr>rt_poller := p, rt_mux := m\<rparr>) ?f"
    using l(1) x1 j(2,4,5,7) q round(2,3) by (simp add: linked_def idle_link_def post_batch_post job_done_def putBuf_def Let_def)
  then show ?thesis using flush poll by blast
qed

end
