(* ===== verification/Bench.thy ===== *)
theory Bench
  imports Socks5 Go_Net Go_Float
begin

text \<open>
  The parts of \<^verbatim>\<open>cmd/vtel-bench\<close> that compute: the SOCKS5 client the benchmark drives the tunnel with,
  its operations and the two sweeps (\<^verbatim>\<open>main.go\<close>), and the rates and percentiles of \<^verbatim>\<open>report.go\<close>. The harness
  is set up in \<^verbatim>\<open>Smoke_Test\<close>; clock readings are arguments, and printing is left out.
\<close>

subsection \<open>Definitions\<close>

definition percentile :: "int list \<Rightarrow> rat \<Rightarrow> int" where
  "percentile ds p =
     (if length ds = 0 then 0
      else let idx = trunc (fmul p (float64 (int (length ds) - 1)));
               idx1 = (if idx < 0 then 0 else idx);
               idx2 = (if int (length ds) \<le> idx1 then int (length ds) - 1 else idx1)
           in ds ! nat idx2)"

text \<open>
  \<^verbatim>\<open>socksConnect\<close>, once connected to the proxy: what it writes, given what the proxy sends back, and
  whether it returns a connection.
\<close>

definition socksConnect :: "string \<Rightarrow> bytes \<Rightarrow> bytes \<times> bool" where
  "socksConnect target inp =
     (let hello = [0x05, 0x01, 0x00]
      in case ReadFull 2 inp of
           Inl _ \<Rightarrow> (hello, False)
         | Inr (greet, inp1) \<Rightarrow>
             if greet ! 0 \<noteq> 0x05 \<or> greet ! 1 \<noteq> 0x00 then (hello, False)
             else case SplitHostPort target of
               None \<Rightarrow> (hello, False)
             | Some (host, portStr) \<Rightarrow>
                 (case ParseInt portStr of
                    None \<Rightarrow> (hello, False)
                  | Some port \<Rightarrow>
                      (case Option.bind (ParseIP host) To4 of
                         None \<Rightarrow> (hello, False)
                       | Some ip \<Rightarrow>
                           let req = [0x05, 0x01, 0x00, 0x01] @ ip @ PutUint16 (word_of_int port)
                           in (case ReadFull 10 inp1 of
                                 Inl _ \<Rightarrow> (hello @ req, False)
                               | Inr (rep, _) \<Rightarrow> (hello @ req, rep ! 1 = 0x00)))))"

subsection \<open>Lemmas\<close>

lemma To4_length: "To4 ip = Some q \<Longrightarrow> length q = 4"
  by (auto simp: To4_def split: if_splits)

lemma percentile_mem:
  assumes "ds \<noteq> []"
  shows "percentile ds p \<in> set ds"
proof -
  have "nat (int (length ds) - 1) < length ds" using assms by (cases ds) simp_all
  then show ?thesis using assms by (auto simp: percentile_def Let_def intro!: nth_mem)
qed

subsection \<open>Properties\<close>

text \<open>
  The benchmark's SOCKS5 client and the SOCKS5 server of the tunnel speak the same protocol:
  the bytes the client writes for an IPv4 target make the server call its handler with exactly
  that address and port and nothing left unread, unless the address is one of those the server
  rejects; and on the server's greeting and the success reply the client reports success, on the
  failure and the reject replies it does not.
\<close>

lemma bench_handshake:
  assumes "SplitHostPort target = Some (host, portStr)" "ParseInt portStr = Some port"
    and "ParseIP host = Some ip16" "To4 ip16 = Some ip"
  shows "let req = \<lparr>R_AddrType = 0x01, R_Addr = ip, R_Port = word_of_int port\<rparr>
    in (\<not> immediate_reject rej req \<longrightarrow>
          handleConn rej True (fst (socksConnect target ([0x05, 0x00] @ SendSuccess))) = ([0x05, 0x00], SHandled req []))
       \<and> snd (socksConnect target ([0x05, 0x00] @ SendSuccess))
       \<and> \<not> snd (socksConnect target ([0x05, 0x00] @ SendFailure))
       \<and> \<not> snd (socksConnect target ([0x05, 0x00] @ rejectHostUnreachable))"
proof -
  let ?req = "\<lparr>R_AddrType = 0x01, R_Addr = ip, R_Port = word_of_int port\<rparr>"
  have s: "socksConnect target ([0x05, 0x00] @ reply c) =
      ([0x05, 0x01, 0x00] @ [0x05, 0x01, 0x00, 0x01] @ ip @ PutUint16 (word_of_int port), c = 0x00)" for c
    using assms by (simp add: socksConnect_def ReadFull_def reply_def Let_def)
  have "client_bytes [0x00] 0x00 ?req = [0x05, 0x01, 0x00] @ [0x05, 0x01, 0x00, 0x01] @ ip @ PutUint16 (word_of_int port)"
    by (simp add: client_bytes_def byte_of_int_def)
  moreover have "wf_request ?req" using To4_length [OF assms(4)] by (simp add: wf_request_def)
  ultimately have "handleConn rej True ([0x05, 0x01, 0x00] @ [0x05, 0x01, 0x00, 0x01] @ ip @ PutUint16 (word_of_int port))
      = ([0x05, 0x00], SHandled ?req [])" if "\<not> immediate_reject rej ?req"
    unfolding handleConn_iff using that by (intro conjI TrueI refl exI [of _ "[0x00]"] exI [of _ "0x00"]) simp_all
  then show ?thesis unfolding Let_def SendSuccess_def SendFailure_def rejectHostUnreachable_def s by simp
qed

subsection \<open>The benchmark's operations\<close>

text \<open>\<open>None\<close> is the exit for a part that is no integer.\<close>

definition parseIntList :: "string \<Rightarrow> int list option" where
  "parseIntList s = those (map ParseInt (filter (\<lambda>p. p \<noteq> '''') (map TrimSpace (Split s CHR '',''))))"

text \<open>
  One stream over the proxy: what is written, and what the operation counts. \<open>inp\<close> is everything the
  proxy sends back before the read deadline; the 12 bytes of the handshake come first. The bytes that
  come back are not compared with those sent.
\<close>

definition echoRoundTrip :: "string \<Rightarrow> bytes \<Rightarrow> bytes \<Rightarrow> bytes \<times> nat option" where
  "echoRoundTrip target payload inp =
     (let (out, ok) = socksConnect target inp
      in if \<not> ok then (out, None)
         else case ReadFull (length payload) (drop 12 inp) of
           Inl _ \<Rightarrow> (out @ payload, None)
         | Inr _ \<Rightarrow> (out @ payload, Some (length payload)))"

text \<open>The sum that \<^verbatim>\<open>runThroughput\<close> makes of its streams, in the order they end.\<close>

definition throughput_total :: "nat option list \<Rightarrow> int" where
  "throughput_total rs = fold (\<lambda>r t. case r of None \<Rightarrow> t | Some n \<Rightarrow> int64 (t + int64 (int n * 2))) rs 0"

text \<open>\<^verbatim>\<open>Duration.Seconds\<close>, here for the positive durations the report has.\<close>

definition Seconds :: "duration \<Rightarrow> rat" where
  "Seconds d = fadd (float64 (d div 10 ^ 9)) (fdiv (float64 (d mod 10 ^ 9)) (10 ^ 9))"

definition mbps :: "int \<Rightarrow> duration \<Rightarrow> rat" where
  "mbps totalBytes elapsed =
     (if elapsed \<le> 0 then 0
      else let bits = fmul (float64 totalBytes) 8 in fdiv (fdiv bits (Seconds elapsed)) (10 ^ 6))"

definition opsPerSec :: "int \<Rightarrow> duration \<Rightarrow> rat" where
  "opsPerSec ops elapsed = (if elapsed \<le> 0 then 0 else fdiv (float64 ops) (Seconds elapsed))"

text \<open>A list of integers reads back as it is written, with spaces allowed around the commas.\<close>

lemma those_map_Some: "those (map (\<lambda>x. Some (f x)) xs) = Some (map f xs)"
  by (induction xs) simp_all

lemma parseIntList_printed:
  assumes "ns \<noteq> []" "\<forall>n \<in> set ns. - (2 ^ 63) \<le> n \<and> n < 2 ^ 63"
  shows "parseIntList (Join (map fmt_d ns) CHR '','') = Some ns"
proof -
  have "CHR '','' \<notin> set (fmt_d n)" for n using fmt_d_chars [of n] by (auto simp: is_digit_def)
  then have s: "Split (Join (map fmt_d ns) CHR '','') CHR '','' = map fmt_d ns" using assms(1) by (intro Split_Join) auto
  have "fmt_d n \<noteq> ''''" for n by (simp add: fmt_d_def)
  then have "filter (\<lambda>p. p \<noteq> '''') (map TrimSpace (map fmt_d ns)) = map fmt_d ns"
    by (simp add: comp_def TrimSpace_fmt_d filter_map)
  moreover have "map ParseInt (map fmt_d ns) = map (\<lambda>n. Some n) ns" using assms(2) by (simp add: ParseInt_fmt_d)
  ultimately show ?thesis unfolding parseIntList_def s by (simp only: those_map_Some) simp
qed

lemma throughput_total_counts:
  assumes "(\<Sum>r\<leftarrow>rs. case r of None \<Rightarrow> 0 | Some n \<Rightarrow> int n * 2) < 2 ^ 63"
  shows "throughput_total rs = (\<Sum>r\<leftarrow>rs. case r of None \<Rightarrow> 0 | Some n \<Rightarrow> int n * 2)"
proof -
  let ?v = "\<lambda>r. case r of None \<Rightarrow> 0 | Some n \<Rightarrow> int n * 2"
  have nonneg: "0 \<le> (\<Sum>r\<leftarrow>rs. ?v r)" for rs by (induction rs) (auto split: option.split)
  have "fold (\<lambda>r t. case r of None \<Rightarrow> t | Some n \<Rightarrow> int64 (t + int64 (int n * 2))) rs t = t + (\<Sum>r\<leftarrow>rs. ?v r)"
    if "0 \<le> t" "t + (\<Sum>r\<leftarrow>rs. ?v r) < 2 ^ 63" for t using that
  proof (induction rs arbitrary: t)
    case (Cons r rs)
    have v: "0 \<le> ?v r" by (cases r) simp_all
    have sum: "(\<Sum>r\<leftarrow>r # rs. ?v r) = ?v r + (\<Sum>r\<leftarrow>rs. ?v r)" by simp
    then have b: "t + ?v r < 2 ^ 63" using Cons.prems nonneg [of rs] by linarith
    have "(case r of None \<Rightarrow> t | Some n \<Rightarrow> int64 (t + int64 (int n * 2))) = t + ?v r"
      using b v Cons.prems(1) by (cases r) simp_all
    moreover have "0 \<le> t + ?v r" "t + ?v r + (\<Sum>r\<leftarrow>rs. ?v r) < 2 ^ 63" using v Cons.prems sum by linarith+
    ultimately show ?case using Cons.IH [of "t + ?v r"] sum by (simp only: fold_Cons comp_apply add.assoc)
  qed simp
  from this [of 0, OF order_refl] show ?thesis unfolding throughput_total_def using assms by (simp only: add_0)
qed

lemma rates_nonneg: "0 \<le> bytes \<Longrightarrow> 0 \<le> mbps bytes elapsed" "0 \<le> ops \<Longrightarrow> 0 \<le> opsPerSec ops elapsed"
  by (auto simp: mbps_def opsPerSec_def Seconds_def fadd_def fdiv_def fmul_def float64_def Let_def
      intro!: f64_nonneg divide_nonneg_nonneg mult_nonneg_nonneg add_nonneg_nonneg)

text \<open>An operation succeeds as soon as enough bytes come back, whatever they are.\<close>

lemma echo_not_compared:
  assumes "snd (socksConnect target inp)" "length payload + 12 \<le> length inp"
  shows "snd (echoRoundTrip target payload inp) = Some (length payload)"
  using assms by (auto simp: echoRoundTrip_def ReadFull_def Let_def split: prod.splits)


subsection \<open>The sweeps\<close>

text \<open>
  \<^verbatim>\<open>timedEchoOp\<close> over the bytes the proxy sends back with the times at which they can be read: what is
  written and the time from the start to the first byte of the echo. The payload has at least one byte.
\<close>

definition timedEchoOp :: "string \<Rightarrow> bytes \<Rightarrow> time \<Rightarrow> (time \<times> byte) list \<Rightarrow> bytes \<times> duration option" where
  "timedEchoOp target payload start inp =
     (let (out, ok) = socksConnect target (map snd inp); echo = drop 12 inp
      in if \<not> ok then (out, None)
         else case ReadFull 1 (map snd echo) of
           Inl _ \<Rightarrow> (out @ payload, None)
         | Inr (_, rest) \<Rightarrow>
             let latency = fst (hd echo) - start
             in if 1 < length payload
                then (case ReadFull (length payload - 1) rest of
                        Inl _ \<Rightarrow> (out @ payload, None)
                      | Inr _ \<Rightarrow> (out @ payload, Some latency))
                else (out @ payload, Some latency))"

record throughput_result =
  tr_links :: int
  tr_totalBytes :: int
  tr_elapsed :: duration

text \<open>\<open>stream\<close> gives the outcome of each of the streams, \<open>order\<close> the order in which they end.\<close>

definition runThroughput :: "int \<Rightarrow> (nat \<Rightarrow> nat option) \<Rightarrow> (nat list \<Rightarrow> nat list) \<Rightarrow> duration \<Rightarrow> throughput_result" where
  "runThroughput linkCount stream order elapsed =
     (let concurrency = (if linkCount < 1 then 1 else linkCount)
      in \<lparr>tr_links = linkCount, tr_totalBytes = throughput_total (map stream (order [0..<nat concurrency])), tr_elapsed = elapsed\<rparr>)"

text \<open>The workers of \<^verbatim>\<open>runScaling\<close> take the queued operations from a closed channel.\<close>

record scaling_pool =
  queued :: nat
  idle_workers :: nat
  busy :: nat
  latencies :: "duration list"
  op_errors :: nat

definition scaling_start :: "nat \<Rightarrow> nat \<Rightarrow> scaling_pool" where
  "scaling_start concurrency opsPerLevel =
     \<lparr>queued = opsPerLevel, idle_workers = concurrency, busy = 0, latencies = [], op_errors = 0\<rparr>"

inductive scaling_step :: "scaling_pool \<Rightarrow> scaling_pool \<Rightarrow> bool" where
  take_op: "queued p = Suc n \<Longrightarrow> idle_workers p = Suc w \<Longrightarrow>
    scaling_step p (p\<lparr>queued := n, idle_workers := w, busy := Suc (busy p)\<rparr>)"
| op_done: "busy p = Suc k \<Longrightarrow>
    scaling_step p (p\<lparr>busy := k, idle_workers := Suc (idle_workers p), latencies := latencies p @ [lat]\<rparr>)"
| op_failed: "busy p = Suc k \<Longrightarrow>
    scaling_step p (p\<lparr>busy := k, idle_workers := Suc (idle_workers p), op_errors := Suc (op_errors p)\<rparr>)"

inductive_cases scaling_stepE: "scaling_step p p'"

record scaling_result =
  sr_concurrency :: nat
  sr_ops :: nat
  sr_elapsed :: duration
  sr_latencies :: "duration list"

definition runScaling :: "nat \<Rightarrow> duration \<Rightarrow> scaling_pool \<Rightarrow> scaling_result" where
  "runScaling concurrency elapsed p =
     \<lparr>sr_concurrency = concurrency, sr_ops = length (latencies p), sr_elapsed = elapsed, sr_latencies = latencies p\<rparr>"

text \<open>A row of the latency report: operations per second and the three percentiles.\<close>

definition scaling_row :: "scaling_result \<Rightarrow> nat \<times> nat \<times> rat \<times> duration \<times> duration \<times> duration" where
  "scaling_row r =
     (let ds = sort (sr_latencies r)
      in (sr_concurrency r, sr_ops r, opsPerSec (int (sr_ops r)) (sr_elapsed r),
          percentile ds (f64 (1 / 2)), percentile ds (f64 (9 / 10)), percentile ds (f64 (99 / 100))))"

text \<open>The sum over the links in \<^verbatim>\<open>printRetry429Report\<close>; \<open>None\<close>: there are no links.\<close>

definition retry429_total :: "int list \<Rightarrow> int option" where
  "retry429_total counts = (if counts = [] then None else Some (fold (\<lambda>c t. int64 (t + c)) counts 0))"

text \<open>
  \<^verbatim>\<open>main\<close>: the results of the two sweeps and the counts of the last level; \<open>None\<close>: it exits for a flag
  that is no list of integers. The flag for a live configuration changes nothing.
\<close>

definition bench_main ::
  "string \<Rightarrow> string \<Rightarrow> string \<Rightarrow> (int \<Rightarrow> throughput_result) \<Rightarrow> (int \<Rightarrow> scaling_result \<times> int list)
    \<Rightarrow> (throughput_result list \<times> scaling_result list \<times> int list) option" where
  "bench_main linksFlag concurrencyFlag liveConfig throughput scaling =
     (case (parseIntList linksFlag, parseIntList concurrencyFlag) of
        (Some linkCounts, Some concurrencies) \<Rightarrow>
          let rs = map scaling concurrencies
          in Some (map throughput linkCounts, map fst rs, if rs = [] then [] else snd (last rs))
      | _ \<Rightarrow> None)"

text \<open>No operation is lost or done twice, whatever the workers do in which order.\<close>

lemma scaling_pool_inv:
  "scaling_step\<^sup>*\<^sup>* (scaling_start c n) p \<Longrightarrow>
     queued p + busy p + length (latencies p) + op_errors p = n \<and> busy p + idle_workers p = c"
  by (induction rule: rtranclp_induct) (auto simp: scaling_start_def elim!: scaling_stepE)

lemma scaling_pool_ends:
  assumes "scaling_step\<^sup>*\<^sup>* (scaling_start c n) p" "\<nexists>p'. scaling_step p p'" "0 < c"
  shows "sr_ops (runScaling c elapsed p) + op_errors p = n"
proof -
  have "busy p = 0" using assms(2) op_done [of p _] by (cases "busy p") blast+
  moreover have "queued p = 0 \<or> idle_workers p = 0" using assms(2) take_op [of p] by (cases "queued p"; cases "idle_workers p") blast+
  ultimately show ?thesis using scaling_pool_inv [OF assms(1)] assms(3) by (auto simp: runScaling_def)
qed

lemma scaling_pool_terminates: "wfP (\<lambda>p' p. scaling_step p p')"
  by (rule wfp_if_convertible_to_nat [where f = "\<lambda>p. 2 * queued p + busy p"]) (auto elim!: scaling_stepE)

text \<open>The latency of an operation is that of its first byte, and needs all of them.\<close>

lemma timedEchoOp_latency:
  assumes "payload \<noteq> []"
  shows "snd (timedEchoOp target payload start inp) =
    (if snd (socksConnect target (map snd inp)) \<and> length payload + 12 \<le> length inp then Some (fst (inp ! 12) - start) else None)"
proof -
  have hd: "hd (drop 12 inp) = inp ! 12" if "12 < length inp" using that by (simp add: hd_drop_conv_nth)
  show ?thesis using assms hd
    by (cases payload) (auto simp: timedEchoOp_def ReadFull_def Let_def split: prod.splits)
qed

subsection \<open>The percentiles of a report are in order\<close>

lemma f64_mono_gap:
  assumes "0 \<le> x" "x * (1 + 1 / 2 ^ 53) \<le> y * (1 - 1 / 2 ^ 53)" "0 \<le> y"
  shows "f64 x \<le> f64 y"
  using f64_bounds(2) [OF assms(1)] f64_bounds(1) [OF assms(3)] assms(2) by linarith

lemma percentile_mono:
  assumes "sorted ds" "0 \<le> p" "0 \<le> q" "p * (1 + 1 / 2 ^ 53) \<le> q * (1 - 1 / 2 ^ 53)"
  shows "percentile ds p \<le> percentile ds q"
proof (cases "ds = []")
  case False
  define N where "N = float64 (int (length ds) - 1)"
  have N: "0 \<le> N" using False unfolding N_def float64_def by (intro f64_nonneg) (cases ds, simp_all)
  have "p * N * (1 + 1 / 2 ^ 53) \<le> q * N * (1 - 1 / 2 ^ 53)"
    using mult_right_mono [OF assms(4) N] by (simp add: mult.commute mult.left_commute)
  then have "fmul p N \<le> fmul q N"
    unfolding fmul_def by (intro f64_mono_gap) (use assms(2,3) N in simp_all)
  moreover have "0 \<le> fmul p N" unfolding fmul_def using assms(2) N by (intro f64_nonneg) simp
  ultimately have t: "trunc (fmul p N) \<le> trunc (fmul q N)" "0 \<le> trunc (fmul p N)" by (auto simp: trunc_def floor_mono)
  define clamp where "clamp = (\<lambda>i. nat (if int (length ds) \<le> i then int (length ds) - 1 else i))"
  have "clamp (trunc (fmul p N)) \<le> clamp (trunc (fmul q N))" "clamp (trunc (fmul q N)) < length ds"
    using t False by (auto simp: clamp_def nat_less_iff)
  then have "ds ! clamp (trunc (fmul p N)) \<le> ds ! clamp (trunc (fmul q N))" using assms(1) by (simp add: sorted_nth_mono)
  moreover have "percentile ds r = ds ! clamp (trunc (fmul r N))" if "0 \<le> trunc (fmul r N)" for r
    using that False by (simp add: percentile_def clamp_def N_def Let_def)
  ultimately show ?thesis using t by simp
qed (simp add: percentile_def)

lemma report_row_ordered:
  "scaling_row r = (c, n, rate, p50, p90, p99) \<Longrightarrow> p50 \<le> p90 \<and> p90 \<le> p99"
proof -
  assume r: "scaling_row r = (c, n, rate, p50, p90, p99)"
  have b: "f64 (1 / 2) \<le> 1 / 2 * (1 + 1 / 2 ^ 53)" "9 / 10 * (1 - 1 / 2 ^ 53) \<le> f64 (9 / 10)" "f64 (9 / 10) \<le> 9 / 10 * (1 + 1 / 2 ^ 53)"
    "99 / 100 * (1 - 1 / 2 ^ 53) \<le> f64 (99 / 100)" "0 \<le> f64 (1 / 2)" "0 \<le> f64 (9 / 10)" "0 \<le> f64 (99 / 100)"
    by (intro f64_bounds f64_nonneg; simp)+
  have "percentile (sort (sr_latencies r)) (f64 (1 / 2)) \<le> percentile (sort (sr_latencies r)) (f64 (9 / 10))"
    by (rule percentile_mono) (use b in auto)
  moreover have "percentile (sort (sr_latencies r)) (f64 (9 / 10)) \<le> percentile (sort (sr_latencies r)) (f64 (99 / 100))"
    by (rule percentile_mono) (use b in auto)
  ultimately show ?thesis using r by (simp add: scaling_row_def Let_def)
qed

end
