(* ===== verification/Smoke_Test.thy ===== *)
theory Smoke_Test
  imports Fake_Channel Tunnel_System Bench
begin

text \<open>
  The program that wires everything together: \<^verbatim>\<open>cmd/smoketest\<close>, which drives one SOCKS5 CONNECT and
  one payload through a client, the in-memory server and a server to an echo target and back, and the
  harness of \<^verbatim>\<open>cmd/vtel-bench\<close>, which sets up many such links on one channel. Shown is that the links of
  the harness are paired and isolated, and that the smoke test passes exactly if the echo target can
  be dialled.
\<close>

subsection \<open>Setting up the links\<close>

definition fakeChannelID :: int where "fakeChannelID = -100123456789"
definition benchChannelID :: int where "benchChannelID = -100987654321"

text \<open>One bot on each side, asked for their numbers; each is told the number of the other.\<close>

definition link_pair ::
  "channel_env \<Rightarrow> string \<Rightarrow> string \<Rightarrow> int \<Rightarrow> int \<Rightarrow> bytes \<Rightarrow> compression_level \<Rightarrow> fake
    \<Rightarrow> (string + link_spec \<times> link_spec) \<times> fake" where
  "link_pair e ctok stok k ch key level f =
     (case BotAPI_GetMe (ce_json e) (http_of e) (api_of e ctok) f of
        (Inl _, f1) \<Rightarrow> (Inl ''client GetMe'', f1)
      | (Inr clientMe, f1) \<Rightarrow>
          (case BotAPI_GetMe (ce_json e) (http_of e) (api_of e stok) f1 of
             (Inl _, f2) \<Rightarrow> (Inl ''server GetMe'', f2)
           | (Inr serverMe, f2) \<Rightarrow>
               (Inr (\<lparr>SpecID = k, SpecBotID = User_ID clientMe, SpecPeerBotID = User_ID serverMe, SpecChannelID = ch,
                      Key = key, SpecLevel = level, QuietHours = None\<rparr>,
                     \<lparr>SpecID = k, SpecBotID = User_ID serverMe, SpecPeerBotID = User_ID clientMe, SpecChannelID = ch,
                      Key = key, SpecLevel = level, QuietHours = None\<rparr>), f2)))"

definition bench_token :: "string \<Rightarrow> nat \<Rightarrow> string" where
  "bench_token who i = ''bench-'' @ who @ ''-'' @ fmt_d (int i)"

fun link_pairs ::
  "channel_env \<Rightarrow> bytes \<Rightarrow> compression_level \<Rightarrow> nat \<Rightarrow> nat \<Rightarrow> fake
    \<Rightarrow> (string + link_spec list \<times> link_spec list) \<times> fake" where
  "link_pairs e key level i 0 f = (Inr ([], []), f)"
| "link_pairs e key level i (Suc n) f =
     (case link_pair e (bench_token ''client'' i) (bench_token ''server'' i) (int i) benchChannelID key level f of
        (Inl err, f1) \<Rightarrow> (Inl err, f1)
      | (Inr (c, s), f1) \<Rightarrow>
          (case link_pairs e key level (Suc i) n f1 of
             (Inl err, f2) \<Rightarrow> (Inl err, f2)
           | (Inr (cs, ss), f2) \<Rightarrow> (Inr (c # cs, s # ss), f2)))"

text \<open>\<open>None\<close>: the program exits.\<close>

definition newHarness :: "channel_env \<Rightarrow> nat \<Rightarrow> (client \<times> server \<times> fake) option" where
  "newHarness e linkCount =
     (case DeriveKey ''bench-secret'' of
        Inl _ \<Rightarrow> None
      | Inr key \<Rightarrow>
          (case ParseCompressionLevel '''' of
             Inl _ \<Rightarrow> None
           | Inr level \<Rightarrow>
               (case link_pairs e key level 0 linkCount (New benchChannelID) of
                  (Inl _, _) \<Rightarrow> None
                | (Inr (clientSpecs, serverSpecs), f) \<Rightarrow> Some (NewClient clientSpecs, NewServer serverSpecs, f))))"

subsection \<open>The two sides on the channel\<close>

definition client_flush :: "channel_env \<Rightarrow> string \<Rightarrow> time \<Rightarrow> int \<Rightarrow> client \<Rightarrow> fake \<Rightarrow> (client \<times> fake) option" where
  "client_flush e tok now k c f =
     (case c_links c k of
        None \<Rightarrow> None
      | Some lr \<Rightarrow> map_option (\<lambda>(lr', f'). (c\<lparr>c_links := (c_links c)(k \<mapsto> lr')\<rparr>, f')) (flush_over e tok now lr f))"

definition server_flush :: "channel_env \<Rightarrow> string \<Rightarrow> time \<Rightarrow> int \<Rightarrow> server \<Rightarrow> fake \<Rightarrow> (server \<times> fake) option" where
  "server_flush e tok now k sv f =
     (case sv_links sv k of
        None \<Rightarrow> None
      | Some lr \<Rightarrow> map_option (\<lambda>(lr', f'). (sv\<lparr>sv_links := (sv_links sv)(k \<mapsto> lr')\<rparr>, f')) (flush_over e tok now lr f))"

text \<open>A poll with the callbacks it sets off; on the client also the attempts it wakes.\<close>

definition client_poll ::
  "channel_env \<Rightarrow> string \<Rightarrow> time \<Rightarrow> int \<Rightarrow> client \<Rightarrow> fake \<Rightarrow> mux_action list \<times> conn_id list \<times> client \<times> fake" where
  "client_poll e tok now k c f =
     (case c_links c k of
        None \<Rightarrow> ([], [], c, f)
      | Some lr \<Rightarrow>
          (let (as, lr', f') = poll_over e tok now lr f;
               (woken, c') = client_actions as (c\<lparr>c_links := (c_links c)(k \<mapsto> lr')\<rparr>)
           in (as, woken, c', f')))"

definition server_poll ::
  "channel_env \<Rightarrow> batcher send_frame \<Rightarrow> dial_env \<Rightarrow> string \<Rightarrow> int \<Rightarrow> server \<Rightarrow> fake \<Rightarrow> mux_action list \<times> server \<times> fake" where
  "server_poll e add env tok k sv f =
     (case sv_links sv k of
        None \<Rightarrow> ([], sv, f)
      | Some lr \<Rightarrow>
          (let (as, lr', f') = poll_over e tok (env_now env) lr f
           in (as, server_actions add env k as (sv\<lparr>sv_links := (sv_links sv)(k \<mapsto> lr')\<rparr>), f')))"

text \<open>One read of an application's bytes handed to \<^verbatim>\<open>SendData\<close>, on either side.\<close>

definition client_write :: "batcher send_frame \<Rightarrow> int \<Rightarrow> conn_id \<Rightarrow> bytes \<Rightarrow> client \<Rightarrow> client" where
  "client_write add k i d c =
     upd_link k (\<lambda>lr. let (ok, m, b) = SendData add (rt_mux lr) (rt_batcher lr) i d in lr\<lparr>rt_mux := m, rt_batcher := b\<rparr>) c"

definition server_write :: "batcher send_frame \<Rightarrow> int \<Rightarrow> conn_id \<Rightarrow> bytes \<Rightarrow> server \<Rightarrow> server" where
  "server_write add k i d sv =
     sv\<lparr>sv_links := (sv_links sv)(k := map_option
        (\<lambda>lr. let (ok, m, b) = SendData add (rt_mux lr) (rt_batcher lr) i d in lr\<lparr>rt_mux := m, rt_batcher := b\<rparr>) (sv_links sv k))\<rparr>"

subsection \<open>The smoke test\<close>

abbreviation ctoken :: string where "ctoken \<equiv> ''faketoken-client''"
abbreviation stoken :: string where "stoken \<equiv> ''faketoken-server''"

text \<open>The test has its own copy of the SOCKS5 client, the same line by line as the one of the benchmark.\<close>

definition smoke_socksConnect :: "string \<Rightarrow> bytes \<Rightarrow> bytes \<times> bool" where
  "smoke_socksConnect target inp = socksConnect target inp"

text \<open>
  The goroutines of the two sides, one after the other: the CONNECT goes out and is answered; \<open>None\<close>
  if nobody is woken, so that no success reply is written.
\<close>

definition smoke_connect ::
  "channel_env \<Rightarrow> rat \<Rightarrow> time \<Rightarrow> dial_env \<Rightarrow> conn_id list \<Rightarrow> connect_request \<Rightarrow> client \<Rightarrow> server \<Rightarrow> fake
    \<Rightarrow> (conn_id \<times> client \<times> server \<times> fake) option" where
  "smoke_connect e u now env draws req c sv f =
     do {
       (i, c1) \<leftarrow> try_start (Add_poll u now) now draws req 0 c;
       (c2, f1) \<leftarrow> client_flush e ctoken now 0 c1 f;
       let (_, sv1, f2) = server_poll e (Add_poll u (env_now env)) env stoken 0 sv f1;
       (sv2, f3) \<leftarrow> server_flush e stoken (env_now env) 0 sv1 f2;
       let (_, woken, c3, f4) = client_poll e ctoken now 0 c2 f3;
       if i \<in> set woken
       then (case try_finish (Add_poll u now) now 0 i (Acked True) c3 of
               (None, c4) \<Rightarrow> Some (i, c4, sv2, f4)
             | _ \<Rightarrow> None)
       else None
     }"

text \<open>The payload to the echo target, which returns what it is sent, and back: what the client's side can read.\<close>

definition smoke_echo ::
  "channel_env \<Rightarrow> rat \<Rightarrow> time \<Rightarrow> dial_env \<Rightarrow> conn_id \<Rightarrow> bytes \<Rightarrow> client \<Rightarrow> server \<Rightarrow> fake \<Rightarrow> bytes option" where
  "smoke_echo e u now env i want c sv f =
     do {
       (c1, f1) \<leftarrow> client_flush e ctoken now 0 (client_write (Add_poll u now) 0 i want c) f;
       let (as, sv1, f2) = server_poll e (Add_poll u (env_now env)) env stoken 0 sv f1;
       (sv2, f3) \<leftarrow> server_flush e stoken (env_now env) 0
         (server_write (Add_poll u (env_now env)) 0 i (concat (pushes i as)) sv1) f2;
       let (as', _, _, _) = client_poll e ctoken now 0 c1 f3;
       Some (concat (pushes i as'))
     }"

datatype smoke_result = Passed | Failed string

definition smoke_want :: bytes where
  "smoke_want = bytes_of_string ''hello through the fake telegram tunnel, stage 2''"

text \<open>
  \<open>port\<close> is the one the echo target listens on. A read that gets no more bytes fails at its deadline;
  writes to the local proxy succeed. The two \<^verbatim>\<open>Stop\<close> calls before the end are modelled in \<^verbatim>\<open>Tunnel_Session\<close>.
\<close>

definition smoke_main :: "channel_env \<Rightarrow> rat \<Rightarrow> time \<Rightarrow> dial_env \<Rightarrow> conn_id list \<Rightarrow> nat \<Rightarrow> smoke_result" where
  "smoke_main e u now env draws port =
     (case DeriveKey ''smoketest-secret'' of
        Inl _ \<Rightarrow> Failed ''DeriveKey''
      | Inr key \<Rightarrow>
     (case ParseCompressionLevel '''' of
        Inl _ \<Rightarrow> Failed ''ParseCompressionLevel''
      | Inr level \<Rightarrow>
     (case link_pair e ctoken stoken 0 fakeChannelID key level (New fakeChannelID) of
        (Inl what, _) \<Rightarrow> Failed what
      | (Inr (clientSpec, serverSpec), f) \<Rightarrow>
          let echoAddr = ''127.0.0.1:'' @ fmt_d (int port)
          in case handleConn False True (fst (smoke_socksConnect echoAddr [0x05, 0x00])) of
               (_, SClosed) \<Rightarrow> Failed ''socksConnect''
             | (greet, SHandled req _) \<Rightarrow>
                 (case smoke_connect e u now env draws req (NewClient [clientSpec]) (NewServer [serverSpec]) f of
                    None \<Rightarrow> Failed ''socksConnect''
                  | Some (i, c, sv, f') \<Rightarrow>
                      if \<not> snd (smoke_socksConnect echoAddr (greet @ SendSuccess)) then Failed ''socksConnect''
                      else (case smoke_echo e u now env i smoke_want c sv f' of
                              None \<Rightarrow> Failed ''read echo''
                            | Some inp \<Rightarrow>
                                (case ReadFull (length smoke_want) inp of
                                   Inl _ \<Rightarrow> Failed ''read echo''
                                 | Inr (got, _) \<Rightarrow> if got \<noteq> smoke_want then Failed ''echo mismatch'' else Passed))))))"


subsection \<open>Asking for the numbers\<close>

lemma fake_get_me:
  assumes "json_ok json w" "plain_token tok"
  shows "BotAPI_GetMe json (fake_http w base) \<lparr>token = tok, hostBase = base\<rparr> f =
    (Inr \<lparr>User_ID = fst (botID tok f), IsBot = True\<rparr>, snd (botID tok f))"
proof -
  let ?a = "\<lparr>token = tok, hostBase = base\<rparr>"
  have "fake_http w base (GetReq (botURL ?a ''getMe'')) f =
      (Body (w (ResultUser \<lparr>User_ID = fst (botID tok f), IsBot = True\<rparr>)), snd (botID tok f))"
    using fake_http_method [of ?a "''getMe''" "GetReq (botURL ?a ''getMe'')" "[]" w f] assms(2)
    by (simp add: bot_method_def plain_token_def split_beta Let_def)
  then show ?thesis using assms(1) by (simp add: BotAPI_GetMe_def get_result_def json_ok_def)
qed

abbreviation spec_of :: "int \<Rightarrow> int \<Rightarrow> int \<Rightarrow> int \<Rightarrow> bytes \<Rightarrow> compression_level \<Rightarrow> link_spec" where
  "spec_of k B B' ch key level \<equiv> \<lparr>SpecID = k, SpecBotID = B, SpecPeerBotID = B', SpecChannelID = ch, Key = key,
     SpecLevel = level, QuietHours = None\<rparr>"

text \<open>Two tokens the server has not seen get the next two numbers.\<close>

lemma link_pair_new:
  assumes "json_ok (ce_json e) (ce_writeOK e)" "plain_token ctok" "plain_token stok"
    and "botIDs f ctok = None" "botIDs f stok = None" "ctok \<noteq> stok"
  shows "link_pair e ctok stok k ch key level f =
    (Inr (spec_of k (nextBot f + 1) (nextBot f + 2) ch key level, spec_of k (nextBot f + 2) (nextBot f + 1) ch key level),
     f\<lparr>nextBot := nextBot f + 2, botIDs := (botIDs f)(ctok \<mapsto> nextBot f + 1, stok \<mapsto> nextBot f + 2)\<rparr>)"
  using assms by (simp add: link_pair_def fake_get_me botID_def Let_def) (simp add: add.commute)

lemma bench_tokens:
  "plain_token (bench_token ''client'' i)" "plain_token (bench_token ''server'' i)"
  "bench_token ''client'' i \<noteq> bench_token ''server'' j"
  "bench_token who i = bench_token who j \<longleftrightarrow> i = j"
  using fmt_d_chars [of "int i"] by (auto simp: bench_token_def plain_token_def is_digit_def fmt_d_inject)

abbreviation bench_client :: "int \<Rightarrow> bytes \<Rightarrow> compression_level \<Rightarrow> nat \<Rightarrow> link_spec" where
  "bench_client N key level j \<equiv> spec_of (int j) (N + 2 * int j + 1) (N + 2 * int j + 2) benchChannelID key level"

abbreviation bench_server :: "int \<Rightarrow> bytes \<Rightarrow> compression_level \<Rightarrow> nat \<Rightarrow> link_spec" where
  "bench_server N key level j \<equiv> spec_of (int j) (N + 2 * int j + 2) (N + 2 * int j + 1) benchChannelID key level"

lemma link_pairs_new:
  assumes "json_ok (ce_json e) (ce_writeOK e)" "nextBot f = N + 2 * int i"
    and "\<And>j. i \<le> j \<Longrightarrow> botIDs f (bench_token ''client'' j) = None \<and> botIDs f (bench_token ''server'' j) = None"
  shows "\<exists>f'. link_pairs e key level i n f =
      (Inr (map (bench_client N key level) [i..<i + n], map (bench_server N key level) [i..<i + n]), f')
    \<and> posts f' = posts f \<and> nextID f' = nextID f \<and> F_ChannelID f' = F_ChannelID f"
  using assms(2,3)
proof (induction n arbitrary: i f)
  case (Suc n)
  let ?c = "bench_token ''client'' i" and ?s = "bench_token ''server'' i"
  define g where "g = f\<lparr>nextBot := nextBot f + 2, botIDs := (botIDs f)(?c \<mapsto> nextBot f + 1, ?s \<mapsto> nextBot f + 2)\<rparr>"
  have pair: "link_pair e ?c ?s (int i) benchChannelID key level f = (Inr (bench_client N key level i, bench_server N key level i), g)"
    using link_pair_new [OF assms(1) bench_tokens(1,2), of f i i "int i" benchChannelID key level] Suc.prems bench_tokens(3) by (simp add: g_def)
  have "nextBot g = N + 2 * int (Suc i)" using Suc.prems(1) by (simp add: g_def)
  moreover have "botIDs g (bench_token ''client'' j) = None \<and> botIDs g (bench_token ''server'' j) = None" if "Suc i \<le> j" for j
    using that Suc.prems(2) [of j] bench_tokens(3) [of j i] bench_tokens(3) [of i j] by (auto simp: g_def bench_tokens(4))
  ultimately obtain f' where "link_pairs e key level (Suc i) n g =
      (Inr (map (bench_client N key level) [Suc i..<Suc i + n], map (bench_server N key level) [Suc i..<Suc i + n]), f')"
    "posts f' = posts g" "nextID f' = nextID g" "F_ChannelID f' = F_ChannelID g" using Suc.IH [of g "Suc i"] by blast
  moreover have "[i..<i + Suc n] = i # [Suc i..<Suc i + n]" by (simp add: upt_conv_Cons)
  ultimately show ?case by (simp add: pair del: upt.simps) (simp add: g_def)
qed simp

subsection \<open>Links that are paired\<close>

lemma linked_new:
  assumes "length key = keyLen" "B \<noteq> B'" "posts f = []" "nextID f = 0" "F_ChannelID f = ch"
  shows "linked key B B' ch 0 (newClientLink (spec_of k B B' ch key level)) (newServerLink (spec_of k B' B ch key level)) f"
  using assms by (simp add: linked_def idle_link_def newClientLink_def newServerLink_def newLinkRuntime_def NewBatcher_def newBatcher_def
      NewPoller_def fake_wf_def ascii_posts_def caught_up_def since_def Let_def)

lemma new_links:
  assumes "distinct (map SpecID specs)" "spec \<in> set specs"
  shows "c_links (NewClient specs) (SpecID spec) = Some (newClientLink spec)"
    and "sv_links (NewServer specs) (SpecID spec) = Some (newServerLink spec)"
  using buildPool_lookup [OF assms] by (simp_all add: NewClient_def NewServer_def)

subsection \<open>The SOCKS client of the test\<close>

lemma IndexByte_first: "c \<notin> set t \<Longrightarrow> IndexByte (t @ c # s) c = Some (length t)"
  by (induction t) auto

lemma LastIndexByte_last: "c \<notin> set t \<Longrightarrow> LastIndexByte (s @ c # t) c = Some (length s)"
  using IndexByte_first [of c "rev t" "rev s"] by (simp add: LastIndexByte_def)

lemma echo_address:
  "SplitHostPort (''127.0.0.1:'' @ fmt_d (int port)) = Some (''127.0.0.1'', fmt_d (int port))"
  "ParseIP ''127.0.0.1'' = Some (v4_mapped [127, 0, 0, 1])" "To4 (v4_mapped [127, 0, 0, 1]) = Some [127, 0, 0, 1]"
proof -
  have d: "CHR '':'' \<notin> set (fmt_d (int port))" "CHR ''['' \<notin> set (fmt_d (int port))" "CHR '']'' \<notin> set (fmt_d (int port))"
    using fmt_d_chars [of "int port"] by (auto simp: is_digit_def)
  have "LastIndexByte (''127.0.0.1:'' @ fmt_d (int port)) CHR '':'' = Some 9"
    using LastIndexByte_last [OF d(1), of "''127.0.0.1''"] by simp
  then show "SplitHostPort (''127.0.0.1:'' @ fmt_d (int port)) = Some (''127.0.0.1'', fmt_d (int port))"
    using d by (simp add: SplitHostPort_def contains_def Let_def)
  show "ParseIP ''127.0.0.1'' = Some (v4_mapped [127, 0, 0, 1])" by code_simp
  show "To4 (v4_mapped [127, 0, 0, 1]) = Some [127, 0, 0, 1]" by code_simp
qed

abbreviation echo_request :: "nat \<Rightarrow> connect_request" where
  "echo_request port \<equiv> \<lparr>R_AddrType = 0x01, R_Addr = [127, 0, 0, 1], R_Port = of_nat port\<rparr>"

lemma smoke_socks:
  assumes "port < 2 ^ 16"
  defines "echo \<equiv> ''127.0.0.1:'' @ fmt_d (int port)"
  shows "handleConn False True (fst (socksConnect echo [0x05, 0x00])) = ([0x05, 0x00], SHandled (echo_request port) [])"
    and "snd (socksConnect echo ([0x05, 0x00] @ SendSuccess))"
    and "wf_request (echo_request port)" "ConnectRequest_String (echo_request port) = Some echo"
    and "resolveTarget lookup now now' k echo cache = (echo, cache)"
proof -
  have port: "ParseInt (fmt_d (int port)) = Some (int port)" using assms(1) by (simp add: ParseInt_fmt_d)
  note sc = bench_handshake [OF echo_address(1) port echo_address(2,3), of False, folded echo_def, unfolded Let_def]
  have "fst (socksConnect echo [0x05, 0x00]) = fst (socksConnect echo ([0x05, 0x00] @ SendSuccess))"
    using echo_address port by (simp add: socksConnect_def echo_def ReadFull_def SendSuccess_def reply_def Let_def)
  moreover have "\<not> immediate_reject False (echo_request port)"
    by (simp add: immediate_reject_def isMappedDNSOverTLSProbe_def isIPv6LiteralTarget_def isMapDNSFakeIP_def isBenchmarkIP_def)
  moreover have "word_of_int (int port) = (of_nat port :: 16 word)" by simp
  ultimately show "handleConn False True (fst (socksConnect echo [0x05, 0x00])) = ([0x05, 0x00], SHandled (echo_request port) [])"
    using sc by simp
  show "snd (socksConnect echo ([0x05, 0x00] @ SendSuccess))" using sc by simp
  show "wf_request (echo_request port)" by (simp add: wf_request_def)
  have "fmt_d 127 = ''127''" "fmt_d 0 = ''0''" "fmt_d 1 = ''1''" by code_simp+
  then show "ConnectRequest_String (echo_request port) = Some echo"
    using assms(1) by (simp add: ConnectRequest_String_def echo_def Let_def unat_of_nat)
  show "resolveTarget lookup now now' k echo cache = (echo, cache)"
    unfolding echo_def resolveTarget_def by (simp only: echo_address option.case prod.case) simp
qed

subsection \<open>The legs of the test\<close>

lemma tokens_plain: "plain_token ctoken" "plain_token stoken"
  by (simp_all add: plain_token_def)

text \<open>What the two ends of link 0 look like between two legs.\<close>

definition ends :: "bytes \<Rightarrow> int \<Rightarrow> int \<Rightarrow> int \<Rightarrow> nat \<Rightarrow> client \<Rightarrow> server \<Rightarrow> fake \<Rightarrow> link_runtime \<Rightarrow> link_runtime \<Rightarrow> bool" where
  "ends key B B' ch k c sv f x y \<longleftrightarrow> c_links c 0 = Some x \<and> sv_links sv 0 = Some y \<and> linked key B B' ch k x y f"

lemma idle_admits: "linked key B B' ch k x y f \<Longrightarrow> n \<le> 300 \<Longrightarrow> buf (rt_batcher x) = [] \<and> admit_ok (rt_batcher x) n"
  by (simp add: linked_def idle_link_def admit_ok_def maxQueuedAndInFlightBytes_def MaxBatchSize_def)

text \<open>A frame queued on the client's side arrives at the server, and the other way round.\<close>

lemma client_leg:
  assumes "channel_ok e" "ends key B B' ch k c sv f x y" "k < 10 ^ 9" "loaded fr x x1" "length (Frame_Marshal fr) \<le> 300"
    and "handle_frames (env_now env) [fr] (rt_mux y) = (m, as)" "c_links c1 0 = Some x1"
  shows "\<exists>x2 y2 f2. client_flush e ctoken now 0 c1 f = Some (c1\<lparr>c_links := (c_links c1)(0 \<mapsto> x2)\<rparr>, f2)
    \<and> server_poll e add env stoken 0 sv f2 = (as, server_actions add env 0 as (sv\<lparr>sv_links := (sv_links sv)(0 \<mapsto> y2)\<rparr>), f2)
    \<and> linked key B B' ch (k + 1) x2 y2 f2 \<and> rt_mux x2 = rt_mux x1 \<and> rt_mux y2 = m"
proof -
  have l: "linked key B B' ch k x y f" "sv_links sv 0 = Some y" using assms(2) by (simp_all add: ends_def)
  obtain b p f' where "flush_over e ctoken now x1 f = Some (x1\<lparr>rt_batcher := b\<rparr>, f')"
    "poll_over e stoken (env_now env) y f' = (as, y\<lparr>rt_poller := p, rt_mux := m\<rparr>, f')"
    "linked key B B' ch (k + 1) (x1\<lparr>rt_batcher := b\<rparr>) (y\<lparr>rt_poller := p, rt_mux := m\<rparr>) f'"
    using frame_carried [OF assms(1) tokens_plain l(1) assms(3-6)] by blast
  then show ?thesis using l(2) assms(7)
    by (intro exI [of _ "x1\<lparr>rt_batcher := b\<rparr>"] exI [of _ "y\<lparr>rt_poller := p, rt_mux := m\<rparr>"] exI [of _ f'])
      (simp add: client_flush_def server_poll_def)
qed

lemma server_leg:
  assumes "channel_ok e" "ends key B B' ch k c sv f x y" "k < 10 ^ 9" "loaded fr y y1" "length (Frame_Marshal fr) \<le> 300"
    and "handle_frames now [fr] (rt_mux x) = (m, as)" "sv_links sv1 0 = Some y1"
  shows "\<exists>x2 y2 f2 woken c2. server_flush e stoken now' 0 sv1 f = Some (sv1\<lparr>sv_links := (sv_links sv1)(0 \<mapsto> y2)\<rparr>, f2)
    \<and> client_actions as (c\<lparr>c_links := (c_links c)(0 \<mapsto> x2)\<rparr>) = (woken, c2)
    \<and> client_poll e ctoken now 0 c f2 = (as, woken, c2, f2)
    \<and> linked key B B' ch (k + 1) x2 y2 f2 \<and> rt_mux x2 = m \<and> rt_mux y2 = rt_mux y1"
proof -
  have l: "linked key B' B ch k y x f" "c_links c 0 = Some x" using assms(2) by (simp_all add: ends_def linked_sym)
  obtain b p f' where r: "flush_over e stoken now' y1 f = Some (y1\<lparr>rt_batcher := b\<rparr>, f')"
    "poll_over e ctoken now x f' = (as, x\<lparr>rt_poller := p, rt_mux := m\<rparr>, f')"
    "linked key B B' ch (k + 1) (x\<lparr>rt_poller := p, rt_mux := m\<rparr>) (y1\<lparr>rt_batcher := b\<rparr>) f'"
    using frame_carried [OF assms(1) tokens_plain(2,1) l(1) assms(3-6)] linked_sym by blast
  obtain woken c2 where "client_actions as (c\<lparr>c_links := (c_links c)(0 \<mapsto> x\<lparr>rt_poller := p, rt_mux := m\<rparr>)\<rparr>) = (woken, c2)" by fastforce
  then show ?thesis using r l(2) assms(7)
    by (intro exI [of _ "x\<lparr>rt_poller := p, rt_mux := m\<rparr>"] exI [of _ "y1\<lparr>rt_batcher := b\<rparr>"] exI [of _ f'] exI [of _ woken] exI [of _ c2])
      (simp add: server_flush_def client_poll_def)
qed

lemma linked_link [simp]:
  "linked key B B' ch k (x\<lparr>rt_link := l\<rparr>) y f = linked key B B' ch k x y f"
  by (simp add: linked_def idle_link_def)

text \<open>The CONNECT over the channel.\<close>

lemma smoke_connect_outcome:
  assumes e: "channel_ok e" and l: "ends key B B' ch k c sv f x y" "k < 10 ^ 8"
    and cl: "connectSem c 0 < maxInFlightConnectsPerLink" "has_onConnectACK (rt_mux x)" "GetConn (rt_mux x) i = None"
    and sv: "has_onConnect (rt_mux y)" and req: "wf_request req" "ConnectRequest_String req = Some target"
    and dt: "resolveTarget (env_lookup env) (env_now env) (env_now' env) (env_rand env) target (dns sv) = (dt, dns')"
  shows "if env_dial env dt
    then \<exists>c' sv' f' x' y'. smoke_connect e u now env (i # draws) req c sv f = Some (i, c', sv', f')
      \<and> ends key B B' ch (k + 2) c' sv' f' x' y' \<and> GetConn (rt_mux x') i = Some (newConn now i)
      \<and> GetConn (rt_mux y') i = Some (newConn (env_now env) i)
    else smoke_connect e u now env (i # draws) req c sv f = None"
proof -
  let ?cp = "request_payload req" and ?add = "Add_poll u (env_now env)" and ?a = "answer_frame (env_dial env dt) i"
  have at: "c_links c 0 = Some x" "linked key B B' ch k x y f" using l(1) by (simp_all add: ends_def)
  obtain x1 where start: "try_start (Add_poll u now) now (i # draws) req 0 c = Some (i, c\<lparr>c_links := (c_links c)(0 \<mapsto> x1),
      pending := insert i (pending c), connectSem := (connectSem c)(0 := connectSem c 0 + 1)\<rparr>)"
    and x1: "loaded (connect_frame i req) x x1" "rt_mux x1 = put_conn i (newConn now i) (rt_mux x)"
    using try_start_queued [OF at(1) cl(1,3) _ _ req(1), of u now draws] idle_admits [OF at(2)] by auto
  define c1 where "c1 = c\<lparr>c_links := (c_links c)(0 \<mapsto> x1), pending := insert i (pending c), connectSem := (connectSem c)(0 := connectSem c 0 + 1)\<rparr>"
  note start = start [folded c1_def]
  have "k < 10 ^ 9" "c_links c1 0 = Some x1" using l(2) by (simp_all add: c1_def)
  then obtain x2 y2 f2 where there: "client_flush e ctoken now 0 c1 f = Some (c1\<lparr>c_links := (c_links c1)(0 \<mapsto> x2)\<rparr>, f2)"
      "server_poll e ?add env stoken 0 sv f2 = ([OnConnect i ?cp], server_actions ?add env 0 [OnConnect i ?cp] (sv\<lparr>sv_links := (sv_links sv)(0 \<mapsto> y2)\<rparr>), f2)"
      "linked key B B' ch (k + 1) x2 y2 f2" "rt_mux x2 = rt_mux x1" "rt_mux y2 = rt_mux y"
    using client_leg [OF e l(1) _ x1(1) connect_frame_size(2) [OF req(1)] handle_connect_frame [OF req(1) sv], of c1 now ?add] by blast
  let ?sv = "sv\<lparr>sv_links := (sv_links sv)(0 \<mapsto> y2)\<rparr>" and ?c2 = "c1\<lparr>c_links := (c_links c1)(0 \<mapsto> x2)\<rparr>"
  have "sv_links ?sv 0 = Some y2" "ConnectPayload_String ?cp = Some target" by (simp_all add: request_payload_String req(2))
  then obtain y3 where h: "handleConnect ?add env 0 i ?cp ?sv = (env_dial env dt, ?sv\<lparr>sv_links := (sv_links ?sv)(0 \<mapsto> y3), dns := dns'\<rparr>)"
    and y3: "loaded ?a y2 y3" "GetConn (rt_mux y3) i = (if env_dial env dt then Some (newConn (env_now env) i) else None)"
    using handleConnect_queued [of ?sv 0 y2 ?cp target env dt dns' u "env_now env" i] dt idle_admits [OF linked_sym [OF there(3)]] by auto
  define sv3 where "sv3 = ?sv\<lparr>sv_links := (sv_links ?sv)(0 \<mapsto> y3), dns := dns'\<rparr>"
  have "server_actions ?add env 0 [OnConnect i ?cp] ?sv = sv3" by (simp add: h sv3_def)
  then have acts: "server_poll e ?add env stoken 0 sv f2 = ([OnConnect i ?cp], sv3, f2)" using there(2) by simp
  have x2: "has_onConnectACK (rt_mux x2)" "GetConn (rt_mux x2) i = Some (newConn now i)"
    using cl(2) x1(2) there(4) by (simp_all add: put_conn_def GetConn_def update_conv')
  define m where "m = (if env_dial env dt then rt_mux x2 else put_conn i (Conn_Close (newConn now i)) (rt_mux x2))"
  define rs where "rs = (if env_dial env dt then [OnConnectACK i] else [NoAction])"
  have reply: "handle_frames now [?a] (rt_mux x2) = (m, rs)"
    using handle_answer_frame [OF x2, of now "env_dial env dt"] by (simp add: m_def rs_def)
  have e2: "ends key B B' ch (k + 1) ?c2 ?sv f2 x2 y2" using there(3) by (simp add: ends_def)
  have small: "length (Frame_Marshal ?a) \<le> 300" by (simp add: answer_frame_def HeaderSize_def)
  obtain x4 y4 f4 woken c4 where home: "server_flush e stoken (env_now env) 0 sv3 f2 = Some (sv3\<lparr>sv_links := (sv_links sv3)(0 \<mapsto> y4)\<rparr>, f4)"
      "client_actions rs (?c2\<lparr>c_links := (c_links ?c2)(0 \<mapsto> x4)\<rparr>) = (woken, c4)"
      "client_poll e ctoken now 0 ?c2 f4 = (rs, woken, c4, f4)"
      "linked key B B' ch (k + 1 + 1) x4 y4 f4" "rt_mux x4 = m" "rt_mux y4 = rt_mux y3"
    using server_leg [OF e e2 _ y3(1) small reply, of sv3 "env_now env"] l(2) by (auto simp: sv3_def)
  have run: "smoke_connect e u now env (i # draws) req c sv f =
      (if i \<in> set woken then (case try_finish (Add_poll u now) now 0 i (Acked True) c4 of
               (None, c5) \<Rightarrow> Some (i, c5, sv3\<lparr>sv_links := (sv_links sv3)(0 \<mapsto> y4)\<rparr>, f4)
             | _ \<Rightarrow> None) else None)"
    unfolding smoke_connect_def by (simp add: start there(1) acts home(1,3))
  show ?thesis
  proof (cases "env_dial env dt")
    case True
    then have w: "woken = [i]" "c4 = ?c2\<lparr>c_links := (c_links ?c2)(0 \<mapsto> x4), pending := pending ?c2 - {i}\<rparr>"
      using home(2) by (auto simp: rs_def onConnectACK_def c1_def)
    then have "try_finish (Add_poll u now) now 0 i (Acked True) c4 =
        (None, upd_link 0 (on_link RecordSuccess) (c4\<lparr>connectSem := (connectSem c4)(0 := connectSem c4 0 - 1)\<rparr>))"
      by (simp add: try_finish_def)
    moreover have "c_links c4 0 = Some x4" by (simp add: w(2))
    ultimately show ?thesis using True run w(1) home(4-6) y3(2) x2(2)
      by (simp add: ends_def on_link_def m_def)
  next
    case False
    then have "woken = []" using home(2) by (simp add: rs_def)
    then show ?thesis using False run by simp
  qed
qed

text \<open>The first payload of a direction, handled by the other side.\<close>

abbreviation first_data :: "conn_id \<Rightarrow> bytes \<Rightarrow> frame" where
  "first_data i d \<equiv> \<lparr>FType = TypeData, ConnID = i, SeqNum = 0, Payload = d\<rparr>"

lemma handle_first_data:
  assumes "GetConn m i = Some c" "recvExpected c = 0" "recvPending c = []"
  shows "\<exists>c'. handle_frames now [first_data i d] m = (put_conn i c' m, [Push i [d]]) \<and> sendSeq c' = sendSeq c"
  using assms by (intro exI [of _ "c\<lparr>lastUsed := now, recvExpected := 1, recvPending := []\<rparr>"])
    (simp add: HandleFrame_def TypeData_def TypeConnect_def TypeConnectACK_def deliverOrdered_def MarkUsed_def drain.simps)

lemma write_loaded:
  assumes "linked key B B' ch k x y f" "GetConn (rt_mux x) i = Some cx" "sendSeq cx = 0" "length d \<le> 287"
  shows "\<exists>c' b. SendData (Add_poll u now) (rt_mux x) (rt_batcher x) i d = (True, put_conn i c' (rt_mux x), b)
    \<and> loaded (first_data i d) x (x\<lparr>rt_mux := put_conn i c' (rt_mux x), rt_batcher := b\<rparr>)
    \<and> recvExpected c' = recvExpected cx \<and> recvPending c' = recvPending cx"
  using first_write [OF assms(2,3), of "rt_batcher x" d u now] idle_admits [OF assms(1), of "13 + length d"] assms(4)
  by (auto simp: loaded_def)

text \<open>The payload to the echo target and back.\<close>

lemma smoke_echo_back:
  assumes e: "channel_ok e" and l: "ends key B B' ch k c sv f x y" "k < 10 ^ 8"
    and at: "GetConn (rt_mux x) i = Some (newConn t i)" "GetConn (rt_mux y) i = Some (newConn t' i)" and d: "length d \<le> 287"
  shows "smoke_echo e u now env i d c sv f = Some d"
proof -
  let ?add = "Add_poll u (env_now env)"
  have links: "c_links c 0 = Some x" "sv_links sv 0 = Some y" "linked key B B' ch k x y f" using l(1) by (simp_all add: ends_def)
  have fit: "length (Frame_Marshal (first_data i d)) \<le> 300" using d by (simp add: HeaderSize_def)
  obtain cx b where w: "SendData (Add_poll u now) (rt_mux x) (rt_batcher x) i d = (True, put_conn i cx (rt_mux x), b)"
    "loaded (first_data i d) x (x\<lparr>rt_mux := put_conn i cx (rt_mux x), rt_batcher := b\<rparr>)" "recvExpected cx = 0" "recvPending cx = []"
    using write_loaded [OF links(3) at(1) _ d, of u now] by (auto simp: newConn_def)
  define c1 where "c1 = client_write (Add_poll u now) 0 i d c"
  have c1: "c_links c1 0 = Some (x\<lparr>rt_mux := put_conn i cx (rt_mux x), rt_batcher := b\<rparr>)"
    by (simp add: c1_def client_write_def links(1) w(1))
  obtain cy where cy: "handle_frames (env_now env) [first_data i d] (rt_mux y) = (put_conn i cy (rt_mux y), [Push i [d]])" "sendSeq cy = 0"
    using handle_first_data [OF at(2), of "env_now env" d] by (auto simp: newConn_def)
  have k: "k < 10 ^ 9" "k + 1 < 10 ^ 9" using l(2) by simp_all
  obtain x2 y2 f2 where there: "client_flush e ctoken now 0 c1 f = Some (c1\<lparr>c_links := (c_links c1)(0 \<mapsto> x2)\<rparr>, f2)"
      "server_poll e ?add env stoken 0 sv f2 = ([Push i [d]], sv\<lparr>sv_links := (sv_links sv)(0 \<mapsto> y2)\<rparr>, f2)"
      "linked key B B' ch (k + 1) x2 y2 f2" "rt_mux x2 = put_conn i cx (rt_mux x)" "rt_mux y2 = put_conn i cy (rt_mux y)"
    using client_leg [OF e l(1) k(1) w(2) fit cy(1) c1, of now ?add] by auto
  let ?c2 = "c1\<lparr>c_links := (c_links c1)(0 \<mapsto> x2)\<rparr>" and ?sv2 = "sv\<lparr>sv_links := (sv_links sv)(0 \<mapsto> y2)\<rparr>"
  have gy: "GetConn (rt_mux y2) i = Some cy" and gx: "GetConn (rt_mux x2) i = Some cx"
    by (simp_all add: there(4,5) put_conn_def GetConn_def update_conv')
  obtain cz b' where w': "SendData ?add (rt_mux y2) (rt_batcher y2) i d = (True, put_conn i cz (rt_mux y2), b')"
    "loaded (first_data i d) y2 (y2\<lparr>rt_mux := put_conn i cz (rt_mux y2), rt_batcher := b'\<rparr>)"
    using write_loaded [OF linked_sym [OF there(3)] gy cy(2) d, of u "env_now env"] by blast
  define sv3 where "sv3 = server_write ?add 0 i d ?sv2"
  have sv3: "sv_links sv3 0 = Some (y2\<lparr>rt_mux := put_conn i cz (rt_mux y2), rt_batcher := b'\<rparr>)"
    by (simp add: sv3_def server_write_def w'(1))
  obtain cx' where cx': "handle_frames now [first_data i d] (rt_mux x2) = (put_conn i cx' (rt_mux x2), [Push i [d]])"
    using handle_first_data [OF gx w(3,4), of now d] by blast
  have e2: "ends key B B' ch (k + 1) ?c2 ?sv2 f2 x2 y2" using there(3) by (simp add: ends_def)
  obtain y4 f4 woken c4 where home: "server_flush e stoken (env_now env) 0 sv3 f2 = Some (sv3\<lparr>sv_links := (sv_links sv3)(0 \<mapsto> y4)\<rparr>, f4)"
      "client_poll e ctoken now 0 ?c2 f4 = ([Push i [d]], woken, c4, f4)"
    using server_leg [OF e e2 k(2) w'(2) fit cx' sv3, of "env_now env"] by blast
  show ?thesis
    unfolding smoke_echo_def c1_def [symmetric] by (simp add: there(1,2) sv3_def [symmetric] home)
qed

subsection \<open>Properties\<close>

text \<open>
  C28. The harness of the benchmark wires its links in pairs: with any number of links, setting up
  succeeds, every number below the count is a link on both sides, the two ends of a link are idle
  ends of one channel under one key, each polling for the other (\<open>linked\<close>, which is what a frame needs
  to get across), and no poller on either side listens to any bot but its peer's, although all of
  them read the same channel.
\<close>

theorem harness_paired:
  assumes "json_ok (ce_json e) (ce_writeOK e)"
  shows "\<exists>c sv f key. newHarness e n = Some (c, sv, f) \<and> c_order c = map int [0..<n]
    \<and> (\<forall>k < n. \<exists>x y B B'. c_links c (int k) = Some x \<and> sv_links sv (int k) = Some y \<and> linked key B B' benchChannelID 0 x y f)
    \<and> (\<forall>j < n. \<forall>k < n. \<forall>xj yj xk yk. c_links c (int j) = Some xj \<longrightarrow> sv_links sv (int j) = Some yj \<longrightarrow>
         c_links c (int k) = Some xk \<longrightarrow> sv_links sv (int k) = Some yk \<longrightarrow>
         (peerBotID (rt_poller yk) = s_botID (rt_sender xj) \<longleftrightarrow> j = k) \<and> (peerBotID (rt_poller xk) = s_botID (rt_sender yj) \<longleftrightarrow> j = k)
         \<and> peerBotID (rt_poller xk) \<noteq> s_botID (rt_sender xj) \<and> peerBotID (rt_poller yk) \<noteq> s_botID (rt_sender yj))"
proof -
  obtain key where key: "DeriveKey ''bench-secret'' = Inr key" using DeriveKey_nonempty by blast
  obtain level where level: "ParseCompressionLevel '''' = Inr level" by (simp add: ParseCompressionLevel_def)
  let ?cs = "map (bench_client 1000 key level) [0..<n]" and ?ss = "map (bench_server 1000 key level) [0..<n]"
  obtain f where f: "link_pairs e key level 0 n (New benchChannelID) = (Inr (?cs, ?ss), f)"
    "posts f = []" "nextID f = 0" "F_ChannelID f = benchChannelID"
    using link_pairs_new [OF assms, of "New benchChannelID" 1000 0 key level n] by (auto simp: New_def)
  have d: "distinct (map SpecID ?cs)" "distinct (map SpecID ?ss)" by (simp_all add: comp_def distinct_map inj_on_def)
  have at: "c_links (NewClient ?cs) (int k) = Some (newClientLink (bench_client 1000 key level k))"
    "sv_links (NewServer ?ss) (int k) = Some (newServerLink (bench_server 1000 key level k))" if "k < n" for k
    using new_links(1) [OF d(1), of "bench_client 1000 key level k"] new_links(2) [OF d(2), of "bench_server 1000 key level k"] that by simp_all
  have "linked key (1000 + 2 * int k + 1) (1000 + 2 * int k + 2) benchChannelID 0
      (newClientLink (bench_client 1000 key level k)) (newServerLink (bench_server 1000 key level k)) f" for k
    by (rule linked_new) (use DeriveKey_length [OF key] f in simp_all)
  then have linked: "\<forall>k < n. \<exists>x y B B'. c_links (NewClient ?cs) (int k) = Some x \<and> sv_links (NewServer ?ss) (int k) = Some y
      \<and> linked key B B' benchChannelID 0 x y f" using at by blast
  have ids: "s_botID (rt_sender (newClientLink sp)) = SpecBotID sp" "peerBotID (rt_poller (newClientLink sp)) = SpecPeerBotID sp"
    "s_botID (rt_sender (newServerLink sp)) = SpecBotID sp" "peerBotID (rt_poller (newServerLink sp)) = SpecPeerBotID sp" for sp
    by (simp_all add: newClientLink_def newServerLink_def newLinkRuntime_def NewSender_def NewPoller_def Let_def)
  have odd: "2 * int j \<noteq> 1 + 2 * int k" "1 + 2 * int k \<noteq> 2 * int j" for j k by presburger+
  have isolated: "\<forall>j < n. \<forall>k < n. \<forall>xj yj xk yk. c_links (NewClient ?cs) (int j) = Some xj \<longrightarrow> sv_links (NewServer ?ss) (int j) = Some yj \<longrightarrow>
         c_links (NewClient ?cs) (int k) = Some xk \<longrightarrow> sv_links (NewServer ?ss) (int k) = Some yk \<longrightarrow>
         (peerBotID (rt_poller yk) = s_botID (rt_sender xj) \<longleftrightarrow> j = k) \<and> (peerBotID (rt_poller xk) = s_botID (rt_sender yj) \<longleftrightarrow> j = k)
         \<and> peerBotID (rt_poller xk) \<noteq> s_botID (rt_sender xj) \<and> peerBotID (rt_poller yk) \<noteq> s_botID (rt_sender yj)"
    using at odd by (auto simp: ids)
  have "newHarness e n = Some (NewClient ?cs, NewServer ?ss, f)" "c_order (NewClient ?cs) = map int [0..<n]"
    by (simp_all add: newHarness_def key level f(1)) (simp add: NewClient_def comp_def)
  then show ?thesis using linked isolated by blast
qed


definition demo_channel :: channel_env where
  "demo_channel = \<lparr>ce_enc = id, ce_dec = Some, ce_rnd = \<lambda>_. Some (replicate 12 1), ce_grow = \<lambda>c n. n,
     ce_json = demo_dec, ce_writeOK = demo_enc, ce_base = ''http://127.0.0.1:9''\<rparr>"

lemma demo_channel_ok: "channel_ok demo_channel" "json_ok (ce_json demo_channel) (ce_writeOK demo_channel)"
  using demo_json by (simp_all add: channel_ok_def demo_channel_def nonceLen_def MaxCompressedSize_def)

theorem harness_paired_witness:
  "\<exists>c sv f x y key B B'. newHarness demo_channel 3 = Some (c, sv, f) \<and> c_order c = [0, 1, 2] \<and> c_links c 1 = Some x
    \<and> sv_links sv 1 = Some y \<and> linked key B B' benchChannelID 0 x y f"
proof -
  have "map int [0..<3] = [0, 1, 2]" by code_simp
  moreover have "(1 :: nat) < 3" "int 1 = 1" by simp_all
  ultimately show ?thesis using harness_paired [OF demo_channel_ok(2), of 3] by metis
qed


end
