(* ===== verification/Vtel_Config.thy ===== *)
theory Vtel_Config
  imports Link_Runtime Account_Api Go_Net
begin

text \<open>
  \<^verbatim>\<open>vtelconfig/vtelconfig.go\<close>: the configuration, its validation and the building of the link
  specifications, which verifies every link with the Telegram API; and the parts of \<^verbatim>\<open>cmd/vtel\<close> that
  edit it: \<^verbatim>\<open>cmd_links.go\<close>, \<^verbatim>\<open>cmd_settings.go\<close>, the helpers of \<^verbatim>\<open>cli_paths.go\<close>. Reading and writing the
  file is left out: an editing command is a function from the loaded configuration to the one it
  saves. What the user types is a list of lines. Error messages are constructors.
\<close>

subsection \<open>Configurations\<close>

record link_config =
  Kind :: string
  Token :: string
  LC_PeerBotID :: int
  Session :: string
  PeerUserID :: int
  LC_ChannelID :: int

definition IsAccount :: "link_config \<Rightarrow> bool" where
  "IsAccount l \<longleftrightarrow> Kind l = ''account''"

record config =
  Mode :: string
  Listen :: string
  Secret :: string
  TelegramAPIID :: int
  TelegramAPIHash :: string
  CompressionLevel :: string
  RejectIPv6 :: bool
  Cfg_QuietHours :: "quiet_hours option"
  Debug :: bool
  Links :: "link_config list"

datatype link_error =
    SessionRequired | PeerUserRequired | BadKind string | TokenRequired | PeerBotRequired
  | ChannelRequired | ChannelPositive int

datatype config_error =
    BadMode | NoLinks | SecretRequired | BadLevel string | BadQuietHours | LinkError nat link_error | APICredsRequired

subsection \<open>Validation\<close>

text \<open>The body of the loop over the links.\<close>

definition check_link :: "link_config \<Rightarrow> link_error option" where
  "check_link l =
     (let kind_error =
        (if IsAccount l then
           (if Session l = '''' then Some SessionRequired
            else if PeerUserID l = 0 then Some PeerUserRequired
            else None)
         else if Kind l \<noteq> '''' \<and> Kind l \<noteq> ''bot'' then Some (BadKind (Kind l))
         else
           (if Token l = '''' then Some TokenRequired
            else if LC_PeerBotID l = 0 then Some PeerBotRequired
            else None))
      in case kind_error of
           Some e \<Rightarrow> Some e
         | None \<Rightarrow>
             if LC_ChannelID l = 0 then Some ChannelRequired
             else if 0 < LC_ChannelID l then Some (ChannelPositive (LC_ChannelID l))
             else None)"

fun check_links :: "nat \<Rightarrow> link_config list \<Rightarrow> config_error option" where
  "check_links i [] = None"
| "check_links i (l # ls) =
     (case check_link l of Some e \<Rightarrow> Some (LinkError i e) | None \<Rightarrow> check_links (Suc i) ls)"

definition hour_ok :: "int \<Rightarrow> bool" where
  "hour_ok h \<longleftrightarrow> 0 \<le> h \<and> h \<le> 23"

definition default_listen :: "config \<Rightarrow> config" where
  "default_listen c = (if Mode c = ''client'' \<and> Listen c = '''' then c\<lparr>Listen := ''127.0.0.1:1080''\<rparr> else c)"

definition Validate :: "config \<Rightarrow> config_error + config" where
  "Validate c =
     (if Mode c \<noteq> ''client'' \<and> Mode c \<noteq> ''server'' then Inl BadMode
      else if length (Links c) = 0 then Inl NoLinks
      else if Secret c = '''' then Inl SecretRequired
      else case ParseCompressionLevel (CompressionLevel c) of
        Inl e \<Rightarrow> Inl (BadLevel e)
      | Inr _ \<Rightarrow>
          if (case Cfg_QuietHours c of None \<Rightarrow> False
              | Some q \<Rightarrow> \<not> hour_ok (StartHour q) \<or> \<not> hour_ok (EndHour q)) then Inl BadQuietHours
          else
            (let c1 = default_listen c
             in case check_links 0 (Links c1) of
                  Some e \<Rightarrow> Inl e
                | None \<Rightarrow>
                    if (\<exists>l \<in> set (Links c1). IsAccount l) \<and> (TelegramAPIID c1 = 0 \<or> TelegramAPIHash c1 = '''')
                    then Inl APICredsRequired else Inr c1))"

subsection \<open>Link specifications\<close>

definition defaultHostBase :: string where "defaultHostBase = ''https://api.telegram.org''"

definition NewAPI :: "string \<Rightarrow> bot_api" where
  "NewAPI tok = \<lparr>token = tok, hostBase = defaultHostBase\<rparr>"

definition linkKindLabel :: "link_config \<Rightarrow> string" where
  "linkKindLabel lc = (if IsAccount lc then ''account'' else ''bot'')"

datatype build_error = InvalidSecret envelope_error | InvalidLevel string | VerifyFailed nat string go_error

text \<open>
  The verification of one link: its own and its peer's identifier. \<open>auth\<close> is the outcome of the
  account's login check, \<open>json\<close> and \<open>http\<close> are those of the Bot API.
\<close>

definition verify_link ::
  "json_decoder \<Rightarrow> 's http_client \<Rightarrow> (link_config \<Rightarrow> auth_result) \<Rightarrow> link_config \<Rightarrow> 's \<Rightarrow> (go_error + int) \<times> int \<times> 's" where
  "verify_link json http auth lc s =
     (if IsAccount lc then
        (case NewAccountAPI (auth lc) (LC_ChannelID lc) (PeerUserID lc) of
           Inl e \<Rightarrow> (Inl e, PeerUserID lc, s)
         | Inr a \<Rightarrow> (Inr (User_ID (GetMe a)), PeerUserID lc, s))
      else
        (case BotAPI_GetMe json http (NewAPI (Token lc)) s of
           (Inl e, s1) \<Rightarrow> (Inl e, LC_PeerBotID lc, s1)
         | (Inr me, s1) \<Rightarrow> (Inr (User_ID me), LC_PeerBotID lc, s1)))"

text \<open>The loop; its last component lists the calls of the progress callback.\<close>

fun build_specs ::
  "json_decoder \<Rightarrow> 's http_client \<Rightarrow> (link_config \<Rightarrow> auth_result) \<Rightarrow> quiet_hours option \<Rightarrow> bytes \<Rightarrow> compression_level
    \<Rightarrow> nat \<Rightarrow> link_config list \<Rightarrow> 's \<Rightarrow> (build_error + link_spec list) \<times> (nat \<times> int \<times> go_error option) list" where
  "build_specs json http auth qh key level i [] s = (Inr [], [])"
| "build_specs json http auth qh key level i (lc # lcs) s =
     (case verify_link json http auth lc s of
        (Inl e, _, _) \<Rightarrow> (Inl (VerifyFailed i (linkKindLabel lc) e), [(i, 0, Some e)])
      | (Inr own, peer, s1) \<Rightarrow>
          let (r, calls) = build_specs json http auth qh key level (Suc i) lcs s1;
              spec = \<lparr>SpecID = int i, SpecBotID = own, SpecPeerBotID = peer, SpecChannelID = LC_ChannelID lc,
                      Key = key, SpecLevel = level, QuietHours = qh\<rparr>
          in (bind_res r (\<lambda>specs. Inr (spec # specs)), (i, own, None) # calls))"

definition BuildLinkSpecs ::
  "json_decoder \<Rightarrow> 's http_client \<Rightarrow> (link_config \<Rightarrow> auth_result) \<Rightarrow> config \<Rightarrow> 's
    \<Rightarrow> (build_error + link_spec list) \<times> (nat \<times> int \<times> go_error option) list" where
  "BuildLinkSpecs json http auth c s =
     (case DeriveKey (Secret c) of
        Inl e \<Rightarrow> (Inl (InvalidSecret e), [])
      | Inr key \<Rightarrow>
          (case ParseCompressionLevel (CompressionLevel c) of
             Inl e \<Rightarrow> (Inl (InvalidLevel e), [])
           | Inr level \<Rightarrow> build_specs json http auth (Cfg_QuietHours c) key level 0 (Links c) s))"

subsection \<open>The debug switch\<close>

text \<open>\<^verbatim>\<open>vtellog/vtellog.go\<close>: the switch starts from the environment and is only ever turned on.\<close>

definition vtellog_init :: "string \<Rightarrow> bool" where
  "vtellog_init env \<longleftrightarrow> env = ''1''"

definition SetDebug :: "bool \<Rightarrow> bool \<Rightarrow> bool" where
  "SetDebug v enabled = (if v then True else enabled)"

text \<open>What the two front ends do before the tunnel starts: the rest of \<^verbatim>\<open>ParseConfig\<close> once the file is decoded.\<close>

definition ParseConfig :: "bool \<Rightarrow> config \<Rightarrow> bool \<Rightarrow> (config_error + config) \<times> bool" where
  "ParseConfig debugFlag c enabled =
     (case Validate c of
        Inl e \<Rightarrow> (Inl e, enabled)
      | Inr c1 \<Rightarrow> (Inr c1, SetDebug (Debug c1 \<or> debugFlag) enabled))"

subsection \<open>Editing links\<close>

definition nonEmpty :: "string \<Rightarrow> string \<Rightarrow> string" where
  "nonEmpty s d = (if s = '''' then d else s)"

definition redactToken :: "string \<Rightarrow> string" where
  "redactToken tok =
     (if length tok \<le> 10 then ''****'' else take 6 tok @ ''...'' @ drop (length tok - 4) tok)"

text \<open>The next line, without its error: at the end of the input it is empty.\<close>

fun read_line :: "string list \<Rightarrow> string \<times> string list" where
  "read_line [] = ('''', [])"
| "read_line (l # ls) = (TrimSpace l, ls)"

datatype cli_error =
    KindInvalid string | PeerInvalid | FieldsRequired | ChannelInvalid | ChannelIDPositive | ChannelIDRequired
  | IndexOutOfRange int | UsageError

definition linksAddBotFields :: "string list \<Rightarrow> (cli_error + link_config) \<times> string list" where
  "linksAddBotFields inp =
     (let (tok, inp1) = read_line inp; (peerStr, inp2) = read_line inp1
      in (case ParseInt peerStr of
            None \<Rightarrow> Inl PeerInvalid
          | Some peer \<Rightarrow>
              if tok = '''' \<or> peer = 0 then Inl FieldsRequired
              else Inr \<lparr>Kind = ''bot'', Token = tok, LC_PeerBotID = peer, Session = '''', PeerUserID = 0, LC_ChannelID = 0\<rparr>,
          inp2))"

definition linksAddAccountFields :: "string list \<Rightarrow> (cli_error + link_config) \<times> string list" where
  "linksAddAccountFields inp =
     (let (session, inp1) = read_line inp; (peerStr, inp2) = read_line inp1
      in (case ParseInt peerStr of
            None \<Rightarrow> Inl PeerInvalid
          | Some peer \<Rightarrow>
              if session = '''' \<or> peer = 0 then Inl FieldsRequired
              else Inr \<lparr>Kind = ''account'', Token = '''', LC_PeerBotID = 0, Session = session, PeerUserID = peer, LC_ChannelID = 0\<rparr>,
          inp2))"

definition linksAddInteractive :: "string list \<Rightarrow> config \<Rightarrow> (cli_error + config) \<times> string list" where
  "linksAddInteractive inp cfg =
     (let (k, inp1) = read_line inp; kind = nonEmpty k ''bot''
      in if kind \<noteq> ''bot'' \<and> kind \<noteq> ''account'' then (Inl (KindInvalid kind), inp1)
         else
           (let (r, inp2) = (if kind = ''account'' then linksAddAccountFields inp1 else linksAddBotFields inp1)
            in case r of
                 Inl e \<Rightarrow> (Inl e, inp2)
               | Inr lc \<Rightarrow>
                   (let (chStr, inp3) = read_line inp2
                    in (case ParseInt chStr of
                          None \<Rightarrow> Inl ChannelInvalid
                        | Some ch \<Rightarrow>
                            if 0 < ch then Inl ChannelIDPositive
                            else if ch = 0 then Inl ChannelIDRequired
                            else Inr (cfg\<lparr>Links := Links cfg @ [lc\<lparr>LC_ChannelID := ch\<rparr>]\<rparr>),
                        inp3))))"

definition linksRemove :: "int \<Rightarrow> config \<Rightarrow> cli_error + config" where
  "linksRemove idx cfg =
     (if idx < 0 \<or> int (length (Links cfg)) \<le> idx then Inl (IndexOutOfRange idx)
      else Inr (cfg\<lparr>Links := take (nat idx) (Links cfg) @ drop (nat idx + 1) (Links cfg)\<rparr>))"

text \<open>\<^verbatim>\<open>cmdLinks\<close>: the configuration to save, \<open>None\<close> when the command only lists.\<close>

definition cmdLinks :: "string list \<Rightarrow> string list \<Rightarrow> config \<Rightarrow> cli_error + config option" where
  "cmdLinks args inp cfg =
     (case args of
        [] \<Rightarrow> Inr None
      | sub # rest \<Rightarrow>
          if sub = ''list'' then Inr None
          else if sub = ''add'' then bind_res (fst (linksAddInteractive inp cfg)) (\<lambda>c. Inr (Some c))
          else if sub = ''remove'' then
            (case rest of
               [] \<Rightarrow> Inl UsageError
             | i # _ \<Rightarrow>
                 (case ParseInt i of
                    None \<Rightarrow> Inl UsageError
                  | Some idx \<Rightarrow> bind_res (linksRemove idx cfg) (\<lambda>c. Inr (Some c))))
          else Inl UsageError)"

subsection \<open>Changing settings\<close>

text \<open>
  \<^verbatim>\<open>settingsMenu\<close> once the configuration is loaded: the one it saves, or \<open>None\<close> if it saves nothing, and
  the input that is left.
\<close>

definition quiet_hours_menu :: "string list \<Rightarrow> config \<Rightarrow> config option \<times> string list" where
  "quiet_hours_menu inp cfg =
     (let (sv, inp1) = read_line inp
      in if sv = '''' then (Some (cfg\<lparr>Cfg_QuietHours := None\<rparr>), inp1)
         else case ParseInt sv of
           None \<Rightarrow> (None, inp1)
         | Some start \<Rightarrow>
             (let (ev, inp2) = read_line inp1
              in case ParseInt ev of
                   None \<Rightarrow> (None, inp2)
                 | Some end_ \<Rightarrow>
                     (let (tz, inp3) = read_line inp2
                      in (Some (cfg\<lparr>Cfg_QuietHours := Some \<lparr>StartHour = start, EndHour = end_, Timezone = tz\<rparr>\<rparr>), inp3))))"

definition settingsMenu :: "string list \<Rightarrow> config \<Rightarrow> config option \<times> string list" where
  "settingsMenu inp cfg =
     (let (ch, inp1) = read_line inp; (v, inp2) = read_line inp1
      in if ch = ''a'' then (Some (cfg\<lparr>Secret := v\<rparr>), inp2)
         else if ch = ''b'' then
           (case ParseCompressionLevel v of Inl _ \<Rightarrow> None | Inr _ \<Rightarrow> Some (cfg\<lparr>CompressionLevel := v\<rparr>), inp2)
         else if ch = ''c'' then (Some (cfg\<lparr>RejectIPv6 := \<not> RejectIPv6 cfg\<rparr>), inp1)
         else if ch = ''d'' then quiet_hours_menu inp1 cfg
         else if ch = ''e'' then (Some (cfg\<lparr>Listen := v\<rparr>), inp2)
         else if ch = ''f'' then (Some (cfg\<lparr>Debug := \<not> Debug cfg\<rparr>), inp1)
         else (None, inp1))"

subsection \<open>What a valid configuration is\<close>

definition valid_link :: "link_config \<Rightarrow> bool" where
  "valid_link l \<longleftrightarrow> LC_ChannelID l < 0 \<and>
     (Kind l = ''account'' \<and> Session l \<noteq> '''' \<and> PeerUserID l \<noteq> 0
      \<or> (Kind l = '''' \<or> Kind l = ''bot'') \<and> Token l \<noteq> '''' \<and> LC_PeerBotID l \<noteq> 0)"

definition levels :: "string set" where
  "levels = {'''', ''fastest'', ''default'', ''better'', ''best''}"

definition valid_config :: "config \<Rightarrow> bool" where
  "valid_config c \<longleftrightarrow>
     Mode c \<in> {''client'', ''server''} \<and> Links c \<noteq> [] \<and> Secret c \<noteq> ''''
     \<and> CompressionLevel c \<in> levels
     \<and> (\<forall>q. Cfg_QuietHours c = Some q \<longrightarrow> hour_ok (StartHour q) \<and> hour_ok (EndHour q))
     \<and> (\<forall>l \<in> set (Links c). valid_link l)
     \<and> ((\<exists>l \<in> set (Links c). Kind l = ''account'') \<longrightarrow> TelegramAPIID c \<noteq> 0 \<and> TelegramAPIHash c \<noteq> '''')"

lemma check_link_None: "check_link l = None \<longleftrightarrow> valid_link l"
  by (auto simp: check_link_def valid_link_def IsAccount_def Let_def split: option.split)

lemma check_links_None: "check_links i ls = None \<longleftrightarrow> (\<forall>l \<in> set ls. valid_link l)"
  by (induction ls arbitrary: i) (auto simp: check_link_None [symmetric] split: option.splits)

lemma level_ok: "v \<in> levels \<longleftrightarrow> (\<exists>l. ParseCompressionLevel v = Inr l)"
  by (auto simp: ParseCompressionLevel_def levels_def)

lemma default_listen_simps [simp]:
  "Links (default_listen c) = Links c" "TelegramAPIID (default_listen c) = TelegramAPIID c"
  "TelegramAPIHash (default_listen c) = TelegramAPIHash c" "Secret (default_listen c) = Secret c"
  "CompressionLevel (default_listen c) = CompressionLevel c" "Cfg_QuietHours (default_listen c) = Cfg_QuietHours c"
  by (simp_all add: default_listen_def)

lemma Validate_Inr: "Validate c = Inr c' \<longleftrightarrow> valid_config c \<and> c' = default_listen c"
proof -
  let ?mode = "Mode c \<in> {''client'', ''server''}"
  let ?qh = "\<forall>q. Cfg_QuietHours c = Some q \<longrightarrow> hour_ok (StartHour q) \<and> hour_ok (EndHour q)"
  let ?creds = "(\<exists>l \<in> set (Links c). IsAccount l) \<longrightarrow> TelegramAPIID c \<noteq> 0 \<and> TelegramAPIHash c \<noteq> ''''"
  have q: "(case Cfg_QuietHours c of None \<Rightarrow> False | Some q \<Rightarrow> \<not> hour_ok (StartHour q) \<or> \<not> hour_ok (EndHour q)) \<longleftrightarrow> \<not> ?qh"
    by (simp split: option.split)
  have m: "(Mode c \<noteq> ''client'' \<and> Mode c \<noteq> ''server'') \<longleftrightarrow> \<not> ?mode" by simp
  have k: "((\<exists>l \<in> set (Links c). IsAccount l) \<and> (TelegramAPIID c = 0 \<or> TelegramAPIHash c = '''')) \<longleftrightarrow> \<not> ?creds" by blast
  have "Validate c = Inr c' \<longleftrightarrow> ?mode \<and> Links c \<noteq> [] \<and> Secret c \<noteq> '''' \<and> (\<exists>l. ParseCompressionLevel (CompressionLevel c) = Inr l)
      \<and> ?qh \<and> check_links 0 (Links c) = None \<and> ?creds \<and> c' = default_listen c"
    unfolding Validate_def m q Let_def default_listen_simps k by (simp split: sum.split option.split) blast
  then show ?thesis unfolding valid_config_def check_links_None level_ok IsAccount_def by blast
qed

lemma build_specs_result:
  assumes "build_specs json http auth qh key level i lcs s = (r, calls)"
  shows "case r of
      Inl e \<Rightarrow> \<exists>k n err. e = VerifyFailed k n err \<and> i \<le> k \<and> k < i + length lcs
    | Inr specs \<Rightarrow> map SpecID specs = map int [i..<i + length lcs] \<and> map SpecChannelID specs = map LC_ChannelID lcs
        \<and> (\<forall>sp \<in> set specs. Key sp = key \<and> SpecLevel sp = level \<and> QuietHours sp = qh)"
  using assms
proof (induction lcs arbitrary: i s r calls)
  case (Cons lc lcs)
  obtain v peer s1 where v: "verify_link json http auth lc s = (v, peer, s1)" by (metis prod.exhaust)
  show ?case
  proof (cases v)
    case (Inl e)
    then show ?thesis using Cons.prems v by auto
  next
    case (Inr own)
    obtain r1 calls1 where r1: "build_specs json http auth qh key level (Suc i) lcs s1 = (r1, calls1)" by fastforce
    show ?thesis
    proof (cases r1)
      case i: (Inl e)
      then have "r = Inl e" using Cons.prems v Inr r1 by (simp add: bind_res_def)
      then show ?thesis using Cons.IH [OF r1] i by force
    next
      case i: (Inr specs)
      let ?spec = "\<lparr>SpecID = int i, SpecBotID = own, SpecPeerBotID = peer, SpecChannelID = LC_ChannelID lc,
                      Key = key, SpecLevel = level, QuietHours = qh\<rparr>"
      have "r = Inr (?spec # specs)" using Cons.prems v Inr r1 i by (simp add: bind_res_def)
      moreover have "[i..<i + length (lc # lcs)] = i # [Suc i..<Suc i + length lcs]" by (simp add: upt_rec)
      ultimately show ?thesis using Cons.IH [OF r1] i by simp
    qed
  qed
qed simp

subsection \<open>Properties\<close>

text \<open>
  C29. Validation accepts exactly the valid configurations: a known mode, at least one link, a
  secret, a known compression level, quiet hours between 0 and 23, every link with the fields of
  its kind and a negative channel, and the application credentials when an account link needs
  them. The accepted configuration is the given one with the default listen address filled in.
\<close>

theorem validate_exact: "Validate c = Inr c' \<longleftrightarrow> valid_config c \<and> c' = default_listen c"
  by (rule Validate_Inr)


definition demo_config :: config where
  "demo_config = \<lparr>Mode = ''server'', Listen = '''', Secret = ''s'', TelegramAPIID = 1, TelegramAPIHash = ''h'', CompressionLevel = '''',
     RejectIPv6 = False, Cfg_QuietHours = None, Debug = False,
     Links = [\<lparr>Kind = ''account'', Token = '''', LC_PeerBotID = 0, Session = ''f'', PeerUserID = 4, LC_ChannelID = -100\<rparr>]\<rparr>"


lemma added_link:
  assumes "fst (linksAddInteractive inp cfg) = Inr cfg'"
  shows "\<exists>lc. cfg' = cfg\<lparr>Links := Links cfg @ [lc]\<rparr> \<and> valid_link lc"
  using assms
  by (auto simp: linksAddInteractive_def linksAddBotFields_def linksAddAccountFields_def valid_link_def bind_res_Inr_iff
      Let_def split: prod.splits if_splits option.splits sum.splits)

text \<open>
  The link editor of the command line: an added link always passes the validation of links and
  is appended, with nothing else changed; removing the link just added restores the configuration;
  and removing takes out exactly the link at the index, which must be in range.
\<close>

lemma links_edit:
  assumes "fst (linksAddInteractive inp cfg) = Inr cfg'"
  shows "(\<exists>lc. Links cfg' = Links cfg @ [lc] \<and> check_link lc = None)
    \<and> linksRemove (int (length (Links cfg))) cfg' = Inr cfg
    \<and> (\<forall>i. case linksRemove i cfg of
          Inl e \<Rightarrow> i < 0 \<or> int (length (Links cfg)) \<le> i
        | Inr c \<Rightarrow> 0 \<le> i \<and> Links cfg = take (nat i) (Links c) @ Links cfg ! nat i # drop (nat i) (Links c))"
proof -
  obtain lc where lc: "cfg' = cfg\<lparr>Links := Links cfg @ [lc]\<rparr>" "valid_link lc" using added_link [OF assms] by blast
  have "case linksRemove i cfg of
      Inl e \<Rightarrow> i < 0 \<or> int (length (Links cfg)) \<le> i
    | Inr c \<Rightarrow> 0 \<le> i \<and> Links cfg = take (nat i) (Links c) @ Links cfg ! nat i # drop (nat i) (Links c)" for i
    using id_take_nth_drop [of "nat i" "Links cfg"] by (simp add: linksRemove_def nat_less_iff)
  then show ?thesis using lc by (simp add: linksRemove_def check_link_None)
qed

lemma settings_cases:
  assumes "fst (settingsMenu (choice # v # inp) cfg) = Some cfg'"
  obtains "TrimSpace choice = ''a''" "cfg' = cfg\<lparr>Secret := TrimSpace v\<rparr>"
  | "TrimSpace choice = ''b''" "TrimSpace v \<in> levels" "cfg' = cfg\<lparr>CompressionLevel := TrimSpace v\<rparr>"
  | "TrimSpace choice = ''c''" "cfg' = cfg\<lparr>RejectIPv6 := \<not> RejectIPv6 cfg\<rparr>"
  | q where "TrimSpace choice = ''d''" "cfg' = cfg\<lparr>Cfg_QuietHours := q\<rparr>"
  | "TrimSpace choice = ''e''" "cfg' = cfg\<lparr>Listen := TrimSpace v\<rparr>"
  | "TrimSpace choice = ''f''" "cfg' = cfg\<lparr>Debug := \<not> Debug cfg\<rparr>"
  using assms unfolding level_ok
  by (auto simp: settingsMenu_def quiet_hours_menu_def Let_def split: prod.splits if_splits option.splits sum.splits)

text \<open>
  The settings menu can save a configuration the program then refuses to start with, and only
  in two ways: starting from a valid configuration, what it saves is invalid exactly if the new
  secret is empty or a new quiet hour is outside 0 to 23, none of which the menu checks.
\<close>

lemma settings_validity:
  assumes "valid_config cfg" "fst (settingsMenu (choice # v # inp) cfg) = Some cfg'"
  shows "valid_config cfg' \<longleftrightarrow> \<not> (TrimSpace choice = ''a'' \<and> TrimSpace v = '''')
    \<and> \<not> (TrimSpace choice = ''d'' \<and> (\<exists>q. Cfg_QuietHours cfg' = Some q \<and> (\<not> hour_ok (StartHour q) \<or> \<not> hour_ok (EndHour q))))"
  using assms(2)
proof (cases rule: settings_cases)
  case 1
  then show ?thesis using assms(1) by (simp add: valid_config_def)
next
  case 2
  then show ?thesis using assms(1) by (simp add: valid_config_def)
next
  case 3
  then show ?thesis using assms(1) by (simp add: valid_config_def)
next
  case (4 q)
  then show ?thesis using assms(1) by (cases q) (simp_all add: valid_config_def)
next
  case 5
  then show ?thesis using assms(1) by (simp add: valid_config_def)
next
  case 6
  then show ?thesis using assms(1) by (simp add: valid_config_def)
qed

text \<open>What the list of links shows of a token: its first six and last four characters at most.\<close>

lemma redactToken_hides:
  "redactToken s = redactToken t \<longleftrightarrow>
     (if length s \<le> 10 \<or> length t \<le> 10 then length s \<le> 10 \<and> length t \<le> 10
      else take 6 s = take 6 t \<and> drop (length s - 4) s = drop (length t - 4) t)"
proof -
  have "redactToken u \<noteq> ''****''" if "10 < length u" for u
  proof
    assume "redactToken u = ''****''"
    then have "length (redactToken u) = 4" by simp
    then show False using that by (simp add: redactToken_def)
  qed
  moreover have "redactToken u = ''****''" if "length u \<le> 10" for u using that by (simp add: redactToken_def)
  moreover have "redactToken s = redactToken t \<longleftrightarrow> take 6 s = take 6 t \<and> drop (length s - 4) s = drop (length t - 4) t"
    if "10 < length s" "10 < length t"
    using that by (simp add: redactToken_def append_eq_append_conv)
  ultimately show ?thesis by (metis not_less)
qed

end
