(* ===== verification/Desktop.thy ===== *)
theory Desktop
  imports Vtel_Config Client
begin

text \<open>
  \<^verbatim>\<open>cmd/vtel-desktop/state.go\<close>: the log buffer behind the Logs tab and the state of the desktop
  application: configuration, running client and last error. What the window does with it is in \<^verbatim>\<open>Desktop_Ui\<close>. The state includes the listen addresses the process holds, since they outlive a
  client: \<^verbatim>\<open>Client.Run\<close> listens inside \<^verbatim>\<open>socks5.Server.ListenAndServe\<close>, and \<^verbatim>\<open>Client.Stop\<close> does not close
  that listener.
\<close>

subsection \<open>The log buffer\<close>

definition TrimRight :: "char \<Rightarrow> string \<Rightarrow> string" where
  "TrimRight c s = rev (dropWhile (\<lambda>x. x = c) (rev s))"

type_synonym log_buffer = "string list"

definition add_line :: "log_buffer \<Rightarrow> string \<Rightarrow> log_buffer" where
  "add_line b line =
     (if line = '''' then b
      else let b1 = b @ [line]
           in if 2000 < length b1 then drop (length b1 - 2000) b1 else b1)"

definition Write :: "string \<Rightarrow> log_buffer \<Rightarrow> log_buffer" where
  "Write p b = foldl add_line b (split_on (CHR 0x0A) (TrimRight (CHR 0x0A) p))"

definition log_clear :: "log_buffer \<Rightarrow> log_buffer" where
  "log_clear b = take 0 b"

subsection \<open>The application\<close>

datatype app_error = ConfigFailed config_error | BuildFailed build_error | ListenFailed string

record app =
  app_cfg :: config
  app_client :: "client option"
  running :: bool
  lastErr :: "app_error option"
  disk :: "config option"
  listening :: "string set"

text \<open>
  Loading the configuration, or writing a skeleton with a new secret if there is none. The flag of the
  results is the absence of an error; \<open>rnd\<close> is what the random source gives, \<open>writable\<close> whether the
  file can be written.
\<close>

definition skeleton :: "string \<Rightarrow> config" where
  "skeleton secret =
     \<lparr>Mode = ''client'', Listen = ''127.0.0.1:1080'', Secret = secret, TelegramAPIID = 0, TelegramAPIHash = '''',
      CompressionLevel = ''fastest'', RejectIPv6 = False, Cfg_QuietHours = None, Debug = False, Links = []\<rparr>"

definition randomSecret :: "bytes option \<Rightarrow> string option" where
  "randomSecret rnd = map_option fmt_x rnd"

definition saveConfig :: "bool \<Rightarrow> app \<Rightarrow> bool \<times> app" where
  "saveConfig writable s = (writable, if writable then s\<lparr>disk := Some (app_cfg s)\<rparr> else s)"

definition setConfig :: "bool \<Rightarrow> config \<Rightarrow> app \<Rightarrow> bool \<times> app" where
  "setConfig writable c s = saveConfig writable (s\<lparr>app_cfg := c\<rparr>)"

definition loadOrInitConfig :: "bytes option \<Rightarrow> bool \<Rightarrow> app \<Rightarrow> bool \<times> app" where
  "loadOrInitConfig rnd writable s =
     (case disk s of
        Some c \<Rightarrow> (True, s\<lparr>app_cfg := c\<rparr>)
      | None \<Rightarrow>
          (case randomSecret rnd of
             None \<Rightarrow> (False, s)
           | Some secret \<Rightarrow> saveConfig writable (s\<lparr>app_cfg := skeleton secret\<rparr>)))"

text \<open>
  \<^verbatim>\<open>connect\<close>; the answer says whether the goroutine that runs the client was started, and with which
  listen address.
\<close>

definition connect ::
  "json_decoder \<Rightarrow> 's http_client \<Rightarrow> (link_config \<Rightarrow> auth_result) \<Rightarrow> 's \<Rightarrow> app \<Rightarrow> string option \<times> app" where
  "connect json http auth net s =
     (if running s then (None, s)
      else case Validate ((app_cfg s)\<lparr>Mode := ''client''\<rparr>) of
        Inl e \<Rightarrow> (None, s\<lparr>lastErr := Some (ConfigFailed e)\<rparr>)
      | Inr cfg \<Rightarrow>
          (case fst (BuildLinkSpecs json http auth cfg net) of
             Inl e \<Rightarrow> (None, s\<lparr>lastErr := Some (BuildFailed e)\<rparr>)
           | Inr specs \<Rightarrow>
               (Some (Listen cfg), s\<lparr>app_client := Some (NewClient specs), running := True, lastErr := None\<rparr>)))"

text \<open>
  The goroutine: it returns only if the address cannot be bound, because some listener of the
  process still has it.
\<close>

definition client_goroutine :: "string \<Rightarrow> app \<Rightarrow> app" where
  "client_goroutine addr s =
     (if addr \<in> listening s then s\<lparr>running := False, lastErr := Some (ListenFailed addr)\<rparr>
      else s\<lparr>listening := insert addr (listening s)\<rparr>)"

definition connect_and_run ::
  "json_decoder \<Rightarrow> 's http_client \<Rightarrow> (link_config \<Rightarrow> auth_result) \<Rightarrow> 's \<Rightarrow> app \<Rightarrow> app" where
  "connect_and_run json http auth net s =
     (case connect json http auth net s of (None, s1) \<Rightarrow> s1 | (Some addr, s1) \<Rightarrow> client_goroutine addr s1)"

text \<open>\<^verbatim>\<open>disconnect\<close>; \<^verbatim>\<open>Client.Stop\<close> stops the links and leaves the listener as it is.\<close>

definition disconnect :: "app \<Rightarrow> app" where
  "disconnect s = s\<lparr>running := False, app_client := None\<rparr>"

definition linkStatuses :: "time \<Rightarrow> app \<Rightarrow> link_status list" where
  "linkStatuses now s = (case app_client s of None \<Rightarrow> [] | Some c \<Rightarrow> LinkStatuses now c)"

subsection \<open>Properties\<close>

definition last_n :: "nat \<Rightarrow> 'a list \<Rightarrow> 'a list" where
  "last_n n xs = drop (length xs - n) xs"

lemma last_n_append: "last_n n (last_n n xs @ ys) = last_n n (xs @ ys)"
proof (cases "length xs \<le> n")
  case True
  then show ?thesis by (simp add: last_n_def)
next
  case False
  then show ?thesis by (simp add: last_n_def drop_append add.commute)
qed

lemma add_line_last: "length b \<le> 2000 \<Longrightarrow> add_line b l = last_n 2000 (b @ filter (\<lambda>l. l \<noteq> '''') [l])"
  by (auto simp: add_line_def last_n_def Let_def)

lemma add_lines_last:
  "length b \<le> 2000 \<Longrightarrow> foldl add_line b ls = last_n 2000 (b @ filter (\<lambda>l. l \<noteq> '''') ls)"
proof (induction ls arbitrary: b)
  case Nil
  then show ?case by (simp add: last_n_def)
next
  case (Cons l ls)
  have "length (add_line b l) \<le> 2000" using Cons.prems by (auto simp: add_line_def Let_def)
  then show ?case
    using Cons.IH [of "add_line b l"] add_line_last [OF Cons.prems, of l]
      last_n_append [of 2000 "b @ filter (\<lambda>l. l \<noteq> '''') [l]" "filter (\<lambda>l. l \<noteq> '''') ls"] by simp
qed

text \<open>
  The log buffer is a window: after any sequence of writes it holds the last 2000 of all the
  non-empty lines written so far, in order.
\<close>

lemma log_buffer_window:
  "foldl (\<lambda>b p. Write p b) [] ps =
     last_n 2000 (filter (\<lambda>l. l \<noteq> '''') (concat (map (\<lambda>p. split_on (CHR 0x0A) (TrimRight (CHR 0x0A) p)) ps)))"
proof -
  have "foldl (\<lambda>b p. Write p b) b ps =
      last_n 2000 (b @ filter (\<lambda>l. l \<noteq> '''') (concat (map (\<lambda>p. split_on (CHR 0x0A) (TrimRight (CHR 0x0A) p)) ps)))"
    if "length b \<le> 2000" for b
    using that
  proof (induction ps arbitrary: b)
    case Nil
    then show ?case by (simp add: last_n_def)
  next
    case (Cons p ps)
    let ?l = "\<lambda>p. filter (\<lambda>l. l \<noteq> '''') (split_on (CHR 0x0A) (TrimRight (CHR 0x0A) p))"
    have w: "Write p b = last_n 2000 (b @ ?l p)" using add_lines_last [OF Cons.prems] by (simp add: Write_def)
    then have "length (Write p b) \<le> 2000" by (simp add: last_n_def)
    then show ?case using Cons.IH [of "Write p b"] w
        last_n_append [of 2000 "b @ ?l p" "filter (\<lambda>l. l \<noteq> '''') (concat (map (\<lambda>p. split_on (CHR 0x0A) (TrimRight (CHR 0x0A) p)) ps))"]
      by simp
  qed
  from this [of "[]"] show ?thesis by simp
qed



text \<open>The skeleton a first start writes needs only a link to be valid.\<close>

lemma first_start_valid:
  assumes "disk s = None" "loadOrInitConfig (Some rnd) True s = (ok, s')" "rnd \<noteq> []" "valid_link l" "\<not> IsAccount l"
  shows "valid_config ((app_cfg s')\<lparr>Links := [l]\<rparr>)" "disk s' = Some (app_cfg s')"
proof -
  obtain b rest where "rnd = b # rest" using assms(3) by (cases rnd) auto
  then have "fmt_x rnd \<noteq> ''''" by (simp add: fmt_x_def)
  then show "valid_config ((app_cfg s')\<lparr>Links := [l]\<rparr>)"
    using assms by (auto simp: loadOrInitConfig_def randomSecret_def saveConfig_def skeleton_def valid_config_def levels_def IsAccount_def)
  show "disk s' = Some (app_cfg s')"
    using assms(1,2) by (auto simp: loadOrInitConfig_def randomSecret_def saveConfig_def)
qed

end
