(* ===== verification/Desktop_Ui.thy ===== *)
theory Desktop_Ui
  imports Desktop
begin

text \<open>
  The button handlers of \<^verbatim>\<open>cmd/vtel-desktop/ui.go\<close>: what they read from the entry fields, what they
  check, and what they store. The fields are arguments; the widgets and their layout are left out.
  Shown is which edits keep the configuration valid, and that the settings form shows a
  configuration faithfully: saving it unedited changes nothing. The last sections are about a removal that
  runs beside a connect, the rows of the lists, and the output captured for the Logs view.
\<close>

subsection \<open>The settings form\<close>

record settings_form =
  sf_secret :: string
  sf_level :: string
  sf_rejectIPv6 :: bool
  sf_debug :: bool
  sf_listen :: string
  sf_quiet :: bool
  sf_start :: string
  sf_end :: string
  sf_timezone :: string

text \<open>The form as \<^verbatim>\<open>buildSettingsView\<close> fills it, for a level that the select offers.\<close>

definition show_settings :: "config \<Rightarrow> settings_form" where
  "show_settings cfg =
     (let (q, st, en, tz) =
        (case Cfg_QuietHours cfg of
           None \<Rightarrow> (False, '''', '''', '''')
         | Some qh \<Rightarrow> (True, fmt_d (StartHour qh), fmt_d (EndHour qh), Timezone qh))
      in \<lparr>sf_secret = Secret cfg,
          sf_level = (if CompressionLevel cfg = '''' then ''fastest'' else CompressionLevel cfg),
          sf_rejectIPv6 = RejectIPv6 cfg, sf_debug = Debug cfg, sf_listen = Listen cfg,
          sf_quiet = q, sf_start = st, sf_end = en, sf_timezone = tz\<rparr>)"

datatype ui_error =
    QuietHoursNotNumbers | InvalidConfig config_error | SaveFailed | NothingPasted | PastedBadJSON
  | InvalidPeer | InvalidChannel | ChannelNotNegative | TokenMissing

definition store :: "bool \<Rightarrow> config \<Rightarrow> app \<Rightarrow> ui_error option \<times> app" where
  "store writable c s = (let (ok, s') = setConfig writable c s in (if ok then None else Some SaveFailed, s'))"

definition save_settings :: "bool \<Rightarrow> settings_form \<Rightarrow> app \<Rightarrow> ui_error option \<times> app" where
  "save_settings writable f s =
     (let cfg = (app_cfg s)\<lparr>Secret := sf_secret f, CompressionLevel := sf_level f, RejectIPv6 := sf_rejectIPv6 f,
                  Debug := sf_debug f, Listen := TrimSpace (sf_listen f)\<rparr>;
          quiet = (if sf_quiet f then
                     (case (ParseInt (TrimSpace (sf_start f)), ParseInt (TrimSpace (sf_end f))) of
                        (Some st, Some en) \<Rightarrow>
                          Some (Some \<lparr>StartHour = st, EndHour = en, Timezone = TrimSpace (sf_timezone f)\<rparr>)
                      | _ \<Rightarrow> None)
                   else Some None)
      in case quiet of
           None \<Rightarrow> (Some QuietHoursNotNumbers, s)
         | Some q \<Rightarrow>
             (case Validate (cfg\<lparr>Cfg_QuietHours := q\<rparr>) of
                Inl e \<Rightarrow> (Some (InvalidConfig e), s)
              | Inr c \<Rightarrow> store writable c s))"

subsection \<open>Import and links\<close>

definition import_config :: "(string \<Rightarrow> config option) \<Rightarrow> bool \<Rightarrow> string \<Rightarrow> app \<Rightarrow> ui_error option \<times> app" where
  "import_config unjson writable pasted s =
     (let txt = TrimSpace pasted
      in if txt = '''' then (Some NothingPasted, s)
         else case unjson txt of
           None \<Rightarrow> (Some PastedBadJSON, s)
         | Some c \<Rightarrow>
             (case Validate c of
                Inl e \<Rightarrow> (Some (InvalidConfig e), s)
              | Inr c' \<Rightarrow> store writable c' s))"

definition add_link :: "bool \<Rightarrow> string \<Rightarrow> string \<Rightarrow> string \<Rightarrow> app \<Rightarrow> ui_error option \<times> app" where
  "add_link writable tokenText peerText channelText s =
     (case ParseInt (TrimSpace peerText) of
        None \<Rightarrow> (Some InvalidPeer, s)
      | Some peer \<Rightarrow>
          (case ParseInt (TrimSpace channelText) of
             None \<Rightarrow> (Some InvalidChannel, s)
           | Some ch \<Rightarrow>
               if 0 < ch then (Some ChannelNotNegative, s)
               else let tok = TrimSpace tokenText
                    in if tok = '''' then (Some TokenMissing, s)
                       else store writable
                         ((app_cfg s)\<lparr>Links := Links (app_cfg s) @
                           [\<lparr>Kind = '''', Token = tok, LC_PeerBotID = peer, Session = '''', PeerUserID = 0, LC_ChannelID = ch\<rparr>]\<rparr>) s))"

text \<open>The Remove button of row \<open>i\<close>; \<open>None\<close> is the panic for a row that no longer exists. A failure to save is ignored.\<close>

definition remove_link :: "bool \<Rightarrow> nat \<Rightarrow> app \<Rightarrow> app option" where
  "remove_link writable i s =
     (let ls = Links (app_cfg s)
      in if length ls < i + 1 then None
         else Some (snd (setConfig writable ((app_cfg s)\<lparr>Links := take i ls @ drop (i + 1) ls\<rparr>) s)))"

subsection \<open>The status view\<close>

record status_view =
  vw_connected :: bool
  vw_healthy :: nat
  vw_total :: nat
  vw_configured :: nat
  vw_error :: "app_error option"
  vw_connectEnabled :: bool
  vw_disconnectEnabled :: bool

definition refresh :: "time \<Rightarrow> app \<Rightarrow> status_view" where
  "refresh now s =
     (let statuses = linkStatuses now s
      in \<lparr>vw_connected = running s,
          vw_healthy = (if running s then length (filter LS_Healthy statuses) else 0),
          vw_total = (if running s then length statuses else 0),
          vw_configured = length (Links (app_cfg s)),
          vw_error = lastErr s,
          vw_connectEnabled = (\<not> running s),
          vw_disconnectEnabled = running s\<rparr>)"

subsection \<open>Edits\<close>

datatype ui_edit = SaveSettings settings_form | ImportConfig string | AddLink string string string | RemoveLink nat

fun apply_edit :: "(string \<Rightarrow> config option) \<Rightarrow> bool \<Rightarrow> ui_edit \<Rightarrow> app \<Rightarrow> (ui_error option \<times> app) option" where
  "apply_edit unjson writable (SaveSettings f) s = Some (save_settings writable f s)"
| "apply_edit unjson writable (ImportConfig txt) s = Some (import_config unjson writable txt s)"
| "apply_edit unjson writable (AddLink t p c) s = Some (add_link writable t p c s)"
| "apply_edit unjson writable (RemoveLink i) s = map_option (Pair None) (remove_link writable i s)"

lemma valid_default_listen [simp]: "valid_config (default_listen c) \<longleftrightarrow> valid_config c"
  by (simp add: valid_config_def default_listen_def)

lemma store_True [simp]: "store True c s = (None, s\<lparr>app_cfg := c, disk := Some c\<rparr>)"
  by (simp add: store_def setConfig_def saveConfig_def)

lemma save_settings_stored:
  assumes "save_settings True f s = (None, s')"
  shows "valid_config (app_cfg s') \<and> disk s' = Some (app_cfg s')"
  using assms by (auto simp: save_settings_def Let_def Validate_Inr split: option.splits sum.splits if_splits)

lemma import_config_stored:
  assumes "import_config unjson True txt s = (None, s')"
  shows "valid_config (app_cfg s') \<and> disk s' = Some (app_cfg s')"
  using assms by (auto simp: import_config_def Let_def Validate_Inr split: option.splits sum.splits if_splits)

lemma valid_config_links:
  assumes "valid_config c"
  shows "valid_config (c\<lparr>Links := ls\<rparr>) \<longleftrightarrow> ls \<noteq> [] \<and> (\<forall>l \<in> set ls. valid_link l)
    \<and> ((\<exists>l \<in> set ls. Kind l = ''account'') \<longrightarrow> TelegramAPIID c \<noteq> 0 \<and> TelegramAPIHash c \<noteq> '''')"
  using assms by (auto simp: valid_config_def)

lemma add_link_stored:
  assumes "valid_config (app_cfg s)" "add_link True t p c s = (None, s')"
  shows "disk s' = Some (app_cfg s')
    \<and> (valid_config (app_cfg s') \<longleftrightarrow> ParseInt (TrimSpace p) \<noteq> Some 0 \<and> ParseInt (TrimSpace c) \<noteq> Some 0)"
proof -
  obtain peer ch where pc: "ParseInt (TrimSpace p) = Some peer" "ParseInt (TrimSpace c) = Some ch" "ch \<le> 0" "TrimSpace t \<noteq> ''''"
    using assms(2) by (auto simp: add_link_def Let_def split: option.splits if_splits)
  let ?l = "\<lparr>Kind = '''', Token = TrimSpace t, LC_PeerBotID = peer, Session = '''', PeerUserID = 0, LC_ChannelID = ch\<rparr>"
  have "s' = s\<lparr>app_cfg := (app_cfg s)\<lparr>Links := Links (app_cfg s) @ [?l]\<rparr>, disk := Some ((app_cfg s)\<lparr>Links := Links (app_cfg s) @ [?l]\<rparr>)\<rparr>"
    using assms(2) pc by (simp add: add_link_def Let_def)
  moreover have "valid_link ?l \<longleftrightarrow> peer \<noteq> 0 \<and> ch \<noteq> 0" using pc by (auto simp: valid_link_def)
  ultimately show ?thesis
    using assms(1) pc(1,2) by (auto simp: valid_config_links) (auto simp: valid_config_def)
qed

lemma remove_link_stored:
  assumes "valid_config (app_cfg s)" "remove_link True i s = Some s'"
  shows "disk s' = Some (app_cfg s') \<and> (valid_config (app_cfg s') \<longleftrightarrow> 1 < length (Links (app_cfg s)))"
proof -
  let ?ls = "take i (Links (app_cfg s)) @ drop (i + 1) (Links (app_cfg s))"
  have i: "i < length (Links (app_cfg s))" and s': "s' = s\<lparr>app_cfg := (app_cfg s)\<lparr>Links := ?ls\<rparr>, disk := Some ((app_cfg s)\<lparr>Links := ?ls\<rparr>)\<rparr>"
    using assms(2) by (auto simp: remove_link_def setConfig_def saveConfig_def Let_def split: if_splits)
  have "length ?ls = length (Links (app_cfg s)) - 1" using i by simp
  then have "?ls \<noteq> [] \<longleftrightarrow> 1 < length (Links (app_cfg s))" using i by (metis Suc_pred gr_implies_not0 length_greater_0_conv neq0_conv One_nat_def zero_less_diff)
  moreover have "set ?ls \<subseteq> set (Links (app_cfg s))" by (auto dest: in_set_takeD in_set_dropD)
  then have "\<forall>l \<in> set ?ls. valid_link l" "(\<exists>l \<in> set ?ls. Kind l = ''account'') \<longrightarrow> TelegramAPIID (app_cfg s) \<noteq> 0 \<and> TelegramAPIHash (app_cfg s) \<noteq> ''''"
    using assms(1) unfolding valid_config_def by blast+
  ultimately show ?thesis using valid_config_links [OF assms(1), of ?ls] s' by simp
qed

subsection \<open>Properties\<close>


definition demo_app :: app where
  "demo_app = \<lparr>app_cfg = demo_config, app_client = None, running = False, lastErr = None, disk = None, listening = {}\<rparr>"


text \<open>
  The settings form is faithful: saving it as it was shown stores the configuration that was
  there, with the default compression level written out and the default listen address filled in.
\<close>

lemma settings_unedited:
  assumes "valid_config c" "TrimSpace (Listen c) = Listen c"
    and "\<forall>q. Cfg_QuietHours c = Some q \<longrightarrow> TrimSpace (Timezone q) = Timezone q"
  shows "save_settings True (show_settings c) (s\<lparr>app_cfg := c\<rparr>) =
    (None, let c' = default_listen (c\<lparr>CompressionLevel := (if CompressionLevel c = '''' then ''fastest'' else CompressionLevel c)\<rparr>)
           in s\<lparr>app_cfg := c', disk := Some c'\<rparr>)"
proof -
  let ?c = "c\<lparr>CompressionLevel := (if CompressionLevel c = '''' then ''fastest'' else CompressionLevel c)\<rparr>"
  have "valid_config ?c" using assms(1) by (auto simp: valid_config_def levels_def)
  then have v: "Validate ?c = Inr (default_listen ?c)" by (simp add: Validate_Inr)
  show ?thesis
  proof (cases "Cfg_QuietHours c")
    case None
    then show ?thesis using v assms(2) by (cases c) (simp add: save_settings_def show_settings_def Let_def split: if_splits)
  next
    case (Some q)
    have "hour_ok (StartHour q)" "hour_ok (EndHour q)" using assms(1) Some by (auto simp: valid_config_def)
    then have "ParseInt (fmt_d (StartHour q)) = Some (StartHour q)" "ParseInt (fmt_d (EndHour q)) = Some (EndHour q)"
      by (auto simp: hour_ok_def intro!: ParseInt_fmt_d)
    then show ?thesis using v Some assms(2,3)
      by (cases c, cases q) (simp add: save_settings_def show_settings_def TrimSpace_fmt_d Let_def split: if_splits)
  qed
qed

subsection \<open>Removing a link while another goroutine reads\<close>

text \<open>
  \<^verbatim>\<open>append(cfg.Links[:id], cfg.Links[id+1:]...)\<close> has room in the array it appends to, so it moves the later
  links down in place. \<^verbatim>\<open>connect\<close> works on a copy of the configuration, taken before, that shares the
  array: \<open>overwrite\<close> is the append on the array, \<open>seen_by_copy\<close> what such a copy, with its old length,
  reads afterwards.
\<close>

definition overwrite :: "nat \<Rightarrow> 'a list \<Rightarrow> 'a list \<Rightarrow> 'a list" where
  "overwrite i ys arr = take i arr @ ys @ drop (i + length ys) arr"

definition seen_by_copy :: "nat \<Rightarrow> 'a list \<Rightarrow> 'a list" where
  "seen_by_copy i ls = overwrite i (drop (i + 1) ls) ls"

lemma seen_by_copy_shift:
  assumes "i < length ls"
  shows "seen_by_copy i ls = take i ls @ drop (i + 1) ls @ [last ls]"
proof -
  have "drop (length ls - 1) ls = [last ls]"
    using assms by (cases ls rule: rev_cases) simp_all
  moreover have "i + length (drop (i + 1) ls) = length ls - 1" using assms by simp
  ultimately show ?thesis unfolding seen_by_copy_def overwrite_def by metis
qed

text \<open>So the copy loses the removed link and, unless that was the last one, has the last one twice.\<close>

lemma seen_by_copy_twice:
  assumes "i + 1 < length ls"
  shows "length (seen_by_copy i ls) = length ls" "\<not> distinct (seen_by_copy i ls)"
proof -
  have s: "seen_by_copy i ls = take i ls @ drop (i + 1) ls @ [last ls]" using assms by (intro seen_by_copy_shift) simp
  then show "length (seen_by_copy i ls) = length ls" using assms by simp
  have "last ls \<in> set (drop (i + 1) ls)" using assms by (metis drop_eq_Nil last_drop last_in_set linorder_not_le)
  then show "\<not> distinct (seen_by_copy i ls)" by (simp add: s)
qed

lemma seen_by_copy_stored:
  assumes "i < length (Links (app_cfg s))" "remove_link True i s = Some s'"
  shows "Links (app_cfg s') = butlast (seen_by_copy i (Links (app_cfg s)))"
proof -
  have "Links (app_cfg s') = take i (Links (app_cfg s)) @ drop (i + 1) (Links (app_cfg s))"
    using assms by (auto simp: remove_link_def setConfig_def saveConfig_def Let_def split: if_splits)
  then show ?thesis using assms(1) by (simp add: seen_by_copy_shift butlast_append)
qed


subsection \<open>Rows of the lists\<close>

text \<open>
  The toolkit calls a list's update function with the number of a row that existed when it counted them.
  By then the list may be shorter, so every function checks the number first: \<open>None\<close> leaves the row as
  it is. A status row shows the dot, the name, the streams and kilobytes per second.
\<close>

definition status_row :: "time \<Rightarrow> app \<Rightarrow> nat \<Rightarrow> (bool \<times> string \<times> int \<times> rat) option" where
  "status_row now s i =
     (let statuses = linkStatuses now s
      in if length statuses \<le> i then None
         else let st = statuses ! i
              in Some (LS_Healthy st, ''Link '' @ fmt_d (LS_ID st), LS_ActiveStreams st, fdiv (float64 (LS_BytesPerSec st)) 1024))"

definition links_row :: "app \<Rightarrow> nat \<Rightarrow> (string \<times> string) option" where
  "links_row s i =
     (let ls = Links (app_cfg s)
      in if length ls \<le> i then None
         else let l = ls ! i
              in Some (''#'' @ fmt_d (int i),
                   redactToken (Token l) @ ''   peer='' @ fmt_d (LC_PeerBotID l) @ ''   channel='' @ fmt_d (LC_ChannelID l)))"

definition log_row :: "log_buffer \<Rightarrow> nat \<Rightarrow> string option" where
  "log_row b i = (if i < length b then Some (b ! i) else None)"

text \<open>After a change of the buffer the list scrolls to its last row.\<close>

definition log_scroll :: "log_buffer \<Rightarrow> nat option" where
  "log_scroll b = (if 0 < length b then Some (length b - 1) else None)"

definition copied_address :: "app \<Rightarrow> string" where
  "copied_address s = ''socks5h://'' @ Listen (app_cfg s)"

text \<open>A row is updated exactly if its number still exists, and what the list of links shows of a token is its redaction.\<close>

lemma rows_in_range:
  "status_row now s i \<noteq> None \<longleftrightarrow> i < length (linkStatuses now s)"
  "links_row s i \<noteq> None \<longleftrightarrow> i < length (Links (app_cfg s))"
  "log_scroll b = Some i \<Longrightarrow> log_row b i = Some (last b)"
  by (simp add: status_row_def Let_def) (simp add: links_row_def Let_def, auto simp: log_scroll_def log_row_def last_conv_nth split: if_splits)

lemma links_row_redacted:
  assumes "redactToken t = redactToken (Token (Links (app_cfg s) ! i))" "i < length (Links (app_cfg s))"
  shows "links_row (s\<lparr>app_cfg := (app_cfg s)\<lparr>Links := (Links (app_cfg s))[i := (Links (app_cfg s) ! i)\<lparr>Token := t\<rparr>]\<rparr>\<rparr>) i = links_row s i"
  using assms by (simp add: links_row_def Let_def)

subsection \<open>Captured output\<close>

text \<open>
  \<^verbatim>\<open>main\<close> replaces the standard output by a pipe and hands the log buffer what each read of the pipe
  returns, up to 4096 bytes at a time. The reads need not end where a line ends, and \<^verbatim>\<open>Write\<close> takes the
  end of what it is given for the end of a line.
\<close>

definition capture :: "string list \<Rightarrow> log_buffer \<Rightarrow> log_buffer" where
  "capture reads b = fold (\<lambda>r b. if 0 < length r then Write r b else b) reads b"

lemma dropWhile_other: "c \<notin> set xs \<Longrightarrow> dropWhile (\<lambda>x. x = c) xs = xs"
  by (cases xs) auto

lemma TrimRight_line:
  assumes "c \<notin> set s"
  shows "TrimRight c (s @ [c]) = s" "TrimRight c s = s"
proof -
  have "dropWhile (\<lambda>x. x = c) (rev s) = rev s" by (rule dropWhile_other) (use assms in simp)
  then show "TrimRight c (s @ [c]) = s" "TrimRight c s = s" by (simp_all add: TrimRight_def)
qed

lemma split_on_none': "c \<notin> set s \<Longrightarrow> split_on c s = [s]"
  by (induction s) auto

lemma Write_line:
  assumes "CHR 0x0A \<notin> set s" "s \<noteq> ''''" "length b < 2000"
  shows "Write (s @ [CHR 0x0A]) b = b @ [s]" "Write s b = b @ [s]"
  using assms by (simp_all add: Write_def TrimRight_line split_on_none' add_line_def Let_def)

text \<open>A line that is printed at once is one line of the log, but cut by a read it becomes two.\<close>

lemma capture_cuts_lines:
  assumes "CHR 0x0A \<notin> set (s @ t)" "s \<noteq> ''''" "t \<noteq> ''''" "length b + 1 < 2000"
  shows "capture [(s @ t) @ [CHR 0x0A]] b = b @ [s @ t]" "capture [s, t @ [CHR 0x0A]] b = b @ [s, t]"
proof -
  have one: "Write ((s @ t) @ [CHR 0x0A]) b = b @ [s @ t]" by (rule Write_line) (use assms in simp_all)
  have two: "Write s b = b @ [s]" "Write (t @ [CHR 0x0A]) (b @ [s]) = (b @ [s]) @ [t]" by (rule Write_line; use assms in simp)+
  show "capture [(s @ t) @ [CHR 0x0A]] b = b @ [s @ t]" using one by (simp add: capture_def del: append_assoc)
  show "capture [s, t @ [CHR 0x0A]] b = b @ [s, t]" using two assms(2) by (simp add: capture_def)
qed

end
