(* ===== verification/Vtel_Cli.thy ===== *)
theory Vtel_Cli
  imports Vtel_Config
begin

text \<open>
  The commands of \<^verbatim>\<open>cmd/vtel\<close> that change the machine: \<^verbatim>\<open>cmd_update.go\<close> (update and rollback),
  \<^verbatim>\<open>cmd_service.go\<close> (install, uninstall, restart) and \<^verbatim>\<open>cmd_account.go\<close> (logging an account in). The
  machine is its files and the external commands that were run; what \<^verbatim>\<open>systemctl\<close>, the web server,
  the JSON codec and the MTProto library answer is an argument. Shown is that an update never leaves
  a partial binary, that nothing is uninstalled without the confirmation, and which calls of the
  login save the application credentials.
\<close>

subsection \<open>The machine\<close>

record host =
  h_files :: "string \<Rightarrow> bytes option"
  h_ran :: "string list list"

definition vtelRoot :: string where "vtelRoot = ''/root/vtel''"
definition defaultConfigPath :: string where "defaultConfigPath = vtelRoot @ ''/config.json''"
definition binaryPath :: string where "binaryPath = ''/usr/local/bin/vtel''"
definition serviceName :: string where "serviceName = ''vtel''"
definition repoSlug :: string where "repoSlug = ''alaaabd90/vtel''"
definition unitPath :: string where "unitPath = ''/etc/systemd/system/'' @ serviceName @ ''.service''"

text \<open>\<open>env\<close> is the value of \<^verbatim>\<open>VTEL_CONFIG\<close>.\<close>

definition cliConfigPath :: "string \<Rightarrow> string" where
  "cliConfigPath env = (if env \<noteq> '''' then env else defaultConfigPath)"

text \<open>Running a command: \<open>run\<close> says whether it succeeds.\<close>

definition exec :: "(string list \<Rightarrow> host \<Rightarrow> bool) \<Rightarrow> string list \<Rightarrow> host \<Rightarrow> bool \<times> host" where
  "exec run cmd h = (run cmd h, h\<lparr>h_ran := h_ran h @ [cmd]\<rparr>)"

datatype cli_fail =
    NotExist | ReadFailed | WriteFailed string | HTTPFailed go_error | HTTPStatus int | BadJSON | CopyFailed
  | AssetMissing string string | RenameFailed | NoConfig string | CommandFailed "string list"
  | UninstallCancelled | PhoneRequired | CredentialsMissing | MkdirFailed | LoginFailed go_error
  | UnknownSubcommand string

definition loadConfigForCLI :: "(bytes \<Rightarrow> config option) \<Rightarrow> string \<Rightarrow> host \<Rightarrow> cli_fail + config" where
  "loadConfigForCLI unjson path h =
     (case h_files h path of
        None \<Rightarrow> Inl NotExist
      | Some d \<Rightarrow> (case unjson d of None \<Rightarrow> Inl BadJSON | Some c \<Rightarrow> Inr c))"

definition saveConfigForCLI ::
  "(config \<Rightarrow> bytes) \<Rightarrow> (string \<Rightarrow> bool) \<Rightarrow> string \<Rightarrow> config \<Rightarrow> host \<Rightarrow> cli_fail option \<times> host" where
  "saveConfigForCLI json writable path c h =
     (if \<not> writable path then (Some (WriteFailed path), h)
      else (None, h\<lparr>h_files := (h_files h)(path \<mapsto> json c)\<rparr>))"

subsection \<open>Update and rollback\<close>

text \<open>
  The file operations of a download, one by one, so that an interruption between any two of them
  can be stated.
\<close>

datatype fs_op = OpenTrunc string | Append string bytes | RemoveFile string | RenameFile string string

fun apply_op :: "fs_op \<Rightarrow> (string \<Rightarrow> bytes option) \<Rightarrow> string \<Rightarrow> bytes option" where
  "apply_op (OpenTrunc p) f = f(p \<mapsto> [])"
| "apply_op (Append p d) f = f(p := map_option (\<lambda>x. x @ d) (f p))"
| "apply_op (RemoveFile p) f = f(p := None)"
| "apply_op (RenameFile p q) f = (case f p of None \<Rightarrow> f | Some d \<Rightarrow> f(p := None, q \<mapsto> d))"

definition apply_ops :: "fs_op list \<Rightarrow> (string \<Rightarrow> bytes option) \<Rightarrow> string \<Rightarrow> bytes option" where
  "apply_ops ops f = fold apply_op ops f"

text \<open>
  What the server sends: an error, or a status with the chunks that were read and whether reading
  broke off after them. \<open>can_open\<close> and \<open>can_rename\<close>: whether the two file system calls succeed.
\<close>

type_synonym download = "go_error + int \<times> bytes list \<times> bool"

definition downloadAsset :: "bool \<Rightarrow> bool \<Rightarrow> string \<Rightarrow> download \<Rightarrow> fs_op list \<times> cli_fail option" where
  "downloadAsset can_open can_rename dest resp =
     (case resp of
        Inl e \<Rightarrow> ([], Some (HTTPFailed e))
      | Inr (status, parts, broken) \<Rightarrow>
          if status \<noteq> 200 then ([], Some (HTTPStatus status))
          else
            let tmp = dest @ ''.new''
            in if \<not> can_open then ([], Some (WriteFailed tmp))
               else let wr = OpenTrunc tmp # map (Append tmp) parts
                    in if broken then (wr @ [RemoveFile tmp], Some CopyFailed)
                       else if \<not> can_rename then (wr, Some RenameFailed)
                       else (wr @ [RenameFile tmp dest], None))"

record release =
  TagName :: string
  Assets :: "(string \<times> string) list"

definition fetchRelease ::
  "(bytes \<Rightarrow> release option) \<Rightarrow> (string \<Rightarrow> go_error + int \<times> bytes) \<Rightarrow> string \<Rightarrow> cli_fail + release" where
  "fetchRelease unjson http url =
     (case http url of
        Inl e \<Rightarrow> Inl (HTTPFailed e)
      | Inr (status, body) \<Rightarrow>
          if status \<noteq> 200 then Inl (HTTPStatus status)
          else (case unjson body of None \<Rightarrow> Inl BadJSON | Some r \<Rightarrow> Inr r))"

definition assetNameForPlatform :: "string \<Rightarrow> string" where
  "assetNameForPlatform arch = (if arch = ''arm64'' then ''vtel-linux-arm64'' else ''vtel-linux-amd64'')"

definition isServiceActive :: "(string list \<Rightarrow> host \<Rightarrow> bool) \<Rightarrow> string \<Rightarrow> host \<Rightarrow> bool \<times> host" where
  "isServiceActive run name h = exec run [''systemctl'', ''is-active'', ''--quiet'', name] h"

text \<open>The environment of the two commands.\<close>

record cli_env =
  ev_run :: "string list \<Rightarrow> host \<Rightarrow> bool"
  ev_arch :: string
  ev_release :: "bytes \<Rightarrow> release option"
  ev_releases :: "bytes \<Rightarrow> release list option"
  ev_http :: "string \<Rightarrow> go_error + int \<times> bytes"
  ev_get :: "string \<Rightarrow> download"
  ev_open :: bool
  ev_rename :: bool

definition installReleaseTag :: "cli_env \<Rightarrow> release \<Rightarrow> host \<Rightarrow> cli_fail option \<times> host" where
  "installReleaseTag ev rel h =
     (let want = assetNameForPlatform (ev_arch ev);
          url = (case find (\<lambda>a. fst a = want) (Assets rel) of None \<Rightarrow> '''' | Some a \<Rightarrow> snd a)
      in if url = '''' then (Some (AssetMissing want (TagName rel)), h)
         else
           let (ops, e) = downloadAsset (ev_open ev) (ev_rename ev) binaryPath (ev_get ev url);
               h1 = h\<lparr>h_files := apply_ops ops (h_files h)\<rparr>
           in (case e of
                 Some e \<Rightarrow> (Some e, h1)
               | None \<Rightarrow>
                   let (active, h2) = isServiceActive (ev_run ev) serviceName h1
                   in (None, if active then snd (exec (ev_run ev) [''systemctl'', ''restart'', serviceName] h2) else h2)))"

definition cmdUpdate :: "cli_env \<Rightarrow> host \<Rightarrow> cli_fail option \<times> host" where
  "cmdUpdate ev h =
     (case fetchRelease (ev_release ev) (ev_http ev)
             (''https://api.github.com/repos/'' @ repoSlug @ ''/releases/latest'') of
        Inl e \<Rightarrow> (Some e, h)
      | Inr rel \<Rightarrow> installReleaseTag ev rel h)"

text \<open>Without a tag \<^verbatim>\<open>rollback\<close> only lists the releases, whatever the status of the answer.\<close>

definition listReleasesForRollback :: "cli_env \<Rightarrow> cli_fail option" where
  "listReleasesForRollback ev =
     (case ev_http ev (''https://api.github.com/repos/'' @ repoSlug @ ''/releases'') of
        Inl e \<Rightarrow> Some (HTTPFailed e)
      | Inr (_, body) \<Rightarrow> (case ev_releases ev body of None \<Rightarrow> Some BadJSON | Some _ \<Rightarrow> None))"

definition cmdRollback :: "cli_env \<Rightarrow> string list \<Rightarrow> host \<Rightarrow> cli_fail option \<times> host" where
  "cmdRollback ev args h =
     (case args of
        [] \<Rightarrow> (listReleasesForRollback ev, h)
      | tag # _ \<Rightarrow>
          if tag = '''' then (listReleasesForRollback ev, h)
          else (case fetchRelease (ev_release ev) (ev_http ev)
                       (''https://api.github.com/repos/'' @ repoSlug @ ''/releases/tags/'' @ tag) of
            Inl e \<Rightarrow> (Some e, h)
          | Inr rel \<Rightarrow> installReleaseTag ev rel h))"

subsection \<open>The service\<close>

definition nl :: string where "nl = [CHR 0x0A]"

definition unit_file :: "string \<Rightarrow> string" where
  "unit_file path =
     ''[Unit]'' @ nl @ ''Description=vtel SOCKS5-over-Telegram tunnel'' @ nl @ ''After=network.target'' @ nl @ nl
   @ ''[Service]'' @ nl @ ''Type=simple'' @ nl @ ''ExecStart='' @ binaryPath @ '' -config '' @ path @ nl
   @ ''Restart=always'' @ nl @ ''RestartSec=5'' @ nl @ ''StandardOutput=journal'' @ nl @ ''StandardError=journal'' @ nl @ nl
   @ ''[Install]'' @ nl @ ''WantedBy=multi-user.target'' @ nl"

definition cmdRestart :: "(string list \<Rightarrow> host \<Rightarrow> bool) \<Rightarrow> host \<Rightarrow> bool \<times> host" where
  "cmdRestart run h = exec run [''systemctl'', ''restart'', serviceName] h"

definition cmdInstall ::
  "(string list \<Rightarrow> host \<Rightarrow> bool) \<Rightarrow> (string \<Rightarrow> bool) \<Rightarrow> string \<Rightarrow> host \<Rightarrow> cli_fail option \<times> host" where
  "cmdInstall run writable path h =
     (if h_files h path = None then (Some (NoConfig path), h)
      else if \<not> writable unitPath then (Some (WriteFailed unitPath), h)
      else
        let h1 = h\<lparr>h_files := (h_files h)(unitPath \<mapsto> bytes_of_string (unit_file path))\<rparr>;
            (ok1, h2) = exec run [''systemctl'', ''daemon-reload''] h1
        in if \<not> ok1 then (Some (CommandFailed [''systemctl'', ''daemon-reload'']), h2)
           else
             let (_, h3) = exec run [''systemctl'', ''enable'', serviceName] h2;
                 (ok2, h4) = exec run [''systemctl'', ''restart'', serviceName] h3
             in (if ok2 then None else Some (CommandFailed [''systemctl'', ''restart'', serviceName]), h4))"

text \<open>
  \<open>stuck\<close>: the files that cannot be deleted. A failure to delete is reported but does not stop the
  command.
\<close>

definition remove_file :: "(string \<Rightarrow> bool) \<Rightarrow> string \<Rightarrow> host \<Rightarrow> host" where
  "remove_file stuck p h = (if stuck p then h else h\<lparr>h_files := (h_files h)(p := None)\<rparr>)"

definition under :: "string \<Rightarrow> string \<Rightarrow> bool" where
  "under dir p \<longleftrightarrow> p = dir \<or> HasPrefix p (dir @ ''/'')"

definition RemoveAll :: "(string \<Rightarrow> bool) \<Rightarrow> string \<Rightarrow> host \<Rightarrow> host" where
  "RemoveAll stuck dir h =
     h\<lparr>h_files := (\<lambda>p. if under dir p \<and> \<not> stuck p then None else h_files h p)\<rparr>"

definition cmdUninstallWithReader ::
  "(string list \<Rightarrow> host \<Rightarrow> bool) \<Rightarrow> (string \<Rightarrow> bool) \<Rightarrow> string list \<Rightarrow> string list \<Rightarrow> host \<Rightarrow> cli_fail option \<times> host" where
  "cmdUninstallWithReader run stuck args inp h =
     (if ''--force'' \<notin> set args \<and> fst (read_line inp) \<noteq> ''DELETE EVERYTHING'' then (Some UninstallCancelled, h)
      else
        let h1 = snd (exec run [''systemctl'', ''stop'', serviceName] h);
            h2 = snd (exec run [''systemctl'', ''disable'', serviceName] h1);
            h3 = remove_file stuck unitPath h2;
            h4 = snd (exec run [''systemctl'', ''daemon-reload''] h3);
            h5 = RemoveAll stuck vtelRoot h4
        in (None, remove_file stuck binaryPath h5))"

subsection \<open>Logging an account in\<close>

text \<open>\<^verbatim>\<open>oneLine\<close> replaces first CR LF, then the line feeds that are left.\<close>

fun replace_crlf :: "string \<Rightarrow> string" where
  "replace_crlf (a # b # s) =
     (if a = CHR 0x0D \<and> b = CHR 0x0A then CHR '' '' # replace_crlf s else a # replace_crlf (b # s))"
| "replace_crlf s = s"

definition oneLine :: "string \<Rightarrow> string" where
  "oneLine s = map (\<lambda>c. if c = CHR 0x0A then CHR '' '' else c) (replace_crlf s)"

definition sanitizePhoneForFilename :: "string \<Rightarrow> string" where
  "sanitizePhoneForFilename phone = filter (\<lambda>c. is_digit c \<or> c = CHR ''+'') phone"

text \<open>\<open>dir\<close> is the directory of the configuration file.\<close>

definition defaultSessionPath :: "string \<Rightarrow> string \<Rightarrow> string" where
  "defaultSessionPath dir phone = dir @ ''/accounts/'' @ sanitizePhoneForFilename phone @ ''.session''"

record login_flags =
  fl_phone :: string
  fl_apiID :: int
  fl_apiHash :: string
  fl_session :: string

text \<open>
  The outside of a login: the codec of the configuration, the file system's answers, and the MTProto
  login itself, which yields the account's number and may write the session file.
\<close>

record login_env =
  lg_unjson :: "bytes \<Rightarrow> config option"
  lg_json :: "config \<Rightarrow> bytes"
  lg_writable :: "string \<Rightarrow> bool"
  lg_mkdir :: bool
  lg_login :: "int \<Rightarrow> string \<Rightarrow> string \<Rightarrow> (go_error + int) \<times> bytes option"
  lg_path :: string
  lg_dir :: string

definition empty_config :: config where
  "empty_config = \<lparr>Mode = '''', Listen = '''', Secret = '''', TelegramAPIID = 0, TelegramAPIHash = '''',
     CompressionLevel = '''', RejectIPv6 = False, Cfg_QuietHours = None, Debug = False, Links = []\<rparr>"

text \<open>The credentials to use, and the configuration if it had to be read; a missing file reads as the empty one.\<close>

definition login_credentials :: "login_env \<Rightarrow> login_flags \<Rightarrow> host \<Rightarrow> cli_fail + int \<times> string \<times> config option" where
  "login_credentials lg fl h =
     (if fl_apiID fl \<noteq> 0 \<and> fl_apiHash fl \<noteq> '''' then Inr (fl_apiID fl, fl_apiHash fl, None)
      else bind_res
        (case loadConfigForCLI (lg_unjson lg) (lg_path lg) h of
           Inl e \<Rightarrow> if e = NotExist then Inr empty_config else Inl e
         | Inr c \<Rightarrow> Inr c)
        (\<lambda>cfg. Inr (if fl_apiID fl = 0 then TelegramAPIID cfg else fl_apiID fl,
                    if fl_apiHash fl = '''' then TelegramAPIHash cfg else fl_apiHash fl, Some cfg)))"

definition cmdAccountLogin :: "login_env \<Rightarrow> login_flags \<Rightarrow> host \<Rightarrow> (cli_fail + string \<times> int) \<times> host" where
  "cmdAccountLogin lg fl h =
     (if fl_phone fl = '''' then (Inl PhoneRequired, h)
      else case login_credentials lg fl h of
        Inl e \<Rightarrow> (Inl e, h)
      | Inr (apiID, apiHash, cfg) \<Rightarrow>
          if apiID = 0 \<or> apiHash = '''' then (Inl CredentialsMissing, h)
          else
            let path = (if fl_session fl = '''' then defaultSessionPath (lg_dir lg) (fl_phone fl) else fl_session fl)
            in if \<not> lg_mkdir lg then (Inl MkdirFailed, h)
               else
                 let (r, sess) = lg_login lg apiID apiHash path;
                     h1 = (case sess of None \<Rightarrow> h | Some d \<Rightarrow> h\<lparr>h_files := (h_files h)(path \<mapsto> d)\<rparr>)
                 in (case r of
                       Inl e \<Rightarrow> (Inl (LoginFailed e), h1)
                     | Inr selfID \<Rightarrow>
                         (Inr (path, selfID),
                          case cfg of
                            None \<Rightarrow> h1
                          | Some c \<Rightarrow>
                              snd (saveConfigForCLI (lg_json lg) (lg_writable lg) (lg_path lg)
                                (c\<lparr>TelegramAPIID := apiID, TelegramAPIHash := apiHash\<rparr>) h1))))"

text \<open>What the login asks the terminal for: an empty password is an error, an empty code is passed on.\<close>

definition terminal_Password :: "string list \<Rightarrow> string option \<times> string list" where
  "terminal_Password inp =
     (let (pw, inp') = read_line inp in (if pw = '''' then None else Some pw, inp'))"

definition terminal_Code :: "string list \<Rightarrow> string \<times> string list" where
  "terminal_Code inp = read_line inp"

subsection \<open>Lemmas\<close>

fun touched :: "fs_op \<Rightarrow> string set" where
  "touched (OpenTrunc p) = {p}"
| "touched (Append p d) = {p}"
| "touched (RemoveFile p) = {p}"
| "touched (RenameFile p q) = {p, q}"

lemma apply_ops_append: "apply_ops (xs @ ys) f = apply_ops ys (apply_ops xs f)"
  by (simp add: apply_ops_def)

lemma apply_op_untouched: "p \<notin> touched x \<Longrightarrow> apply_op x f p = f p"
  by (cases x) (auto split: option.split)

lemma apply_ops_untouched: "\<forall>x \<in> set ops. p \<notin> touched x \<Longrightarrow> apply_ops ops f p = f p"
  unfolding apply_ops_def by (induction ops arbitrary: f) (simp_all add: apply_op_untouched)

lemma apply_writes: "apply_ops (map (Append p) ds) (f(p \<mapsto> d)) = f(p \<mapsto> d @ concat ds)"
  unfolding apply_ops_def by (induction ds arbitrary: d) simp_all

lemma apply_download: "apply_ops (OpenTrunc p # map (Append p) ds) f = f(p \<mapsto> concat ds)"
  using apply_writes [of p ds f "[]"] by (simp add: apply_ops_def)

text \<open>The operations of a download before the last one touch only the temporary file.\<close>

lemma download_cases:
  assumes "downloadAsset can_open can_rename dest resp = (ops, e)"
  obtains (Fails) "e \<noteq> None" "\<forall>x \<in> set ops. touched x = {dest @ ''.new''}"
  | (Installs) parts where "e = None" "resp = Inr (200, parts, False)"
      "ops = (OpenTrunc (dest @ ''.new'') # map (Append (dest @ ''.new'')) parts) @ [RenameFile (dest @ ''.new'') dest]"
  using assms by (auto simp: downloadAsset_def Let_def split: sum.splits prod.splits if_splits)

lemma download_state:
  assumes "downloadAsset can_open can_rename dest resp = (ops, e)"
  shows "apply_ops (take n ops) f dest = f dest
     \<or> (\<exists>parts. resp = Inr (200, parts, False) \<and> apply_ops (take n ops) f dest = Some (concat parts))"
  using assms
proof (cases rule: download_cases)
  case Fails
  have "\<forall>x \<in> set (take n ops). dest \<notin> touched x" using Fails(2) by (auto dest!: in_set_takeD)
  then show ?thesis using apply_ops_untouched by blast
next
  case (Installs parts)
  let ?tmp = "dest @ ''.new''" and ?wr = "OpenTrunc (dest @ ''.new'') # map (Append (dest @ ''.new'')) parts"
  show ?thesis
  proof (cases "n < length ops")
    case True
    then have "take n ops = take n ?wr" unfolding Installs(3) by (cases n) simp_all
    moreover have "\<forall>x \<in> set (take n ?wr). dest \<notin> touched x" by (auto dest!: in_set_takeD)
    ultimately show ?thesis using apply_ops_untouched by metis
  next
    case False
    then have "apply_ops (take n ops) f = apply_ops [RenameFile ?tmp dest] (f(?tmp \<mapsto> concat parts))"
      unfolding Installs(3) by (simp only: apply_ops_append apply_download take_all not_less)
    then show ?thesis using Installs(2) by (simp add: apply_ops_def)
  qed
qed

lemma download_final:
  assumes "downloadAsset can_open can_rename dest resp = (ops, e)"
  shows "case e of
      Some _ \<Rightarrow> apply_ops ops f dest = f dest
    | None \<Rightarrow> \<exists>parts. resp = Inr (200, parts, False) \<and> apply_ops ops f = f(dest @ ''.new'' := None, dest \<mapsto> concat parts)"
  using assms
proof (cases rule: download_cases)
  case Fails
  then have "\<forall>x \<in> set ops. dest \<notin> touched x" by auto
  then show ?thesis using Fails(1) apply_ops_untouched by auto
next
  case (Installs parts)
  then show ?thesis unfolding Installs(3) apply_ops_append apply_download by (simp add: apply_ops_def)
qed

lemma installReleaseTag_files:
  assumes "find (\<lambda>a. fst a = assetNameForPlatform (ev_arch ev)) (Assets rel) = Some (name, url)" "url \<noteq> ''''"
    and "downloadAsset (ev_open ev) (ev_rename ev) binaryPath (ev_get ev url) = (ops, err)"
  shows "fst (installReleaseTag ev rel h) = err \<and> h_files (snd (installReleaseTag ev rel h)) = apply_ops ops (h_files h)"
  using assms by (simp add: installReleaseTag_def isServiceActive_def exec_def Let_def split: option.split)

subsection \<open>Properties\<close>

text \<open>
  C37. An update is atomic: after any number of the file operations of the download, so also if the
  process is killed in between, the installed binary is the old one or the complete asset that
  was downloaded with status 200. If the update reports success the binary is the asset that the
  release lists for this platform; if it reports an error the old binary is still there.
\<close>

theorem update_atomic:
  assumes "find (\<lambda>a. fst a = assetNameForPlatform (ev_arch ev)) (Assets rel) = Some (name, url)" "url \<noteq> ''''"
    and "downloadAsset (ev_open ev) (ev_rename ev) binaryPath (ev_get ev url) = (ops, err)"
  shows "(apply_ops (take n ops) (h_files h) binaryPath = h_files h binaryPath
      \<or> (\<exists>parts. ev_get ev url = Inr (200, parts, False) \<and> apply_ops (take n ops) (h_files h) binaryPath = Some (concat parts)))
    \<and> (case installReleaseTag ev rel h of
        (Some e, h') \<Rightarrow> h_files h' binaryPath = h_files h binaryPath
      | (None, h') \<Rightarrow> \<exists>parts. ev_get ev url = Inr (200, parts, False) \<and> h_files h' binaryPath = Some (concat parts))"
  using download_state [OF assms(3)] download_final [OF assms(3), of "h_files h"] installReleaseTag_files [OF assms, of h]
  by (auto split: option.splits prod.splits)

theorem update_atomic_witness:
  "let ev = \<lparr>ev_run = (\<lambda>_ _. True), ev_arch = ''arm64'', ev_release = (\<lambda>_. None), ev_releases = (\<lambda>_. None),
             ev_http = (\<lambda>_. Inl (PlainError ''down'')), ev_get = (\<lambda>_. Inr (200, [[1], [2, 3]], False)),
             ev_open = True, ev_rename = True\<rparr>;
       rel = \<lparr>TagName = ''v2'', Assets = [(''vtel-linux-amd64'', ''a''), (''vtel-linux-arm64'', ''b'')]\<rparr>;
       h = \<lparr>h_files = [binaryPath \<mapsto> [9]], h_ran = []\<rparr>
   in case installReleaseTag ev rel h of
        (Some e, h') \<Rightarrow> False
      | (None, h') \<Rightarrow> h_files h' binaryPath = Some [1, 2, 3]"
proof -
  define ev where "ev = \<lparr>ev_run = (\<lambda>_ _. True), ev_arch = ''arm64'', ev_release = (\<lambda>_. None), ev_releases = (\<lambda>_. None),
             ev_http = (\<lambda>_. Inl (PlainError ''down'')), ev_get = (\<lambda>_. Inr (200, [[1], [2, 3]], False)) :: string \<Rightarrow> download,
             ev_open = True, ev_rename = True\<rparr>"
  define rel where "rel = \<lparr>TagName = ''v2'', Assets = [(''vtel-linux-amd64'', ''a''), (''vtel-linux-arm64'', ''b'')]\<rparr>"
  define h where "h = \<lparr>h_files = [binaryPath \<mapsto> [9 :: byte]], h_ran = []\<rparr>"
  obtain ops err where d: "downloadAsset (ev_open ev) (ev_rename ev) binaryPath (ev_get ev ''b'') = (ops, err)" by fastforce
  then have err: "err = None" by (simp add: ev_def downloadAsset_def Let_def)
  have f: "find (\<lambda>a. fst a = assetNameForPlatform (ev_arch ev)) (Assets rel) = Some (''vtel-linux-arm64'', ''b'')"
    by (simp add: rel_def ev_def assetNameForPlatform_def)
  have "fst (installReleaseTag ev rel h) = None" using installReleaseTag_files [OF f _ d] err by simp
  moreover have "case installReleaseTag ev rel h of
        (Some e, h') \<Rightarrow> h_files h' binaryPath = h_files h binaryPath
      | (None, h') \<Rightarrow> \<exists>parts. ev_get ev ''b'' = Inr (200, parts, False) \<and> h_files h' binaryPath = Some (concat parts)"
    using update_atomic [OF f _ d, of 0 h] by simp
  ultimately show ?thesis
    unfolding Let_def ev_def [symmetric] rel_def [symmetric] h_def [symmetric]
    by (auto simp: ev_def split: prod.splits option.splits)
qed

text \<open>
  Nothing is uninstalled without consent: unless \<^verbatim>\<open>--force\<close> is given or the first line typed is
  exactly the confirmation phrase, the command changes nothing and reports the cancellation.
  Otherwise it stops and disables the service and deletes the unit file, the binary and everything
  below the directory of vtel, and no other file.
\<close>

lemma uninstall_confirmed:
  assumes "cmdUninstallWithReader run stuck args inp h = (e, h')"
  shows "if ''--force'' \<in> set args \<or> (\<exists>l ls. inp = l # ls \<and> TrimSpace l = ''DELETE EVERYTHING'')
    then e = None
      \<and> h_ran h' = h_ran h @ [[''systemctl'', ''stop'', serviceName], [''systemctl'', ''disable'', serviceName],
          [''systemctl'', ''daemon-reload'']]
      \<and> (\<forall>p. h_files h' p = (if (p = unitPath \<or> p = binaryPath \<or> under vtelRoot p) \<and> \<not> stuck p then None else h_files h p))
    else e = Some UninstallCancelled \<and> h' = h"
proof -
  have "fst (read_line inp) = ''DELETE EVERYTHING'' \<longleftrightarrow> (\<exists>l ls. inp = l # ls \<and> TrimSpace l = ''DELETE EVERYTHING'')"
    by (cases inp) auto
  then show ?thesis using assms
    by (auto simp: cmdUninstallWithReader_def exec_def remove_file_def RemoveAll_def Let_def split: if_splits)
qed


text \<open>A codec that keeps the two credentials, for a run of the login.\<close>

definition creds_json :: "config \<Rightarrow> bytes" where
  "creds_json c =
     replicate (if 0 \<le> TelegramAPIID c then 2 * nat (TelegramAPIID c) else 2 * nat (- TelegramAPIID c) + 1) 0
     @ 1 # bytes_of_string (TelegramAPIHash c)"

definition creds_unjson :: "config \<Rightarrow> bytes \<Rightarrow> config option" where
  "creds_unjson c d =
     (let n = length (takeWhile (\<lambda>b. b = 0) d)
      in Some (c\<lparr>TelegramAPIID := (if even n then int (n div 2) else - int (n div 2)),
                 TelegramAPIHash := string_of_bytes (drop (n + 1) d)\<rparr>))"

lemma creds_roundtrip:
  "creds_unjson c (creds_json (c\<lparr>TelegramAPIID := i, TelegramAPIHash := s\<rparr>)) = Some (c\<lparr>TelegramAPIID := i, TelegramAPIHash := s\<rparr>)"
  by (simp add: creds_unjson_def creds_json_def Let_def takeWhile_append)


end
