(* ===== verification/Vtel_Menu.thy ===== *)
theory Vtel_Menu
  imports Vtel_Cli
begin

text \<open>
  \<^verbatim>\<open>cmd/vtel/menu.go\<close> and \<^verbatim>\<open>main.go\<close>: the interactive menu, its submenus, what
  they print, and the dispatch of the command line. The terminal is the list of the lines the user will type; reading past its end gives an empty
  line, as the menu ignores the error. The main loop has no other way out than a quit or an
  uninstall, so it is a partial function; the submenu of links ends at an empty line and is total.
\<close>

subsection \<open>The outside\<close>

record menu_env =
  mn_unjson :: "bytes \<Rightarrow> config option"
  mn_json :: "config \<Rightarrow> bytes"
  mn_writable :: "string \<Rightarrow> bool"
  mn_path :: string
  mn_cli :: cli_env
  mn_stuck :: "string \<Rightarrow> bool"
  mn_output :: "string list \<Rightarrow> host \<Rightarrow> string"

definition menu_load :: "menu_env \<Rightarrow> host \<Rightarrow> cli_fail + config" where
  "menu_load io h = loadConfigForCLI (mn_unjson io) (mn_path io) h"

definition menu_save :: "menu_env \<Rightarrow> config \<Rightarrow> host \<Rightarrow> cli_fail option \<times> host" where
  "menu_save io c h = saveConfigForCLI (mn_json io) (mn_writable io) (mn_path io) c h"

subsection \<open>What the commands print\<close>

text \<open>The verbs \<^verbatim>\<open>%v\<close> of a boolean, \<^verbatim>\<open>%02d\<close> and \<^verbatim>\<open>%-ws\<close> of \<^verbatim>\<open>fmt\<close>; widths count bytes, as they do for ASCII text.\<close>

definition fmt_v :: "bool \<Rightarrow> string" where
  "fmt_v b = (if b then ''true'' else ''false'')"

definition fmt_02d :: "int \<Rightarrow> string" where
  "fmt_02d i = (if i < 0 then fmt_d i else fmt_0d 2 (nat i))"

definition padded :: "nat \<Rightarrow> string \<Rightarrow> string" where
  "padded w s = s @ replicate (w - length s) CHR '' ''"

definition quiet_text :: "config \<Rightarrow> string" where
  "quiet_text cfg =
     (case Cfg_QuietHours cfg of
        None \<Rightarrow> ''disabled''
      | Some q \<Rightarrow> fmt_02d (StartHour q) @ '':00-'' @ fmt_02d (EndHour q) @ '':00 ('' @ nonEmpty (Timezone q) ''UTC'' @ '')'')"

definition config_lines :: "string \<Rightarrow> string list \<Rightarrow> config \<Rightarrow> string list" where
  "config_lines path args cfg =
     [''  Config file:       '' @ path,
      ''  Mode:              '' @ nonEmpty (Mode cfg) ''(not set)'',
      ''  Listen:            '' @ nonEmpty (Listen cfg) ''127.0.0.1:1080'',
      ''  Secret:            '' @ (if ''--reveal-secret'' \<in> set args then Secret cfg else ''********''),
      ''  Compression level: '' @ nonEmpty (CompressionLevel cfg) ''fastest'',
      ''  Reject IPv6:       '' @ fmt_v (RejectIPv6 cfg),
      ''  Debug logging:     '' @ fmt_v (Debug cfg),
      ''  Quiet hours:       '' @ quiet_text cfg,
      ''  Links:             '' @ dec_nat (length (Links cfg))]"

definition cmdConfigShow :: "menu_env \<Rightarrow> string list \<Rightarrow> host \<Rightarrow> cli_fail + string list" where
  "cmdConfigShow io args h = bind_res (menu_load io h) (\<lambda>cfg. Inr (config_lines (mn_path io) args cfg))"

definition link_row :: "nat \<Rightarrow> link_config \<Rightarrow> string" where
  "link_row i l =
     (let (k, what, peer) = (if IsAccount l then (''account'', Session l, PeerUserID l) else (''bot'', redactToken (Token l), LC_PeerBotID l))
      in ''  '' @ padded 4 (dec_nat i) @ '' '' @ padded 8 k @ '' '' @ padded 30 what @ '' '' @ padded 16 (fmt_d peer) @ '' '' @ padded 18 (fmt_d (LC_ChannelID l)))"

definition links_lines :: "config \<Rightarrow> string list" where
  "links_lines cfg =
     (if Links cfg = [] then [''  No links configured.'']
      else (''  '' @ padded 4 ''#'' @ '' '' @ padded 8 ''kind'' @ '' '' @ padded 30 ''token (redacted) / session path'' @ '' '' @ padded 16 ''peer_id'' @ '' '' @ padded 18 ''channel_id'')
        # (''  '' @ replicate 80 CHR ''-'') # map (\<lambda>(i, l). link_row i l) (enumerate 0 (Links cfg)))"

definition linksList :: "menu_env \<Rightarrow> host \<Rightarrow> cli_fail + string list" where
  "linksList io h = bind_res (menu_load io h) (\<lambda>cfg. Inr (links_lines cfg))"

definition serviceStateString :: "menu_env \<Rightarrow> string \<Rightarrow> host \<Rightarrow> string \<times> host" where
  "serviceStateString io name h =
     (let cmd = [''systemctl'', ''is-active'', name]; out = mn_output io cmd h; (ok, h') = exec (ev_run (mn_cli io)) cmd h
      in (if \<not> ok \<and> out = '''' then ''not-found'' else TrimSpace out, h'))"

text \<open>The text of the error that follows \<^verbatim>\<open>not readable\<close> is left out.\<close>

definition status_lines :: "string \<Rightarrow> string \<Rightarrow> cli_fail + config \<Rightarrow> string list" where
  "status_lines path state loaded =
     [''  '' @ padded 20 ''SERVICE'' @ '' STATUS'', ''  '' @ replicate 40 CHR ''-'',
      ''  '' @ padded 20 serviceName @ '' '' @ [CHR 0x1B] @ (if state = ''active'' then ''[32m'' else ''[31m'') @ padded 12 state @ [CHR 0x1B] @ ''[0m'',
      ''''] @
     (case loaded of
        Inl _ \<Rightarrow> [''  Config: '' @ path @ '' (not readable)'']
      | Inr cfg \<Rightarrow>
          [''  Config:      '' @ path, ''  Mode:        '' @ nonEmpty (Mode cfg) ''(not set)''] @
          (if Mode cfg = ''client'' then [''  Listen:      '' @ nonEmpty (Listen cfg) ''127.0.0.1:1080''] else []) @
          [''  Links:       '' @ dec_nat (length (Links cfg)), ''  Compression: '' @ nonEmpty (CompressionLevel cfg) ''fastest'',
           ''  Reject IPv6: '' @ fmt_v (RejectIPv6 cfg), ''  Quiet hours: '' @ quiet_text cfg])"

definition cmdStatus :: "menu_env \<Rightarrow> host \<Rightarrow> string list \<times> host" where
  "cmdStatus io h =
     (let (state, h') = serviceStateString io serviceName h in (status_lines (mn_path io) state (menu_load io h'), h'))"

text \<open>The head of the menu; a configuration that cannot be loaded shows placeholders.\<close>

definition menu_header :: "string \<Rightarrow> cli_fail + config \<Rightarrow> string list" where
  "menu_header version loaded =
     (let (mode, n) = (case loaded of Inl _ \<Rightarrow> (''(none)'', 0) | Inr cfg \<Rightarrow> (nonEmpty (Mode cfg) ''(none)'', length (Links cfg)));
          rule = ''  +----------------------------------------+''
      in ['''', rule,
          ''  | '' @ padded 38 (''vtel Manager ('' @ version @ '')'') @ '' |'',
          ''  |  Mode: '' @ padded 9 mode @ '' Links: '' @ padded 13 (dec_nat n) @ '' |'',
          rule,
          ''  |  1) Show status                        |'',
          ''  |  2) Restart service                    |'',
          ''  |  3) View live logs                     |'',
          ''  |  4) Manage links (bots/channels)       |'',
          ''  |  5) Change settings                    |'',
          ''  |  6) Show/export config                 |'',
          ''  |  7) Update binary                      |'',
          ''  |  8) Roll back to a previous version    |'',
          ''  |  9) Uninstall vtel completely          |'',
          ''  |  0) Exit                               |'',
          rule])"

subsection \<open>Submenus\<close>

definition menu_settings :: "menu_env \<Rightarrow> string list \<Rightarrow> host \<Rightarrow> string list \<times> host" where
  "menu_settings io inp h =
     (case menu_load io h of
        Inl _ \<Rightarrow> (snd (read_line inp), h)
      | Inr cfg \<Rightarrow>
          (case settingsMenu inp cfg of
             (None, rest) \<Rightarrow> (rest, h)
           | (Some c, rest) \<Rightarrow> (rest, snd (menu_save io c h))))"

definition menu_add :: "menu_env \<Rightarrow> string list \<Rightarrow> host \<Rightarrow> string list \<times> host" where
  "menu_add io inp h =
     (case menu_load io h of
        Inl _ \<Rightarrow> (inp, h)
      | Inr cfg \<Rightarrow>
          (case linksAddInteractive inp cfg of
             (Inl _, rest) \<Rightarrow> (rest, h)
           | (Inr c, rest) \<Rightarrow> (rest, snd (menu_save io c h))))"

definition menu_remove :: "menu_env \<Rightarrow> string list \<Rightarrow> host \<Rightarrow> string list \<times> host" where
  "menu_remove io inp h =
     (let (v, rest) = read_line inp
      in (rest,
          case ParseInt v of
            None \<Rightarrow> h
          | Some idx \<Rightarrow>
              (case menu_load io h of
                 Inl _ \<Rightarrow> h
               | Inr cfg \<Rightarrow> (case linksRemove idx cfg of Inl _ \<Rightarrow> h | Inr c \<Rightarrow> snd (menu_save io c h)))))"

lemma read_line_length: "length (snd (read_line inp)) = length inp - 1"
  by (cases inp) simp_all

lemma read_line_rest: "read_line inp = (l, rest) \<Longrightarrow> length rest \<le> length inp"
  using read_line_length [of inp] by simp

lemma linksAdd_rest: "linksAddInteractive inp cfg = (r, rest) \<Longrightarrow> length rest \<le> length inp"
  by (auto simp: linksAddInteractive_def linksAddAccountFields_def linksAddBotFields_def Let_def
      split: prod.splits if_splits sum.splits dest!: read_line_rest)

lemma menu_add_rest: "length (fst (menu_add io inp h)) \<le> length inp"
  by (auto simp: menu_add_def split: sum.split prod.split dest: linksAdd_rest)

lemma menu_remove_rest: "length (fst (menu_remove io inp h)) \<le> length inp"
  by (simp add: menu_remove_def split_beta read_line_length)

function linksMenu :: "menu_env \<Rightarrow> string list \<Rightarrow> host \<Rightarrow> string list \<times> host" where
  "linksMenu io inp h =
     (let (ch, inp1) = read_line inp
      in if ch = ''d'' \<or> ch = '''' then (inp1, h)
         else
           let (inp2, h2) =
             (if ch = ''b'' then menu_add io inp1 h
              else if ch = ''c'' then menu_remove io inp1 h
              else (inp1, h))
           in linksMenu io (snd (read_line inp2)) h2)"
  by pat_completeness auto
termination
proof (relation "measure (\<lambda>(io, inp, h). length inp)")
  fix io :: menu_env and inp :: "string list" and h :: host and x ch inp1 y inp2 h2
  assume 1: "x = read_line inp" "(ch, inp1) = x" "\<not> (ch = ''d'' \<or> ch = '''')"
    and 2: "y = (if ch = ''b'' then menu_add io inp1 h else if ch = ''c'' then menu_remove io inp1 h else (inp1, h))"
      "(inp2, h2) = y"
  from 1 have "inp \<noteq> []" by auto
  moreover have "length inp1 = length inp - 1" using 1 read_line_length [of inp] by (metis snd_conv)
  moreover have "length inp2 \<le> length inp1"
    using 2 menu_add_rest [of io inp1 h] menu_remove_rest [of io inp1 h] by (metis fst_conv order_refl)
  ultimately show "((io, snd (read_line inp2), h2), (io, inp, h)) \<in> measure (\<lambda>(io, inp, h). length inp)"
    by (simp add: read_line_length) (metis Suc_pred le_imp_less_Suc length_greater_0_conv less_imp_diff_less order_le_less_trans diff_le_self)
qed simp

declare linksMenu.simps [simp del]

subsection \<open>The main menu\<close>

text \<open>
  One turn of the loop: whether it leaves the menu, the input left and the machine. After most
  commands the user has to press Enter.
\<close>


definition cmdLogs :: "(string list \<Rightarrow> host \<Rightarrow> bool) \<Rightarrow> host \<Rightarrow> host" where
  "cmdLogs run h = snd (exec run [''journalctl'', ''-u'', serviceName, ''-f'', ''-n'', ''100''] h)"

definition menu_turn :: "menu_env \<Rightarrow> string list \<Rightarrow> host \<Rightarrow> bool \<times> string list \<times> host" where
  "menu_turn io inp h =
     (let run = ev_run (mn_cli io); (choice, inp1) = read_line inp; enter = (\<lambda>inp h. (False, snd (read_line inp), h))
      in if choice = ''1'' then enter inp1 (snd (cmdStatus io h))
         else if choice = ''2'' then enter inp1 (snd (cmdRestart run h))
         else if choice = ''3'' then (False, inp1, cmdLogs run h)
         else if choice = ''4'' then (let (inp2, h2) = linksMenu io inp1 h in (False, inp2, h2))
         else if choice = ''5'' then (let (inp2, h2) = menu_settings io inp1 h in enter inp2 h2)
         else if choice = ''6'' then enter inp1 h
         else if choice = ''7'' then enter inp1 (snd (cmdUpdate (mn_cli io) h))
         else if choice = ''8'' then
           (let (v, inp2) = read_line inp1 in enter inp2 (snd (cmdRollback (mn_cli io) [v] h)))
         else if choice = ''9'' then
           (case cmdUninstallWithReader run (mn_stuck io) [] inp1 h of
              (None, h2) \<Rightarrow> (True, snd (read_line inp1), h2)
            | (Some _, h2) \<Rightarrow> enter (snd (read_line inp1)) h2)
         else if choice \<in> {''0'', ''q'', ''quit'', ''exit''} then (True, inp1, h)
         else enter inp1 h)"

partial_function (option) runMenu :: "menu_env \<Rightarrow> string list \<Rightarrow> host \<Rightarrow> (string list \<times> host) option" where
  "runMenu io inp h =
     (case menu_turn io inp h of
        (leave, inp', h') \<Rightarrow> if leave then Some (inp', h') else runMenu io inp' h')"

text \<open>The same with a bound on the number of turns.\<close>

fun menu_turns :: "nat \<Rightarrow> menu_env \<Rightarrow> string list \<Rightarrow> host \<Rightarrow> (string list \<times> host) option" where
  "menu_turns 0 io inp h = None"
| "menu_turns (Suc n) io inp h =
     (case menu_turn io inp h of
        (leave, inp', h') \<Rightarrow> if leave then Some (inp', h') else menu_turns n io inp' h')"

subsection \<open>The command line\<close>

datatype command =
    MenuCmd | StatusCmd | RestartCmd | LogsCmd | InstallCmd | UninstallCmd "string list" | UpdateCmd
  | RollbackCmd "string list" | LinksCmd "string list" | AccountCmd "string list" | ConfigCmd "string list"
  | ExportCmd "string list" | VersionCmd | HelpCmd | TunnelCmd | UnknownCmd string

definition dispatch :: "string list \<Rightarrow> command" where
  "dispatch args =
     (case args of
        [] \<Rightarrow> MenuCmd
      | a # rest \<Rightarrow>
          if a = ''menu'' then MenuCmd
          else if a = ''status'' then StatusCmd
          else if a = ''restart'' then RestartCmd
          else if a = ''logs'' then LogsCmd
          else if a = ''install'' then InstallCmd
          else if a = ''uninstall'' then UninstallCmd rest
          else if a = ''update'' then UpdateCmd
          else if a = ''rollback'' then RollbackCmd rest
          else if a = ''links'' then LinksCmd rest
          else if a = ''account'' then AccountCmd rest
          else if a = ''config'' then ConfigCmd rest
          else if a = ''export'' then ExportCmd rest
          else if a = ''version'' \<or> a = ''--version'' \<or> a = ''-v'' then VersionCmd
          else if a = ''help'' \<or> a = ''--help'' \<or> a = ''-h'' then HelpCmd
          else if HasPrefix a ''-'' then TunnelCmd
          else UnknownCmd a)"

definition cmdExport :: "menu_env \<Rightarrow> string list \<Rightarrow> host \<Rightarrow> cli_fail option \<times> host" where
  "cmdExport io args h =
     (case menu_load io h of
        Inl e \<Rightarrow> (Some e, h)
      | Inr cfg \<Rightarrow>
          (case args of
             [] \<Rightarrow> (None, h)
           | p # _ \<Rightarrow>
               if p = '''' then (None, h)
               else if \<not> mn_writable io p then (Some (WriteFailed p), h)
               else (None, h\<lparr>h_files := (h_files h)(p \<mapsto> mn_json io cfg)\<rparr>)))"

datatype account_command = AccountUsage | AccountLogin "string list" | AccountUnknown string

definition cmdAccount :: "string list \<Rightarrow> account_command" where
  "cmdAccount args =
     (case args of
        [] \<Rightarrow> AccountUsage
      | a # rest \<Rightarrow> if a = ''login'' then AccountLogin rest else AccountUnknown a)"

text \<open>
  \<^verbatim>\<open>vtel -config\<close>: \<^verbatim>\<open>ParseConfig\<close> with the values of its two flags, and what \<^verbatim>\<open>runTunnel\<close> starts. Every
  failure ends the process.
\<close>

datatype config_exit = ConfigRequired | ConfigUnreadable string | ConfigNotJSON string | ConfigInvalid config_error

definition ParseConfigFile ::
  "(bytes \<Rightarrow> config option) \<Rightarrow> string \<Rightarrow> bool \<Rightarrow> host \<Rightarrow> bool \<Rightarrow> (config_exit + config) \<times> bool" where
  "ParseConfigFile unjson path debugFlag h dbg =
     (if path = '''' then (Inl ConfigRequired, dbg)
      else case h_files h path of
        None \<Rightarrow> (Inl (ConfigUnreadable path), dbg)
      | Some data \<Rightarrow>
          (case unjson data of
             None \<Rightarrow> (Inl (ConfigNotJSON path), dbg)
           | Some c \<Rightarrow>
               (case ParseConfig debugFlag c dbg of
                  (Inl e, dbg') \<Rightarrow> (Inl (ConfigInvalid e), dbg')
                | (Inr c', dbg') \<Rightarrow> (Inr c', dbg'))))"

datatype tunnel_start =
  ExitConfig config_exit | ExitBuild build_error | StartClient "link_spec list" string bool | StartServer "link_spec list" | ReturnsAtOnce

definition runTunnel ::
  "(bytes \<Rightarrow> config option) \<Rightarrow> json_decoder \<Rightarrow> 's http_client \<Rightarrow> (link_config \<Rightarrow> auth_result) \<Rightarrow> string \<Rightarrow> bool \<Rightarrow> host \<Rightarrow> 's
    \<Rightarrow> tunnel_start" where
  "runTunnel unjson json http auth path debugFlag h s =
     (case fst (ParseConfigFile unjson path debugFlag h False) of
        Inl e \<Rightarrow> ExitConfig e
      | Inr cfg \<Rightarrow>
          (case fst (BuildLinkSpecs json http auth cfg s) of
             Inl e \<Rightarrow> ExitBuild e
           | Inr specs \<Rightarrow>
               if Mode cfg = ''client'' then StartClient specs (Listen cfg) (RejectIPv6 cfg)
               else if Mode cfg = ''server'' then StartServer specs
               else ReturnsAtOnce))"

subsection \<open>Properties\<close>

lemma linksMenu_rest: "length (fst (linksMenu io inp h)) \<le> length inp - 1"
proof (induction io inp h rule: linksMenu.induct)
  case (1 io inp h)
  obtain ch inp1 where r: "read_line inp = (ch, inp1)" by fastforce
  have l1: "length inp1 = length inp - 1" using read_line_length [of inp] r by simp
  show ?case
  proof (cases "ch = ''d'' \<or> ch = ''''")
    case True
    then show ?thesis using r l1 by (subst linksMenu.simps) auto
  next
    case False
    obtain inp2 h2 where s: "(if ch = ''b'' then menu_add io inp1 h else if ch = ''c'' then menu_remove io inp1 h else (inp1, h)) = (inp2, h2)"
      by fastforce
    have "length inp2 \<le> length inp1"
      using s menu_add_rest [of io inp1 h] menu_remove_rest [of io inp1 h] by (metis fst_conv order_refl)
    then have "length (fst (linksMenu io (snd (read_line inp2)) h2)) \<le> length inp1"
      using "1.IH" [OF r [symmetric] refl False s [symmetric] refl] by (simp add: read_line_length)
    moreover have "linksMenu io inp h = linksMenu io (snd (read_line inp2)) h2"
      using False s by (subst linksMenu.simps) (simp add: r)
    ultimately show ?thesis using l1 by simp
  qed
qed

lemma quiet_menu_rest: "quiet_hours_menu inp cfg = (r, rest) \<Longrightarrow> length rest \<le> length inp"
  by (auto simp: quiet_hours_menu_def Let_def split: prod.splits if_splits option.splits dest!: read_line_rest)

lemma settings_rest: "settingsMenu inp cfg = (r, rest) \<Longrightarrow> length rest \<le> length inp"
  by (auto simp: settingsMenu_def Let_def split: prod.splits if_splits option.splits sum.splits
      dest!: read_line_rest quiet_menu_rest)

lemma menu_settings_rest: "length (fst (menu_settings io inp h)) \<le> length inp"
  by (auto simp: menu_settings_def read_line_length split: sum.split prod.split option.split dest: settings_rest)

text \<open>Every turn uses up at least the line of its choice.\<close>

lemma menu_turn_rest: "length (fst (snd (menu_turn io inp h))) \<le> length inp - 1"
proof -
  obtain choice inp1 where r: "read_line inp = (choice, inp1)" by fastforce
  have l: "length inp1 = length inp - 1" using read_line_length [of inp] r by simp
  have "length (fst (linksMenu io inp1 h)) \<le> length inp1" using linksMenu_rest [of io inp1 h] by simp
  moreover have "length (fst (menu_settings io inp1 h)) - Suc 0 \<le> length inp1"
    using menu_settings_rest [of io inp1 h] by linarith
  ultimately show ?thesis
    unfolding menu_turn_def r l [symmetric] Let_def prod.case
    by (simp add: read_line_length split_beta split: prod.split option.split)
qed

lemma menu_turn_eof: "menu_turn io [] h = (False, [], h)"
  by (simp add: menu_turn_def)

lemma runMenu_eof: "runMenu io [] h = None"
proof -
  have "inp \<noteq> []" if "runMenu io inp h = Some y" for io inp h y
  proof (rule runMenu.raw_induct [where P = "\<lambda>io inp h y. inp \<noteq> []", OF _ that])
    fix loop :: "menu_env \<Rightarrow> string list \<Rightarrow> host \<Rightarrow> (string list \<times> host) option" and io inp h y
    assume ih: "\<And>io inp h y. loop io inp h = Some y \<Longrightarrow> inp \<noteq> []"
      and turn: "(case menu_turn io inp h of (leave, inp', h') \<Rightarrow> if leave then Some (inp', h') else loop io inp' h') = Some y"
    show "inp \<noteq> []"
    proof
      assume "inp = []"
      then have "loop io [] h = Some y" using turn by (simp add: menu_turn_eof)
      then show False using ih by blast
    qed
  qed
  then show ?thesis by (metis not_Some_eq)
qed

lemma runMenu_turns: "length inp \<le> n \<Longrightarrow> runMenu io inp h = menu_turns n io inp h"
proof (induction n arbitrary: inp h)
  case 0
  then show ?case by (simp add: runMenu_eof)
next
  case (Suc n)
  obtain leave inp' h' where t: "menu_turn io inp h = (leave, inp', h')" by (metis prod.exhaust)
  then have "length inp' \<le> n" using menu_turn_rest [of io inp h] Suc.prems by simp
  then show ?case using Suc.IH [of inp' h'] t by (subst runMenu.simps) simp
qed

text \<open>
  When the interactive menu returns: it returns exactly if the user leaves it within as many turns
  as there are input lines. Once the input is used up (standard input closed or at its end) it never
  returns: reading yields empty lines without an error, an empty line is an invalid choice, and the
  loop goes round without a pause.
\<close>

lemma menu_returns_exact:
  "runMenu io inp h = menu_turns (length inp) io inp h \<and> runMenu io [] h = None"
  using runMenu_turns [OF order_refl] runMenu_eof by blast

lemma menu_quit: "TrimSpace q \<in> {''0'', ''q'', ''quit'', ''exit''} \<Longrightarrow> runMenu io (q # inp) h = Some (inp, h)"
  by (subst runMenu.simps) (auto simp: menu_turn_def)

text \<open>
  A configuration file that is read and valid always starts the mode it names: \<^verbatim>\<open>runTunnel\<close> exits with
  what is wrong with the file, with the first link that Telegram refuses, or runs; it never falls through.
\<close>

lemma ParseConfigFile_Inr:
  "fst (ParseConfigFile unjson path dbg h d) = Inr cfg \<longleftrightarrow>
     path \<noteq> '''' \<and> (\<exists>data c. h_files h path = Some data \<and> unjson data = Some c \<and> valid_config c \<and> cfg = default_listen c)"
proof -
  have "(case Validate c of Inl e \<Rightarrow> Inl (ConfigInvalid e) | Inr c' \<Rightarrow> Inr c') = (Inr cfg :: config_exit + config)
      \<longleftrightarrow> valid_config c \<and> cfg = default_listen c" for c
    using Validate_Inr [of c] by (auto split: sum.splits)
  moreover have "fst (ParseConfigFile unjson path dbg h d) =
      (if path = '''' then Inl ConfigRequired
       else case h_files h path of None \<Rightarrow> Inl (ConfigUnreadable path)
       | Some data \<Rightarrow> (case unjson data of None \<Rightarrow> Inl (ConfigNotJSON path)
         | Some c \<Rightarrow> (case Validate c of Inl e \<Rightarrow> Inl (ConfigInvalid e) | Inr c' \<Rightarrow> Inr c')))"
    by (simp add: ParseConfigFile_def ParseConfig_def split: option.split sum.split)
  ultimately show ?thesis by (auto split: option.splits)
qed

lemma tunnel_starts:
  "case runTunnel unjson json http auth path dbg h s of
     ExitConfig e \<Rightarrow> fst (ParseConfigFile unjson path dbg h False) = Inl e
   | ExitBuild e \<Rightarrow> \<exists>cfg. fst (ParseConfigFile unjson path dbg h False) = Inr cfg
   | StartClient specs addr rej \<Rightarrow>
       \<exists>cfg. fst (ParseConfigFile unjson path dbg h False) = Inr cfg \<and> Mode cfg = ''client'' \<and> addr = Listen cfg \<and> rej = RejectIPv6 cfg
   | StartServer specs \<Rightarrow> \<exists>cfg. fst (ParseConfigFile unjson path dbg h False) = Inr cfg \<and> Mode cfg = ''server''
   | ReturnsAtOnce \<Rightarrow> False"
proof (cases "fst (ParseConfigFile unjson path dbg h False)")
  case (Inl e)
  then show ?thesis by (simp add: runTunnel_def)
next
  case (Inr cfg)
  then have "Mode cfg \<in> {''client'', ''server''}" by (auto simp: ParseConfigFile_Inr valid_config_def default_listen_def)
  then show ?thesis using Inr by (auto simp: runTunnel_def split: sum.split)
qed

text \<open>
  What is printed without \<^verbatim>\<open>--reveal-secret\<close> says nothing of the secret, of the API hash, or of a bot
  token beyond its redacted form: configurations that differ only in these print the same.
\<close>

definition redacted :: "config \<Rightarrow> config" where
  "redacted c = c\<lparr>Secret := '''', TelegramAPIHash := '''', Links := map (\<lambda>l. l\<lparr>Token := redactToken (Token l)\<rparr>) (Links c)\<rparr>"

lemma link_rows_redacted:
  assumes "map (\<lambda>l. l\<lparr>Token := redactToken (Token l)\<rparr>) ls = map (\<lambda>l. l\<lparr>Token := redactToken (Token l)\<rparr>) ms"
  shows "map (\<lambda>(i, l). link_row i l) (enumerate n ls) = map (\<lambda>(i, l). link_row i l) (enumerate n ms)"
  using assms
proof (induction ls arbitrary: ms n)
  case (Cons l ls)
  then obtain m ms' where ms: "ms = m # ms'" by (cases ms) auto
  have "l\<lparr>Token := redactToken (Token l)\<rparr> = m\<lparr>Token := redactToken (Token m)\<rparr>" using Cons.prems ms by simp
  then have "link_row n l = link_row n m" by (cases l, cases m) (simp add: link_row_def IsAccount_def)
  then show ?case using Cons.IH [of ms' "Suc n"] Cons.prems ms by simp
qed simp

lemma output_redacted:
  assumes eq: "redacted c = redacted d" and args: "''--reveal-secret'' \<notin> set args"
  shows "config_lines path args c = config_lines path args d" "links_lines c = links_lines d"
    "status_lines path state (Inr c) = status_lines path state (Inr d)"
proof -
  note fields = arg_cong [OF eq, of Mode] arg_cong [OF eq, of Listen] arg_cong [OF eq, of CompressionLevel]
    arg_cong [OF eq, of RejectIPv6] arg_cong [OF eq, of Debug] arg_cong [OF eq, of Cfg_QuietHours]
  have links: "map (\<lambda>l. l\<lparr>Token := redactToken (Token l)\<rparr>) (Links c) = map (\<lambda>l. l\<lparr>Token := redactToken (Token l)\<rparr>) (Links d)"
    using arg_cong [OF eq, of Links] by (simp add: redacted_def)
  then have len: "length (Links c) = length (Links d)" by (rule map_eq_imp_length_eq)
  show "config_lines path args c = config_lines path args d" "status_lines path state (Inr c) = status_lines path state (Inr d)"
    using fields len args by (simp_all add: redacted_def config_lines_def status_lines_def quiet_text_def)
  have "Links c = [] \<longleftrightarrow> Links d = []" using len by auto
  then show "links_lines c = links_lines d" using link_rows_redacted [OF links] by (simp add: links_lines_def)
qed

text \<open>
  The frame of the menu, as long as no text overflows its column: the line with mode and links is one
  column shorter than the others, so its right border is out of line.
\<close>

lemma menu_header_framed:
  assumes "length version \<le> 22" "case loaded of Inl _ \<Rightarrow> True | Inr cfg \<Rightarrow> length (Mode cfg) \<le> 9 \<and> length (Links cfg) < 10 ^ 13"
  shows "map length (menu_header version loaded) = [0, 44, 44, 43, 44] @ replicate 11 44"
proof -
  have pad: "length (padded w s) = w" if "length s \<le> w" for w s using that by (simp add: padded_def)
  have n: "length (dec_nat k) \<le> 13" if "k < 10 ^ 13" for k using length_dec_nat_le [of k 13] that by simp
  obtain mode k where mk: "(case loaded of Inl _ \<Rightarrow> (''(none)'', 0) | Inr cfg \<Rightarrow> (nonEmpty (Mode cfg) ''(none)'', length (Links cfg))) = (mode, k)"
    by fastforce
  then have "length mode \<le> 9" "length (dec_nat k) \<le> 13"
    using assms(2) n by (auto simp: nonEmpty_def split: sum.splits if_splits)
  then show ?thesis using assms(1) by (simp add: menu_header_def mk pad Let_def) (simp add: eval_nat_numeral)
qed

end
