(* ===== verification/Spec2Isabelle.thy ===== *)
theory Spec2Isabelle
  imports Relay_Stream Flush_Loop Tunnel_Progress Account_Api Smoke_Test Desktop_Ui Vtel_Menu "HOL-Library.Multiset"
begin

text \<open>
  vtel carries SOCKS5 connections through a Telegram channel. A client process accepts SOCKS5
  requests, turns every connection into numbered frames, packs frames into batches, compresses and
  seals a batch and posts it to a channel as a text message or a document; the server process polls
  the channel, opens the batches, sorts them and plays the frames to the target host; the other
  direction works the same way. A link is one pair of bots or accounts on one channel, and a client
  spreads its streams over a pool of links.

  \<^bold>\<open>The parts and their theories\<close>, from the bottom:

  \<^item> \<^verbatim>\<open>Vtel_Prelude\<close>: bytes, times, results (\<^verbatim>\<open>'e + 'a\<close>), big-endian integers, \<^verbatim>\<open>io.ReadFull\<close>, 64-bit
    arithmetic and the shape of Go errors. \<^verbatim>\<open>Go_Fmt\<close>, \<^verbatim>\<open>Go_Net\<close>, \<^verbatim>\<open>Go_Float\<close>, \<^verbatim>\<open>Go_Base64\<close> and \<^verbatim>\<open>Go_Crypto\<close> are
    what the program uses of Go's library: \<^verbatim>\<open>fmt\<close> and \<^verbatim>\<open>strings\<close>, address parsing, float64 rounding,
    base64, SHA-256 and AES-GCM. \<^verbatim>\<open>Go_Crypto\<close> states what the envelope needs of a cipher as the locale
    \<open>aead\<close> and interprets it on its GCM layout as \<open>gcm\<close>.
  \<^item> \<^verbatim>\<open>Frame\<close> (\<^verbatim>\<open>protocol/frame.go\<close>): the wire format. The locale \<open>stream_codec\<close> derives the round trip of
    a whole stream from the one of a single item; \<open>frames\<close> interprets it on the frame format.
    \<^verbatim>\<open>Envelope\<close> (\<^verbatim>\<open>protocol/envelope.go\<close>): key derivation, sealing and opening. \<^verbatim>\<open>Schedule\<close>
    (\<^verbatim>\<open>protocol/schedule.go\<close>): jitter and quiet hours.
  \<^item> \<^verbatim>\<open>Batch\<close> (\<^verbatim>\<open>protocol/batch.go\<close>): the batcher's record and its operations: admission, \<^verbatim>\<open>Add\<close>, \<^verbatim>\<open>Flush\<close>,
    \<^verbatim>\<open>flushRaw\<close> with its splitting, send slots, retries, \<^verbatim>\<open>DecompressBatch\<close>. \<^verbatim>\<open>Flush_Loop\<close>: the goroutines
    around it (producers, the loop with its timers, sends, \<^verbatim>\<open>Stop\<close>) as the step relation \<open>flush_step\<close>.
  \<^item> \<^verbatim>\<open>Mux\<close> (\<^verbatim>\<open>tunnel/mux.go\<close>): connections, numbering, reassembly, garbage collection. \<^verbatim>\<open>Relay_Stream\<close>: one
    connection with its relay goroutines as the step relation \<open>ep_step\<close>.
  \<^item> \<^verbatim>\<open>Telegram_Api\<close>, \<^verbatim>\<open>Rate_Limiter\<close>, \<^verbatim>\<open>Sender\<close>, \<^verbatim>\<open>Poller\<close> (\<^verbatim>\<open>telegram/\<close>): Bot API calls over an HTTP
    client, the token bucket, the sending and the polling loop. \<^verbatim>\<open>Update_Source\<close> is the interface a
    poller relies on (locale \<open>update_source\<close>: what was posted and not yet confirmed stays visible),
    \<open>file_store\<close> in \<^verbatim>\<open>Poller\<close> the one of downloads. \<^verbatim>\<open>Account_Api\<close> (\<^verbatim>\<open>telegram/account.go\<close>) and
    \<^verbatim>\<open>Fake_Telegram\<close> (\<^verbatim>\<open>faketelegram/\<close>) interpret them as \<open>account\<close>, \<open>docs\<close> and \<open>fakeapi\<close>.
    \<^verbatim>\<open>Channel_Transfer\<close> runs sender, Bot API, fake server and poller against each other.
  \<^item> \<^verbatim>\<open>Pool\<close> (\<^verbatim>\<open>pool/pool.go\<close>), \<^verbatim>\<open>Socks5\<close> (\<^verbatim>\<open>socks5/\<close>), \<^verbatim>\<open>Dns_Cache\<close> (\<^verbatim>\<open>tunnel/dnscache.go\<close>): choice and health of
    links, the handshake, cached resolution.
  \<^item> \<^verbatim>\<open>Link_Runtime\<close> (\<^verbatim>\<open>tunnel/linkspec.go\<close> and the receive loops), \<^verbatim>\<open>Client\<close>, \<^verbatim>\<open>Server\<close> (\<^verbatim>\<open>tunnel/client.go\<close>,
    \<^verbatim>\<open>tunnel/server.go\<close>). In \<^verbatim>\<open>Client\<close> the locale \<open>link_attempts\<close> states what the loop of \<^verbatim>\<open>handleSOCKS\<close> needs
    of one attempt (interpretation \<open>socks\<close>), and \<open>client_step\<close> interleaves many attempts.
    \<^verbatim>\<open>Tunnel_Session\<close>: client and server together. Its locales \<open>frame_queue\<close> and \<open>budget_queue\<close> are the
    contract of \<^verbatim>\<open>Batcher.Add\<close>, interpreted as \<open>admitted\<close>. \<^verbatim>\<open>Tunnel_System\<close>: both ends of a link and a
    channel that may delay, lose, repeat and reorder what is posted, as the step relation \<open>sys_step\<close>,
    with the specification \<open>stream_run\<close> that it refines; \<^verbatim>\<open>Tunnel_Progress\<close>: from every state of a run
    that lost nothing on the way to the channel, what was written can still be delivered.
  \<^item> \<^verbatim>\<open>Vtel_Config\<close> (\<^verbatim>\<open>vtelconfig/\<close>, \<^verbatim>\<open>vtellog/\<close>, the links and settings commands), \<^verbatim>\<open>Vtel_Cli\<close> (update, service
    and account commands of \<^verbatim>\<open>cmd/vtel\<close>), \<^verbatim>\<open>Vtel_Menu\<close> (its interactive menu, what it prints, the dispatch of
    its command line and the start of the tunnel), \<^verbatim>\<open>Desktop\<close> and \<^verbatim>\<open>Desktop_Ui\<close> (state and edits of
    \<^verbatim>\<open>cmd/vtel-desktop\<close>), \<^verbatim>\<open>Bench\<close> (\<^verbatim>\<open>cmd/vtel-bench\<close>: its SOCKS client, sweeps and reports).
  \<^item> \<^verbatim>\<open>Fake_Channel\<close>: two links of the tunnel on the channel of the in-memory server; \<open>linked\<close> is what the
    two ends satisfy between frames, \<open>frame_carried\<close> the way of one frame. \<^verbatim>\<open>Smoke_Test\<close>: \<^verbatim>\<open>cmd/smoketest\<close>
    and the harness of \<^verbatim>\<open>cmd/vtel-bench\<close>, which put all of the above together.

  \<^bold>\<open>How code becomes definitions.\<close> A struct is a record, a method a function that returns the updated
  record, an error a value. What runs under one lock is one step; goroutines that interleave are step
  relations with reachable states and invariants. Counters keep their width (\<^verbatim>\<open>32 word\<close> for sequence
  numbers and connection identifiers, \<^verbatim>\<open>64 word\<close> for batch numbers); Go maps are functions to options,
  or association lists where their size matters. Randomness, clock readings, scheduling choices and
  the answers of the network are arguments, so every statement holds for all of them. The zstd codec,
  JSON, the HTTP client, the system resolver, the time-zone database and the MTProto library are
  parameters with the laws the code relies on as hypotheses.

  \<^bold>\<open>What is shown.\<close> End to end: bytes written to a stream come out in order on the other side through
  batching, sealing, posting, polling and reassembly (here and in \<^verbatim>\<open>Channel_Transfer\<close>, \<^verbatim>\<open>Batch\<close>, \<^verbatim>\<open>Mux\<close>),
  whatever the channel does, what comes out is a prefix of what went in (\<^verbatim>\<open>Tunnel_System\<close>) and can
  still become all of it (\<^verbatim>\<open>Tunnel_Progress\<close>); the smoke test passes exactly if its target can be dialled
  and the links of the harness do not hear each other (\<^verbatim>\<open>Smoke_Test\<close>);
  a SOCKS request is dialled as asked and its outcome comes back, and a side that stops closes its
  peer's streams (\<^verbatim>\<open>Tunnel_Session\<close>). Invariants: no stranded batch, order of flushes, memory bound
  (\<^verbatim>\<open>Flush_Loop\<close>), no leaked slot or stream (\<^verbatim>\<open>Client\<close>), intact open streams (\<^verbatim>\<open>Relay_Stream\<close>), fresh
  cache entries. Exactness: formats, envelope, handshake, reject rules, validation. Bounds: send rate,
  send slots. The commands: an update replaces the binary whole or not at all (\<^verbatim>\<open>Vtel_Cli\<close>), what is
  printed does not reveal secrets and when the menu returns (\<^verbatim>\<open>Vtel_Menu\<close>), which edits keep a valid
  configuration valid (\<^verbatim>\<open>Desktop_Ui\<close>). Errors and faults the model exposes are theorems too, such as \<open>split_half_decodable\<close>,
  \<open>closed_stream_hole\<close>, \<open>repeated_connect_stalls\<close>, \<open>peer_error_sticky\<close> and \<open>reconnect_fails\<close>.

  \<^bold>\<open>Bounds and loops.\<close> Structural and measured recursion wherever the code's loop ends. \<^verbatim>\<open>flushRaw\<close>,
  the sender's retry loop and the menu may run forever, so they are partial functions into options;
  \<open>split_total\<close>, \<open>send_retry_exact\<close> and \<open>menu_returns_exact\<close> say when they return, the last one with the
  number of input lines as fuel, since every turn reads one. Loops over outside events (polls of an admission, waits of
  \<^verbatim>\<open>GetUpdates\<close>, drawn identifiers) run over the list of those events, with \<open>None\<close> for a loop that is
  still waiting at its end. Streams are below \<^verbatim>\<open>2 ^ 32\<close> frames and payloads below \<^verbatim>\<open>2 ^ 24\<close> bytes, the
  widths of the wire format.

  \<^bold>\<open>Not modelled.\<close> The accept loop of the SOCKS server, whose connections are modelled one by one; log
  output, the usage texts and the signal handlers of the commands; the clock readings and the printed
  tables of \<^verbatim>\<open>cmd/vtel-bench\<close>; of the smoke test other schedules than the one in which each side polls
  after the other has posted, which \<^verbatim>\<open>Tunnel_System\<close> covers for the tunnel itself; the widgets of the desktop window and their layout; the Android client
  (Kotlin) and the vendored C library. Compression is a parameter, since zstd is not part of the
  repository.
\<close>

section \<open>From the sending application to the receiving one\<close>

text \<open>Data frames that arrive in order are handed on one by one.\<close>

lemma recv_run_inorder:
  assumes "recvPending c = []" "unat (recvExpected c) = n" "n + length ds < 2 ^ 32"
  shows "snd (recv_run c (map (\<lambda>(k, d). (of_nat k, d)) (List.enumerate n ds))) = ds"
  using assms
proof (induction ds arbitrary: c n)
  case (Cons d ds)
  have "of_nat (unat (recvExpected c)) = recvExpected c" by simp
  then have e: "of_nat n = recvExpected c" by (simp only: Cons.prems(2))
  let ?c = "c\<lparr>recvExpected := recvExpected c + 1\<rparr>"
  have d: "deliverOrdered c (of_nat n) d = (?c, [d])"
    using Cons.prems(1) by (simp add: deliverOrdered_def e drain.simps)
  have "unat (recvExpected ?c) = Suc n"
    using Cons.prems(2,3) by (simp add: unat_word_ariths)
  then have "snd (recv_run ?c (map (\<lambda>(k, d). (of_nat k, d)) (List.enumerate (Suc n) ds))) = ds"
    using Cons.prems by (intro Cons.IH) simp_all
  then show ?case by (simp add: d case_prod_unfold)
qed simp

text \<open>The multiplexer marks the connection as used, which no delivery depends on.\<close>

lemma deliver_MarkUsed:
  "deliverOrdered (MarkUsed t c) q d = (case deliverOrdered c q d of (c', ds) \<Rightarrow> (MarkUsed t c', ds))"
  by (auto simp: deliverOrdered_def MarkUsed_def split: prod.split)

lemma recv_run_MarkUsed: "snd (recv_run (MarkUsed t c) fs) = snd (recv_run c fs)"
proof (induction fs arbitrary: c)
  case (Cons f fs)
  then show ?case by (cases f) (simp add: deliver_MarkUsed split_beta)
qed simp

definition pushed :: "conn_id \<Rightarrow> mux_action list \<Rightarrow> bytes list" where
  "pushed i as = concat (map (\<lambda>a. case a of Push j ds \<Rightarrow> if j = i then ds else [] | _ \<Rightarrow> []) as)"

lemma pushed_simps [simp]:
  "pushed i [] = []" "pushed i (Push i ds # as) = ds @ pushed i as"
  by (simp_all add: pushed_def)

lemma handle_data_frames:
  assumes "GetConn m i = Some c" "\<forall>f \<in> set fs. FType f = TypeData \<and> ConnID f = i"
  shows "pushed i (snd (handle_frames now fs m)) = snd (recv_run c (map (\<lambda>f. (SeqNum f, Payload f)) fs))"
  using assms
proof (induction fs arbitrary: m c)
  case Nil
  then show ?case by simp
next
  case (Cons f fs)
  obtain c1 ds where d: "deliverOrdered c (SeqNum f) (Payload f) = (c1, ds)" by fastforce
  have h: "HandleFrame now m f = (put_conn i (MarkUsed now c1) m, Push i ds)"
    using Cons.prems d by (simp add: HandleFrame_def frame_type_defs deliver_MarkUsed)
  let ?m = "put_conn i (MarkUsed now c1) m" and ?fs = "map (\<lambda>f. (SeqNum f, Payload f)) fs"
  have "GetConn ?m i = Some (MarkUsed now c1)" by (simp add: GetConn_def put_conn_def update_conv')
  then have "pushed i (snd (handle_frames now fs ?m)) = snd (recv_run (MarkUsed now c1) ?fs)"
    by (rule Cons.IH) (use Cons.prems(2) in simp)
  then have ih: "pushed i (snd (handle_frames now fs ?m)) = snd (recv_run c1 ?fs)"
    by (simp only: recv_run_MarkUsed)
  have "pushed i (snd (handle_frames now (f # fs) m)) = ds @ pushed i (snd (handle_frames now fs ?m))"
    by (simp add: h split_beta)
  moreover have "snd (recv_run c (map (\<lambda>f. (SeqNum f, Payload f)) (f # fs))) = ds @ snd (recv_run c1 ?fs)"
    by (simp add: d split_beta)
  ultimately show ?case by (simp only: ih)
qed

text \<open>
  C1. From end to end: the client writes the chunks \<open>ds\<close> to a fresh stream; its frames are spread,
  in order, over batches with increasing sequence numbers; each batch is compressed, sealed and
  posted as text or as a document; the posts reach the server's poller in any order, among posts
  of others. Then the round hands the server's multiplexer exactly the chunks \<open>ds\<close>, in order, for
  that connection. Assumed are that zstd decompression inverts compression, that the server
  shares the key, that the batches stay under the size limits, and that downloads work.
\<close>

theorem tunnel_end_to_end:
  assumes zstd: "\<forall>x. dec (enc x) = Some x"
    and key: "length (rt_key lr) = keyLen" "\<forall>q n. rnd q = Some n \<longrightarrow> length n = nonceLen"
    and sent: "GetConn m i = Some c" "sendSeq c = 0" "length ds < 2 ^ 32" "\<forall>d \<in> set ds. length d < 2 ^ 24"
      "concat (map snd bs) = snd (send_all m i ds)"
    and seqs: "sorted (map fst bs)" "distinct (map fst bs)" "\<forall>q \<in> fst ` set bs. unat q < 10 ^ 12"
    and sealed: "\<forall>(q, fs) \<in> set bs. length (enc (concat (map Frame_Marshal fs))) \<le> MaxCompressedSize
      \<and> flushRaw enc rnd (rt_key lr) q (concat (map Frame_Marshal fs)) q = Some ([(q, Inr (sealed q))], q)"
    and posts: "file_store download stored" "getUpdates (offset p) 30 s = (Inr us, s')"
      "\<forall>u \<in> set us. case batch_of u of
          Some b \<Rightarrow> (\<exists>cp. ChannelPost u = Some cp \<and> carries (stored s') p b cp)
        | None \<Rightarrow> (\<forall>cp. ChannelPost u = Some cp \<longrightarrow> foreign p cp)"
      "distinct (document_ids us)"
      "mset (List.map_filter batch_of us) = mset (map (\<lambda>(q, fs). (q, sealed q)) bs)"
    and fresh: "GetConn (rt_mux lr) i = Some (newConn t0 i)"
  shows "\<exists>datas p' s''. poll_round getUpdates download p s = (datas, 0, p', s'')
    \<and> pushed i (snd (recvLoop dec now datas lr)) = ds"
proof -
  let ?sb = "map (\<lambda>(q, fs). (q, sealed q)) bs" and ?xs = "List.map_filter batch_of us"
  have fstsb: "map fst ?sb = map fst bs" by (simp add: split_beta comp_def)
  have setxs: "set ?xs = set ?sb" using arg_cong [OF posts(5), of set_mset] by (simp only: set_mset_mset)
  have sb: "snd b = sealed (fst b) \<and> fst b \<in> fst ` set bs" if "b \<in> set ?sb" for b
    using that by force
  have small: "\<forall>b \<in> set ?xs. unat (fst b) < 10 ^ 12"
    unfolding setxs using sb seqs(3) by blast
  have one: "\<forall>b \<in> set ?xs. \<forall>b' \<in> set ?xs. fst b = fst b' \<longrightarrow> snd b = snd b'"
  proof (intro ballI impI)
    fix b b' assume "b \<in> set ?xs" "b' \<in> set ?xs" "fst b = fst b'"
    then show "snd b = snd b'" using sb [of b] sb [of b'] by (simp only: setxs)
  qed
  have srt: "sort_key fst ?xs = ?sb"
  proof (rule sort_key_inj_key_eq)
    show "mset ?xs = mset ?sb" by (rule posts(5))
    show "inj_on fst (set ?xs)" using one by (intro inj_onI prod_eqI) blast+
    show "sorted (map fst ?sb)" unfolding fstsb by (rule seqs(1))
  qed
  obtain p' s'' where poll: "poll_round getUpdates download p s = (map snd ?sb, 0, p', s'')"
    using file_store.poll_round_batches [OF posts(1), where us = us and batch_of = batch_of and p = p and getUpdates = getUpdates,
        OF posts(2-4) small one] unfolding srt by blast
  let ?frames = "snd (send_all m i ds)"
  have frames: "?frames = map (\<lambda>(n, d). data_frame i n d) (List.enumerate 0 ds)"
    using send_all_enumerate [OF sent(1), of 0 ds] sent(2) by simp
  have "open_batch dec (rt_key lr) (sealed q) = fs" if "(q, fs) \<in> set bs" for q fs
  proof (rule open_batch_sealed [where enc = enc and dec = dec and rnd = rnd, OF zstd key(1)])
    show "\<forall>n. rnd q = Some n \<longrightarrow> length n = nonceLen" using key(2) by blast
    have "set fs \<subseteq> set (concat (map snd bs))" using that by force
    then have "set fs \<subseteq> set ?frames" by (simp only: sent(5))
    then show "\<forall>f \<in> set fs. length (Payload f) < 2 ^ 24"
      using sent(4) by (fastforce simp: frames data_frame_def in_set_enumerate_eq)
  qed (use that sealed in auto)
  then have "concat (map (open_batch dec (rt_key lr)) (map snd ?sb)) = concat (map snd bs)"
    by (intro arg_cong [where f = concat]) (auto simp: comp_def)
  then have recv: "pushed i (snd (recvLoop dec now (map snd ?sb) lr)) =
      snd (recv_run (newConn t0 i) (map (\<lambda>f. (SeqNum f, Payload f)) ?frames))"
    using handle_data_frames [OF fresh, of ?frames now] sent(5)
    by (simp add: recvLoop_def split_beta frames data_frame_def)
  have "map (\<lambda>f. (SeqNum f, Payload f)) ?frames = map (\<lambda>(k, d). (of_nat k, d)) (List.enumerate 0 ds)"
    by (simp add: frames data_frame_def split_beta comp_def)
  then have "pushed i (snd (recvLoop dec now (map snd ?sb) lr)) = ds"
    unfolding recv using recv_run_inorder [of "newConn t0 i" 0 ds] sent(3) by (simp add: newConn_def)
  then show ?thesis using poll by blast
qed

text \<open>A run of the whole chain: one chunk on a new stream, one batch, one text message.\<close>

definition demo_lr :: link_runtime where
  "demo_lr = (newLinkRuntime \<lparr>SpecID = 1, SpecBotID = 5, SpecPeerBotID = 77, SpecChannelID = -100,
      Key = replicate 32 9, SpecLevel = SpeedFastest, QuietHours = None\<rparr>)
    \<lparr>rt_mux := put_conn 3 (newConn 0 3) NewMux\<rparr>"

definition demo_sealed :: bytes where
  "demo_sealed = seal_layout (gcm_Seal (replicate 32 9)) (replicate 12 1) (Frame_Marshal (data_frame 3 0 [1, 2]))"

definition demo_post :: channel_post where
  "demo_post = \<lparr>MessageID = 4, Chat_ID = -100, From = None, Text = formatTextBatch 77 6 demo_sealed,
     Document = None, SenderChat = None\<rparr>"

theorem tunnel_end_to_end_witness:
  "\<exists>datas p' s''. poll_round (\<lambda>_ _ s. (Inr [\<lparr>UpdateID = 8, ChannelPost = Some demo_post\<rparr>], s))
      table_download (NewPoller 77 (-100)) Map.empty = (datas, 0, p', s'')
    \<and> pushed 3 (snd (recvLoop Some 5 datas demo_lr)) = [[1, 2]]"
proof -
  let ?m = "put_conn 3 (newConn 0 3) NewMux" and ?f = "data_frame 3 0 [1, 2]"
  let ?u = "\<lparr>UpdateID = 8, ChannelPost = Some demo_post\<rparr>"
  have g: "GetConn ?m 3 = Some (newConn 0 3)" by (simp add: GetConn_def put_conn_def update_conv')
  have k: "rt_key demo_lr = replicate 32 9" "rt_mux demo_lr = ?m"
    by (simp_all add: demo_lr_def newLinkRuntime_def)
  have l: "length (Frame_Marshal ?f) = 15" by (simp add: HeaderSize_def data_frame_def)
  have small: "length (id (Frame_Marshal ?f)) \<le> MaxCompressedSize" unfolding id_apply l by (simp add: MaxCompressedSize_def)
  have fl: "flushRaw id (\<lambda>_. Some (replicate 12 1)) (replicate 32 9) 6 (Frame_Marshal ?f) 6 = Some ([(6, Inr demo_sealed)], 6)"
    using flushRaw_fits [of id "Frame_Marshal ?f" "\<lambda>_. Some (replicate 12 1)" "replicate 32 9" 6 6, OF small]
    by (simp add: SealEnvelope_key keyLen_def demo_sealed_def)
  have "length demo_sealed = 47"
    unfolding demo_sealed_def by (subst length_seal_layout) (simp_all add: nonceLen_def l del: length_Frame_Marshal)
  then have fit: "fitsTextBatch 77 6 demo_sealed"
    by (simp add: fitsTextBatch_def fmt_d_def fmt_0d_def dec_nat.simps EncodedLen_def maxMessageChars_def)
  show ?thesis
  proof (rule tunnel_end_to_end [where dec = Some and enc = id and rnd = "\<lambda>_. Some (replicate 12 1)"
        and m = ?m and c = "newConn 0 3" and bs = "[(6, [?f])]" and sealed = "\<lambda>_. demo_sealed"
        and us = "[?u]" and s' = Map.empty and stored = "\<lambda>s. s" and batch_of = "\<lambda>_. Some (6, demo_sealed)" and ?t0.0 = 0])
    show "concat (map snd [(6, [?f])]) = snd (send_all ?m 3 [[1, 2]])"
      using send_all_enumerate [OF g, of 0 "[[1, 2]]"] by (simp add: newConn_def)
    show "\<forall>(q, fs) \<in> set [(6, [?f])]. length (id (concat (map Frame_Marshal fs))) \<le> MaxCompressedSize
      \<and> flushRaw id (\<lambda>_. Some (replicate 12 1)) (rt_key demo_lr) q (concat (map Frame_Marshal fs)) q = Some ([(q, Inr demo_sealed)], q)"
      using small fl by (simp add: k del: length_Frame_Marshal)
    show "\<forall>u \<in> set [?u]. case Some (6, demo_sealed) of
          Some b \<Rightarrow> (\<exists>cp. ChannelPost u = Some cp \<and> carries Map.empty (NewPoller 77 (-100)) b cp)
        | None \<Rightarrow> (\<forall>cp. ChannelPost u = Some cp \<longrightarrow> foreign (NewPoller 77 (-100)) cp)"
      using fit by (simp add: carries_def NewPoller_def demo_post_def)
    show "file_store table_download (\<lambda>s. s)" by (rule table_store)
  qed (simp_all add: k g keyLen_def nonceLen_def newConn_def List.map_filter_simps document_ids_def demo_post_def)
qed

end
